(* ===== verification/Prelude.thy ===== *)
theory Prelude
  imports Complex_Main "HOL-Library.Word" "HOL-Library.Multiset"
begin

section \<open>Shared types, collections and lemmas\<close>

text \<open>
  What the components share: the names of Go's machine types, time, the result of a
  fallible call, the status codes of gRPC, the named collections the
  component proofs draw on, generic lemmas on lists and maps, and the contract of the
  get-or-create registries that five components of the platform have.
\<close>

subsection \<open>Go's types\<close>

text \<open>
  \<open>int\<close> is 64 bits wide on the platforms the services are built for. Lengths and
  indices, which memory bounds, are natural numbers; every other integer keeps its width.
  A time is a number of nanoseconds since the epoch and so is a duration.
\<close>

type_synonym int64 = "64 word"
type_synonym int32 = "32 word"
type_synonym time = int

abbreviation millisecond :: time where "millisecond \<equiv> 1000000"
abbreviation second :: time where "second \<equiv> 1000000000"

text \<open>Go's integer division and remainder truncate towards zero.\<close>

definition go_div :: "int \<Rightarrow> int \<Rightarrow> int" where
  "go_div a b = sgn a * sgn b * (\<bar>a\<bar> div \<bar>b\<bar>)"

definition go_mod :: "int \<Rightarrow> int \<Rightarrow> int" where
  "go_mod a b = a - b * go_div a b"

lemma go_div_nonneg [simp]: "0 \<le> a \<Longrightarrow> 0 < b \<Longrightarrow> go_div a b = a div b"
  by (cases "a = 0") (simp_all add: go_div_def)

lemma go_mod_nonneg [simp]: "0 \<le> a \<Longrightarrow> 0 < b \<Longrightarrow> go_mod a b = a mod b"
  by (simp add: go_mod_def minus_mult_div_eq_mod)

text \<open>\<open>Duration.Milliseconds\<close>.\<close>

definition to_millis :: "time \<Rightarrow> int" where
  "to_millis d = go_div d millisecond"

text \<open>\<open>time.UnixMilli\<close> and \<open>Time.UnixMilli\<close>.\<close>

definition unix_milli_time :: "int64 \<Rightarrow> time" where
  "unix_milli_time ms = sint ms * millisecond"

definition time_unix_milli :: "time \<Rightarrow> int64" where
  "time_unix_milli t = word_of_int (t div millisecond)"

text \<open>\<open>Time.Sub\<close>, \<open>time.Until\<close> and \<open>time.Since\<close> saturate at the bounds of a \<open>Duration\<close>.\<close>

definition time_sub :: "time \<Rightarrow> time \<Rightarrow> time" where
  "time_sub t u = max (- (2 ^ 63)) (min (2 ^ 63 - 1) (t - u))"

text \<open>\<open>Time.Format\<close> in the layouts \<open>2006-01-02\<close> and \<open>2006-01-02T15:04\<close>.\<close>

record calendar =
  day_key :: "time \<Rightarrow> string"
  minute_key :: "time \<Rightarrow> string"

subsection \<open>Errors\<close>

text \<open>The status codes of gRPC, and their names.\<close>

datatype code =
    OK | Canceled | UnknownCode | InvalidArgument | DeadlineExceeded | NotFound | AlreadyExists
  | PermissionDenied | ResourceExhausted | FailedPrecondition | Aborted | OutOfRange
  | Unimplemented | Internal | Unavailable | DataLoss | Unauthenticated

fun code_string :: "code \<Rightarrow> string" where
  "code_string OK = ''OK''"
| "code_string Canceled = ''Canceled''"
| "code_string UnknownCode = ''Unknown''"
| "code_string InvalidArgument = ''InvalidArgument''"
| "code_string DeadlineExceeded = ''DeadlineExceeded''"
| "code_string NotFound = ''NotFound''"
| "code_string AlreadyExists = ''AlreadyExists''"
| "code_string PermissionDenied = ''PermissionDenied''"
| "code_string ResourceExhausted = ''ResourceExhausted''"
| "code_string FailedPrecondition = ''FailedPrecondition''"
| "code_string Aborted = ''Aborted''"
| "code_string OutOfRange = ''OutOfRange''"
| "code_string Unimplemented = ''Unimplemented''"
| "code_string Internal = ''Internal''"
| "code_string Unavailable = ''Unavailable''"
| "code_string DataLoss = ''DataLoss''"
| "code_string Unauthenticated = ''Unauthenticated''"

text \<open>
  An error value: a gRPC status with its message, or a plain Go error. A fallible call
  returns \<open>Inl\<close> the error or \<open>Inr\<close> the result. \<open>err_text\<close> is what \<open>Error()\<close> gives, \<open>err_message\<close>
  the message of the status that \<open>status.FromError\<close> makes of the error.
\<close>

datatype err = Status code string | Plain string

type_synonym 'a result = "err + 'a"

fun err_text :: "err \<Rightarrow> string" where
  "err_text (Status c m) = ''rpc error: code = '' @ code_string c @ '' desc = '' @ m"
| "err_text (Plain m) = m"

fun err_message :: "err \<Rightarrow> string" where
  "err_message (Status _ m) = m"
| "err_message (Plain m) = m"

subsection \<open>Collections\<close>

text \<open>
  \<open>counts\<close> collects the equations that say what an operation does to the counters of
  a component, \<open>frame\<close> those that say what it leaves alone, \<open>invariants\<close> the
  preservation lemmas.
\<close>

named_theorems counts
named_theorems frame
named_theorems invariants

subsection \<open>Lists and maps\<close>

lemma set_updates_subset: "set (xs[i := x]) \<subseteq> insert x (set xs)"
  by (rule set_update_subset_insert)

lemma take_min_length [simp]: "take (min n (length xs)) xs = take n xs"
  by (simp add: min_def)

lemma filter_take_drop: "filter P (take n xs) @ filter P (drop n xs) = filter P xs"
  by (metis append_take_drop_id filter_append)

lemma mset_rotate [simp]: "mset (rotate n xs) = mset xs"
  by (metis append_take_drop_id mset_append rotate_drop_take union_commute)

lemma word_of_sint [simp]: "word_of_int (sint (w :: 'a::len word)) = w"
  by (metis scast_eq scast_id)

lemma sint_word_of_int:
  "- 9223372036854775808 \<le> i \<Longrightarrow> i < 9223372036854775808 \<Longrightarrow> sint (word_of_int i :: int64) = i"
  by (simp add: sint_sbintrunc' signed_take_bit_int_eq_self)

lemma sint_bounds64: "- 9223372036854775808 \<le> sint (w :: int64)" "sint (w :: int64) < 9223372036854775808"
  using sint_ge [of w] sint_lt [of w] by simp_all

lemma map_upd_Some_iff: "(m(k \<mapsto> v)) k' = Some w \<longleftrightarrow> (if k' = k then w = v else m k' = Some w)"
  by auto

lemma card_le_length_filter: "distinct xs \<Longrightarrow> card {x \<in> set xs. P x} = length (filter P xs)"
  by (metis distinct_card distinct_filter set_filter)

text \<open>Go's \<open>strings.HasPrefix\<close> and \<open>strings.HasSuffix\<close>.\<close>

definition has_prefix :: "string \<Rightarrow> string \<Rightarrow> bool" where
  "has_prefix s p \<longleftrightarrow> take (length p) s = p"

definition has_suffix :: "string \<Rightarrow> string \<Rightarrow> bool" where
  "has_suffix s p \<longleftrightarrow> length p \<le> length s \<and> drop (length s - length p) s = p"

lemma has_suffix_append [simp]: "has_suffix (s @ p) p"
  by (simp add: has_suffix_def)

lemma has_prefix_append [simp]: "has_prefix (p @ s) p"
  by (simp add: has_prefix_def)

text \<open>The decimal digits of a number, as \<open>%d\<close> and \<open>strconv.Itoa\<close> print it.\<close>

fun show_nat :: "nat \<Rightarrow> string" where
  "show_nat n = (if n < 10 then [''0123456789'' ! n] else show_nat (n div 10) @ [''0123456789'' ! (n mod 10)])"

declare show_nat.simps [simp del]

definition show_int :: "int \<Rightarrow> string" where
  "show_int i = (if i < 0 then ''-'' @ show_nat (nat (- i)) else show_nat (nat i))"

text \<open>The two hexadecimal digits of a byte, as \<open>%x\<close> prints it.\<close>

definition hex_digit :: "nat \<Rightarrow> char" where
  "hex_digit n = ''0123456789abcdef'' ! n"

definition byte_hex :: "nat \<Rightarrow> string" where
  "byte_hex b = [hex_digit (b div 16), hex_digit (b mod 16)]"

subsection \<open>Get-or-create registries\<close>

text \<open>
  The breaker registry, the queue registry, the health tracker, the batcher table and the
  rate limiter's buckets all look a key up and create a fresh entry when it is missing.
  The contract: \<open>find\<close> is the lookup, \<open>get\<close> the operation that creates. In the code
  two goroutines may race to create the same entry; the second check under the write lock
  makes the outcome that of one call after the other, and \<open>get_twice\<close> says that the
  second then gets what the first created.
\<close>

locale lazy_registry =
  fixes find :: "'r \<Rightarrow> 'k \<Rightarrow> 'v option"
    and get :: "'r \<Rightarrow> 'k \<Rightarrow> 'r \<times> 'v"
    and fresh :: "'r \<Rightarrow> 'k \<Rightarrow> 'v"
  assumes get_found: "find r k = Some v \<Longrightarrow> get r k = (r, v)"
    and get_missing: "find r k = None \<Longrightarrow> snd (get r k) = fresh r k"
    and find_get: "find (fst (get r k)) k = Some (snd (get r k))"
    and find_get_other: "k' \<noteq> k \<Longrightarrow> find (fst (get r k)) k' = find r k'"
begin

lemma get_twice: "get (fst (get r k)) k = (fst (get r k), snd (get r k))"
  by (rule get_found [OF find_get])

lemma get_keeps: "find r k' = Some v \<Longrightarrow> find (fst (get r k)) k' = Some v"
  by (cases "k' = k") (simp_all add: get_found find_get_other)

lemma get_value: "snd (get r k) = (case find r k of Some v \<Rightarrow> v | None \<Rightarrow> fresh r k)"
  by (cases "find r k") (simp_all add: get_found get_missing)

lemma find_get_all:
  "find (fst (get r k)) = (find r)(k \<mapsto> (case find r k of Some v \<Rightarrow> v | None \<Rightarrow> fresh r k))"
  by (rule ext) (simp add: find_get find_get_other get_value)

lemma get_commute:
  assumes "fresh (fst (get r k)) l = fresh r l" "fresh (fst (get r l)) k = fresh r k"
  shows "find (fst (get (fst (get r k)) l)) = find (fst (get (fst (get r l)) k))"
proof (cases "k = l")
  case True
  then show ?thesis by simp
next
  case False
  with assms show ?thesis
    by (auto simp: find_get_all fun_eq_iff split: option.splits)
qed

end

subsection \<open>Machines\<close>

text \<open>
  A component that several goroutines work on is a relation between its states, and what holds
  at any moment is an invariant. The contract of a machine with its invariant: it holds at the start and
  every step keeps it.
\<close>

locale machine =
  fixes start :: "'s \<Rightarrow> bool" and step :: "'s \<Rightarrow> 's \<Rightarrow> bool" and inv :: "'s \<Rightarrow> bool"
  assumes inv_start: "start s \<Longrightarrow> inv s"
    and inv_step: "inv s \<Longrightarrow> step s s' \<Longrightarrow> inv s'"
begin

lemma inv_run: "step\<^sup>*\<^sup>* s s' \<Longrightarrow> inv s \<Longrightarrow> inv s'"
  by (induction rule: rtranclp_induct) (auto intro: inv_step)

lemma inv_reached: "start s \<Longrightarrow> step\<^sup>*\<^sup>* s s' \<Longrightarrow> inv s'"
  by (rule inv_run [OF _ inv_start])

end

text \<open>How many elements of a list satisfy a predicate, when one of them changes.\<close>

definition tally :: "('a \<Rightarrow> bool) \<Rightarrow> 'a list \<Rightarrow> nat" where
  "tally P xs = length (filter P xs)"

lemma tally_simps [simp]:
  "tally P [] = 0" "tally P (x # xs) = of_bool (P x) + tally P xs" "tally P (xs @ ys) = tally P xs + tally P ys"
  by (simp_all add: tally_def)

lemma tally_update:
  assumes "i < length xs"
  shows "tally P (xs[i := x]) + of_bool (P (xs ! i)) = tally P xs + of_bool (P x)"
proof -
  have "xs = take i xs @ xs ! i # drop (Suc i) xs" by (rule id_take_nth_drop [OF assms])
  then have "tally P xs = tally P (take i xs @ xs ! i # drop (Suc i) xs)" by simp
  then show ?thesis by (simp add: upd_conv_take_nth_drop [OF assms])
qed

lemma tally_mono: "(\<And>x. x \<in> set xs \<Longrightarrow> P x \<Longrightarrow> Q x) \<Longrightarrow> tally P xs \<le> tally Q xs"
  by (induction xs) auto

lemma tally_cong: "(\<And>x. x \<in> set xs \<Longrightarrow> P x = Q x) \<Longrightarrow> tally P xs = tally Q xs"
  by (induction xs) auto

end
