(* ===== verification/Float64.thy ===== *)
theory Float64
  imports Complex_Main "HOL-Library.Word" "HOL-Library.Log_Nat"
begin

section \<open>Go's float64: IEEE-754 binary64\<close>

text \<open>
  The scorer, the health tracker, the rate limiter, the latency histogram and the quota
  enforcer compute with Go's \<open>float64\<close>, so this theory models the type at the level of
  its 64 bits: a value is its bit pattern, the arithmetic operations compute the exact
  result with integers and round it to nearest, ties to even, and comparisons follow the
  standard's rules for NaN and the two zeros. All operations are executable.

  \<open>f64_val\<close> gives the real number a finite value stands for, \<open>f64_key\<close> an integer with
  the same order. The lemmas at the end of the theory say that every operation is the
  exact real operation followed by one monotone rounding function \<open>rnd_key\<close> that fixes
  the representable numbers; the bounds proved about the program use only those.

  Two conventions of the model: an operation whose result is NaN returns the pattern of
  \<open>math.NaN()\<close> (which NaN the hardware delivers is not observable in this program), and a
  product and a sum are rounded separately, as on amd64 (the Go specification lets other
  targets fuse them).
\<close>

subsection \<open>Representation\<close>

datatype f64 = F64 (f64_bits: "64 word")

text \<open>The exponent field is all ones from this magnitude on: infinity is exactly here.\<close>

definition f64_inf_mag :: int where
  "f64_inf_mag = 2047 * 2 ^ 52"

definition f64_sign :: "f64 \<Rightarrow> bool" where
  "f64_sign x \<longleftrightarrow> 2 ^ 63 \<le> uint (f64_bits x)"

definition f64_mag :: "f64 \<Rightarrow> int" where
  "f64_mag x = uint (f64_bits x) mod 2 ^ 63"

definition f64_make :: "bool \<Rightarrow> int \<Rightarrow> f64" where
  "f64_make s k = F64 (word_of_int (if s then 2 ^ 63 + k else k))"

definition f64_is_nan :: "f64 \<Rightarrow> bool" where
  "f64_is_nan x \<longleftrightarrow> f64_inf_mag < f64_mag x"

definition f64_is_inf :: "f64 \<Rightarrow> bool" where
  "f64_is_inf x \<longleftrightarrow> f64_mag x = f64_inf_mag"

definition f64_finite :: "f64 \<Rightarrow> bool" where
  "f64_finite x \<longleftrightarrow> f64_mag x < f64_inf_mag"

definition f64_nan :: f64 where
  "f64_nan = F64 0x7FF8000000000001"

definition f64_zero :: f64 where
  "f64_zero = F64 0"

definition f64_inf :: "bool \<Rightarrow> f64" where
  "f64_inf s = f64_make s f64_inf_mag"

text \<open>Significand and exponent of a finite magnitude: the value is \<open>sig * 2 ^ exp\<close>.\<close>

definition f64_sig :: "int \<Rightarrow> int" where
  "f64_sig k = (if k div 2 ^ 52 = 0 then k else 2 ^ 52 + k mod 2 ^ 52)"

definition f64_exp :: "int \<Rightarrow> int" where
  "f64_exp k = max 1 (k div 2 ^ 52) - 1075"

text \<open>An integer with the order of the numbers: both zeros have key 0.\<close>

definition f64_key :: "f64 \<Rightarrow> int" where
  "f64_key x = (if f64_sign x then - f64_mag x else f64_mag x)"

subsection \<open>Rounding\<close>

text \<open>\<open>rdiv a b\<close> is \<open>a / b\<close> rounded to the nearest integer, ties to even.\<close>

definition rdiv :: "int \<Rightarrow> int \<Rightarrow> int" where
  "rdiv a b =
     (let d = a div b; r = a mod b
      in if 2 * r < b \<or> (2 * r = b \<and> even d) then d else d + 1)"

text \<open>\<open>flog2 a b\<close> is the floor of the binary logarithm of \<open>a / b\<close>.\<close>

definition flog2 :: "int \<Rightarrow> int \<Rightarrow> int" where
  "flog2 a b =
     (let d = bitlen a - bitlen b
      in if b * 2 ^ nat d \<le> a * 2 ^ nat (- d) then d else d - 1)"

text \<open>The magnitude nearest to \<open>a / b\<close>: overflow gives the magnitude of infinity.\<close>

definition round_ratio :: "int \<Rightarrow> int \<Rightarrow> int" where
  "round_ratio a b =
     (if a \<le> 0 then 0
      else let q = max (flog2 a b) (- 1022) - 52
           in min f64_inf_mag
                ((q + 1074) * 2 ^ 52 + rdiv (a * 2 ^ nat (- q)) (b * 2 ^ nat q)))"

text \<open>
  The float for a signed ratio; \<open>s0\<close> is the sign of a zero result. The exact value
  \<open>m * 2 ^ e\<close> is the ratio of \<open>m * 2 ^ e\<close> and 1, or of \<open>m\<close> and \<open>2 ^ (- e)\<close>.
\<close>

definition f64_of_ratio :: "bool \<Rightarrow> int \<Rightarrow> int \<Rightarrow> f64" where
  "f64_of_ratio s0 a b =
     f64_make (if a = 0 then s0 else a < 0) (round_ratio \<bar>a\<bar> b)"

definition f64_of_scaled :: "bool \<Rightarrow> int \<Rightarrow> int \<Rightarrow> f64" where
  "f64_of_scaled s0 m e = f64_of_ratio s0 (m * 2 ^ nat e) (2 ^ nat (- e))"

subsection \<open>Operations\<close>

definition f64_ssig :: "f64 \<Rightarrow> int" where
  "f64_ssig x = (if f64_sign x then - f64_sig (f64_mag x) else f64_sig (f64_mag x))"

definition f64_neg :: "f64 \<Rightarrow> f64" where
  "f64_neg x = f64_make (\<not> f64_sign x) (f64_mag x)"

definition f64_add :: "f64 \<Rightarrow> f64 \<Rightarrow> f64" where
  "f64_add x y =
     (if f64_is_nan x \<or> f64_is_nan y then f64_nan
      else if f64_is_inf x
        then (if f64_is_inf y \<and> f64_sign x \<noteq> f64_sign y then f64_nan else x)
      else if f64_is_inf y then y
      else let ex = f64_exp (f64_mag x); ey = f64_exp (f64_mag y); e = min ex ey
           in f64_of_scaled (f64_sign x \<and> f64_sign y)
                (f64_ssig x * 2 ^ nat (ex - e) + f64_ssig y * 2 ^ nat (ey - e)) e)"

definition f64_sub :: "f64 \<Rightarrow> f64 \<Rightarrow> f64" where
  "f64_sub x y = f64_add x (f64_neg y)"

definition f64_mul :: "f64 \<Rightarrow> f64 \<Rightarrow> f64" where
  "f64_mul x y =
     (let s = (f64_sign x \<noteq> f64_sign y)
      in if f64_is_nan x \<or> f64_is_nan y then f64_nan
         else if f64_is_inf x \<or> f64_is_inf y
           then (if f64_mag x = 0 \<or> f64_mag y = 0 then f64_nan else f64_inf s)
         else f64_of_scaled s (f64_ssig x * f64_ssig y)
                (f64_exp (f64_mag x) + f64_exp (f64_mag y)))"

definition f64_div :: "f64 \<Rightarrow> f64 \<Rightarrow> f64" where
  "f64_div x y =
     (let s = (f64_sign x \<noteq> f64_sign y)
      in if f64_is_nan x \<or> f64_is_nan y then f64_nan
         else if f64_is_inf x then (if f64_is_inf y then f64_nan else f64_inf s)
         else if f64_is_inf y then f64_make s 0
         else if f64_mag y = 0 then (if f64_mag x = 0 then f64_nan else f64_inf s)
         else let e = f64_exp (f64_mag x) - f64_exp (f64_mag y)
              in f64_of_ratio s
                   (f64_ssig x * sgn (f64_ssig y) * 2 ^ nat e)
                   (\<bar>f64_ssig y\<bar> * 2 ^ nat (- e)))"

text \<open>Comparisons are false on NaN, and the two zeros are equal.\<close>

definition f64_lt :: "f64 \<Rightarrow> f64 \<Rightarrow> bool" where
  "f64_lt x y \<longleftrightarrow> \<not> f64_is_nan x \<and> \<not> f64_is_nan y \<and> f64_key x < f64_key y"

definition f64_le :: "f64 \<Rightarrow> f64 \<Rightarrow> bool" where
  "f64_le x y \<longleftrightarrow> \<not> f64_is_nan x \<and> \<not> f64_is_nan y \<and> f64_key x \<le> f64_key y"

definition f64_eq :: "f64 \<Rightarrow> f64 \<Rightarrow> bool" where
  "f64_eq x y \<longleftrightarrow> \<not> f64_is_nan x \<and> \<not> f64_is_nan y \<and> f64_key x = f64_key y"

text \<open>
  Conversions: \<open>float64(i)\<close>, a constant of the source (the nearest double of the
  decimal \<open>a / b\<close>), \<open>int(x)\<close> (truncation; out of range and NaN give the value the
  amd64 conversion delivers), \<open>math.Ceil\<close> and \<open>math.Max\<close>.
\<close>

definition f64_of_int :: "int \<Rightarrow> f64" where
  "f64_of_int i = f64_of_ratio False i 1"

definition f64_const :: "int \<Rightarrow> int \<Rightarrow> f64" where
  "f64_const a b = f64_of_ratio False a b"

text \<open>Truncation towards zero and the ceiling of \<open>m * 2 ^ e\<close>.\<close>

definition f64_trunc :: "f64 \<Rightarrow> int" where
  "f64_trunc x =
     (let m = f64_sig (f64_mag x); e = f64_exp (f64_mag x); t = m * 2 ^ nat e div 2 ^ nat (- e)
      in if f64_sign x then - t else t)"

definition f64_to_int64 :: "f64 \<Rightarrow> 64 word" where
  "f64_to_int64 x =
     (if f64_finite x \<and> - (2 ^ 63) \<le> f64_trunc x \<and> f64_trunc x < 2 ^ 63
      then word_of_int (f64_trunc x) else 0x8000000000000000)"

definition f64_ceil_int :: "f64 \<Rightarrow> int" where
  "f64_ceil_int x =
     (let m = f64_ssig x; e = f64_exp (f64_mag x)
      in - ((- m) * 2 ^ nat e div 2 ^ nat (- e)))"

definition f64_ceil :: "f64 \<Rightarrow> f64" where
  "f64_ceil x = (if f64_finite x then f64_of_ratio (f64_sign x) (f64_ceil_int x) 1 else x)"

definition f64_max :: "f64 \<Rightarrow> f64 \<Rightarrow> f64" where
  "f64_max x y =
     (if x = f64_inf False \<or> y = f64_inf False then f64_inf False
      else if f64_is_nan x \<or> f64_is_nan y then f64_nan
      else if f64_mag x = 0 \<and> f64_mag y = 0 then (if f64_sign x then y else x)
      else if f64_lt y x then x else y)"

subsection \<open>Bits, values and keys\<close>

lemma f64_mag_bounds [simp]: "0 \<le> f64_mag x" "f64_mag x < 9223372036854775808"
  by (simp_all add: f64_mag_def)

lemma uint_f64_make:
  assumes "0 \<le> k" "k < 2 ^ 63"
  shows "uint (f64_bits (f64_make s k)) = (if s then 2 ^ 63 + k else k)"
  using assms by (simp add: f64_make_def uint_word_of_int)

lemma f64_sign_make [simp]: "0 \<le> k \<Longrightarrow> k < 2 ^ 63 \<Longrightarrow> f64_sign (f64_make s k) = s"
  by (simp add: f64_sign_def uint_f64_make)

lemma f64_mag_make [simp]: "0 \<le> k \<Longrightarrow> k < 2 ^ 63 \<Longrightarrow> f64_mag (f64_make s k) = k"
  by (simp add: f64_mag_def uint_f64_make)

lemma mod_upper_half: "2 ^ 63 \<le> (k::int) \<Longrightarrow> k < 2 ^ 64 \<Longrightarrow> k mod 2 ^ 63 = k - 2 ^ 63"
proof -
  assume k: "2 ^ 63 \<le> k" "k < 2 ^ 64"
  have "k mod 2 ^ 63 = (k - 2 ^ 63) mod 2 ^ 63" by (rule minus_mod_self2 [symmetric])
  also have "\<dots> = k - 2 ^ 63" using k by (intro mod_pos_pos_trivial) auto
  finally show ?thesis .
qed

lemma f64_make_sign_mag [simp]: "f64_make (f64_sign x) (f64_mag x) = x"
proof (cases x)
  case (F64 w)
  have w: "0 \<le> uint w" "uint w < 2 ^ 64" using uint_lt2p [of w] by simp_all
  have "(if f64_sign x then 2 ^ 63 + f64_mag x else f64_mag x) = uint w"
  proof (cases "2 ^ 63 \<le> uint w")
    case True
    then show ?thesis
      using w mod_upper_half [OF True] F64 by (simp only: f64_sign_def f64_mag_def f64.sel) simp
  next
    case False
    then have "uint w mod 2 ^ 63 = uint w" using w by (intro mod_pos_pos_trivial) auto
    with False show ?thesis
      using F64 by (simp only: f64_sign_def f64_mag_def f64.sel) simp
  qed
  then have "f64_make (f64_sign x) (f64_mag x) = F64 (word_of_int (uint w))"
    by (simp only: f64_make_def)
  then show ?thesis using F64 by simp
qed

lemma f64_key_make: "0 \<le> k \<Longrightarrow> k < 2 ^ 63 \<Longrightarrow> f64_key (f64_make s k) = (if s then - k else k)"
  by (simp add: f64_key_def)

lemma f64_class: "f64_is_nan x \<or> f64_is_inf x \<or> f64_finite x"
  by (auto simp: f64_is_nan_def f64_is_inf_def f64_finite_def)

lemma f64_finite_simps [simp]:
  "f64_finite x \<Longrightarrow> \<not> f64_is_nan x" "f64_finite x \<Longrightarrow> \<not> f64_is_inf x"
  by (auto simp: f64_is_nan_def f64_is_inf_def f64_finite_def)

definition f64_magval :: "int \<Rightarrow> real" where
  "f64_magval k = of_int (f64_sig k) * 2 powi f64_exp k"

definition f64_val :: "f64 \<Rightarrow> real" where
  "f64_val x = (if f64_sign x then - f64_magval (f64_mag x) else f64_magval (f64_mag x))"

lemma f64_val_ssig: "f64_val x = of_int (f64_ssig x) * 2 powi f64_exp (f64_mag x)"
  by (simp add: f64_val_def f64_ssig_def f64_magval_def)

lemma powi_int_split: "(2::real) powi q = 2 ^ nat q / 2 ^ nat (- q)"
  by (cases "0 \<le> q") (auto simp: power_int_def field_simps)

lemma scaled_ratio:
  "real_of_int (a * 2 ^ nat (- q)) / real_of_int (b * 2 ^ nat q)
     = real_of_int a / real_of_int b / 2 powi q"
  by (simp add: powi_int_split)

lemma f64_sig_bounds:
  assumes "0 \<le> k" 
  shows "0 \<le> f64_sig k" "f64_sig k < 2 ^ 53" 
    "1 \<le> k div 2 ^ 52 \<Longrightarrow> 2 ^ 52 \<le> f64_sig k" 
    "k div 2 ^ 52 = 0 \<Longrightarrow> f64_sig k < 2 ^ 52"
proof -
  have m: "0 \<le> k mod 2 ^ 52" "k mod 2 ^ 52 < 2 ^ 52" by simp_all
  have e: "k div 2 ^ 52 = 0 \<Longrightarrow> k < 2 ^ 52" using assms by (auto simp: div_eq_0_iff)
  show "0 \<le> f64_sig k" using m assms by (simp add: f64_sig_def)
  show "f64_sig k < 2 ^ 53" using m e by (auto simp: f64_sig_def)
  show "1 \<le> k div 2 ^ 52 \<Longrightarrow> 2 ^ 52 \<le> f64_sig k" using m by (simp add: f64_sig_def)
  show "k div 2 ^ 52 = 0 \<Longrightarrow> f64_sig k < 2 ^ 52" using e by (simp add: f64_sig_def)
qed

lemma f64_magval_nonneg: "0 \<le> k \<Longrightarrow> 0 \<le> f64_magval k"
  using f64_sig_bounds(1) by (simp add: f64_magval_def)

lemma f64_magval_mono:
  assumes "0 \<le> k" "k < k'"
  shows "f64_magval k < f64_magval k'"
proof (cases "k div 2 ^ 52 = k' div 2 ^ 52")
  case True
  have "k - k div 2 ^ 52 * 2 ^ 52 < k' - k' div 2 ^ 52 * 2 ^ 52"
    unfolding True using assms(2) by (rule diff_strict_right_mono)
  then have "k mod 2 ^ 52 < k' mod 2 ^ 52" by (simp only: minus_div_mult_eq_mod)
  with True assms have "f64_sig k < f64_sig k'" "f64_exp k = f64_exp k'"
    by (auto simp: f64_sig_def f64_exp_def)
  then show ?thesis by (simp add: f64_magval_def)
next
  case False
  have "k div 2 ^ 52 \<le> k' div 2 ^ 52" using assms by (intro zdiv_mono1) auto
  with False have e: "k div 2 ^ 52 < k' div 2 ^ 52" by simp
  have e0: "0 \<le> k div 2 ^ 52" using assms by simp
  have s': "2 ^ 52 \<le> f64_sig k'" using f64_sig_bounds(3) [of k'] e e0 assms by linarith
  show ?thesis
  proof (cases "k div 2 ^ 52 = 0")
    case True
    then have "f64_sig k < 2 ^ 52" using f64_sig_bounds(4) assms by blast
    with s' have s: "f64_sig k < f64_sig k'" by linarith
    have x: "f64_exp k \<le> f64_exp k'" using True e by (simp add: f64_exp_def)
    have "f64_magval k < of_int (f64_sig k') * 2 powi f64_exp k"
      using s by (simp add: f64_magval_def)
    also have "\<dots> \<le> f64_magval k'" 
      using x s' by (simp add: f64_magval_def mult_left_mono power_int_increasing)
    finally show ?thesis .
  next
    case nz: False
    have s: "f64_sig k < 2 ^ 53" using f64_sig_bounds(2) assms by blast
    have x: "f64_exp k + 1 \<le> f64_exp k'" using nz e e0 by (simp add: f64_exp_def)
    have "f64_magval k < 2 ^ 53 * 2 powi f64_exp k"
    proof -
      have "real_of_int (f64_sig k) < 2 ^ 53" using s by simp
      then show ?thesis by (simp add: f64_magval_def)
    qed
    also have "\<dots> = 2 ^ 52 * 2 powi (f64_exp k + 1)" by (simp add: power_int_add)
    also have "\<dots> \<le> 2 ^ 52 * 2 powi (f64_exp k')" 
      using x by (intro mult_left_mono power_int_increasing) auto
    also have "\<dots> \<le> f64_magval k'"
    proof -
      have "(2::real) ^ 52 \<le> real_of_int (f64_sig k')" using s' by simp
      then show ?thesis by (simp add: f64_magval_def)
    qed
    finally show ?thesis .
  qed
qed

lemma f64_magval_less_iff:
  "0 \<le> k \<Longrightarrow> 0 \<le> k' \<Longrightarrow> f64_magval k < f64_magval k' \<longleftrightarrow> k < k'"
  by (metis f64_magval_mono linorder_neqE not_less_iff_gr_or_eq)

lemma f64_magval_0 [simp]: "f64_magval 0 = 0"
  by (simp add: f64_magval_def f64_sig_def)

lemma mixed_sign_less:
  assumes "0 \<le> (A::real)" "0 \<le> (B::real)" "0 \<le> (a::int)" "0 \<le> (b::int)"
    and "0 < A \<longleftrightarrow> 0 < a" "0 < B \<longleftrightarrow> 0 < b"
  shows "- A < B \<longleftrightarrow> - a < b" and "A < - B \<longleftrightarrow> a < - b"
proof -
  have "- A < B \<longleftrightarrow> 0 < A \<or> 0 < B" using assms(1,2) by auto
  moreover have "- a < b \<longleftrightarrow> 0 < a \<or> 0 < b" using assms(3,4) by auto
  ultimately show "- A < B \<longleftrightarrow> - a < b" using assms(5,6) by simp
  have "\<not> A < - B" and "\<not> a < - b" using assms(1-4) by linarith+
  then show "A < - B \<longleftrightarrow> a < - b" by simp
qed

lemma f64_magval_pos_iff: "0 \<le> k \<Longrightarrow> 0 < f64_magval k \<longleftrightarrow> 0 < k"
  using f64_magval_less_iff [of 0 k] by simp

text \<open>The key orders finite floats as their values do.\<close>

lemma f64_val_less_iff: "f64_val x < f64_val y \<longleftrightarrow> f64_key x < f64_key y"
proof -
  note m = f64_mag_bounds(1) [of x] f64_mag_bounds(1) [of y]
  note v = f64_magval_nonneg [OF m(1)] f64_magval_nonneg [OF m(2)]
  note p = f64_magval_pos_iff [OF m(1)] f64_magval_pos_iff [OF m(2)]
  note mixed = mixed_sign_less [OF v m p]
  show ?thesis
    by (cases "f64_sign x"; cases "f64_sign y")
      (simp_all add: f64_val_def f64_key_def mixed f64_magval_less_iff)
qed

lemma f64_val_le_iff: "f64_val x \<le> f64_val y \<longleftrightarrow> f64_key x \<le> f64_key y"
  using f64_val_less_iff [of y x] by linarith

subsection \<open>The rounding function on the reals\<close>

definition rhe :: "real \<Rightarrow> int" where
  "rhe x = (if x - of_int \<lfloor>x\<rfloor> < 1 / 2 \<or> (x - of_int \<lfloor>x\<rfloor> = 1 / 2 \<and> even \<lfloor>x\<rfloor>)
            then \<lfloor>x\<rfloor> else \<lfloor>x\<rfloor> + 1)"

definition rnd_mag :: "real \<Rightarrow> int" where
  "rnd_mag x =
     (if x \<le> 0 then 0
      else let q = max \<lfloor>log 2 x\<rfloor> (- 1022) - 52
           in min f64_inf_mag ((q + 1074) * 2 ^ 52 + rhe (x / 2 powi q)))"

definition rnd_key :: "real \<Rightarrow> int" where
  "rnd_key x = (if x < 0 then - rnd_mag (- x) else rnd_mag x)"

lemma rhe_bounds: "\<lfloor>x\<rfloor> \<le> rhe x" "rhe x \<le> \<lfloor>x\<rfloor> + 1"
  by (auto simp: rhe_def)

lemma rhe_mono: "x \<le> y \<Longrightarrow> rhe x \<le> rhe y"
proof (cases "\<lfloor>x\<rfloor> = \<lfloor>y\<rfloor>")
  case True
  assume "x \<le> y"
  with True show ?thesis by (auto simp: rhe_def)
next
  case False
  assume "x \<le> y"
  with False have "\<lfloor>x\<rfloor> + 1 \<le> \<lfloor>y\<rfloor>" using floor_mono [of x y] by linarith
  with rhe_bounds(2) [of x] rhe_bounds(1) [of y] show ?thesis by linarith
qed

lemma rhe_of_int [simp]: "rhe (of_int n) = n"
  by (simp add: rhe_def)

lemma rhe_ge: "of_int n \<le> x \<Longrightarrow> n \<le> rhe x"
  using rhe_mono [of "of_int n" x] by simp

lemma rhe_le: "x \<le> of_int n \<Longrightarrow> rhe x \<le> n"
  using rhe_mono [of x "of_int n"] by simp

lemma rdiv_rhe:
  assumes "0 < b"
  shows "rdiv a b = rhe (of_int a / of_int b)"
proof -
  have fl: "\<lfloor>real_of_int a / of_int b\<rfloor> = a div b" by (rule floor_divide_of_int_eq)
  have "real_of_int a = of_int (a div b) * of_int b + of_int (a mod b)"
    by (metis div_mult_mod_eq of_int_add of_int_mult)
  then have fr: "real_of_int a / of_int b - of_int (a div b) = of_int (a mod b) / of_int b"
    using assms by (simp add: field_simps)
  have c1: "real_of_int (a mod b) / of_int b < 1 / 2 \<longleftrightarrow> 2 * (a mod b) < b"
    using assms by (simp add: divide_less_eq) linarith
  have c2: "real_of_int (a mod b) / of_int b = 1 / 2 \<longleftrightarrow> 2 * (a mod b) = b"
    using assms by (simp add: divide_eq_eq) linarith
  show ?thesis unfolding rdiv_def rhe_def fl fr c1 c2 Let_def ..
qed

lemma bitlen_powi_bounds:
  assumes "0 < a"
  shows "2 powi (bitlen a - 1) \<le> real_of_int a" "real_of_int a < 2 powi bitlen a"
proof -
  have b: "0 < bitlen a" using assms bitlen_bounds [of a] bitlen_nonneg [of a]
    by (metis bitlen_eq_zero_iff less_le not_le)
  have "real_of_int (2 ^ nat (bitlen a - 1)) \<le> of_int a"
    "real_of_int a < of_int (2 ^ nat (bitlen a))"
    using bitlen_bounds [OF assms] by (simp_all only: of_int_le_iff of_int_less_iff)
  then show "2 powi (bitlen a - 1) \<le> real_of_int a" "real_of_int a < 2 powi bitlen a"
    using b by (simp_all add: power_int_def)
qed

lemma flog2_bounds:
  assumes "0 < a" "0 < b"
  shows "2 powi flog2 a b \<le> real_of_int a / of_int b"
    "real_of_int a / of_int b < 2 powi (flog2 a b + 1)"
proof -
  let ?d = "bitlen a - bitlen b" and ?x = "real_of_int a / of_int b"
  have c: "b * 2 ^ nat ?d \<le> a * 2 ^ nat (- ?d) \<longleftrightarrow> 2 powi ?d \<le> ?x"
  proof -
    have "b * 2 ^ nat ?d \<le> a * 2 ^ nat (- ?d)
        \<longleftrightarrow> real_of_int (b * 2 ^ nat ?d) \<le> real_of_int (a * 2 ^ nat (- ?d))"
      by (simp only: of_int_le_iff)
    also have "\<dots> \<longleftrightarrow> 2 powi ?d \<le> ?x"
      using assms(2) by (simp add: powi_int_split field_simps)
    finally show ?thesis .
  qed
  have up: "?x < 2 powi (?d + 1)"
  proof -
    have "?x < 2 powi bitlen a / of_int b"
      using bitlen_powi_bounds(2) [OF assms(1)] assms(2) by (simp add: divide_strict_right_mono)
    also have "\<dots> \<le> 2 powi bitlen a / 2 powi (bitlen b - 1)"
      using bitlen_powi_bounds(1) [OF assms(2)] assms by (intro divide_left_mono) auto
    also have "\<dots> = 2 powi (?d + 1)"
      by (simp add: power_int_diff power_int_add)
    finally show ?thesis .
  qed
  have lo: "2 powi (?d - 1) \<le> ?x"
  proof -
    have "(2::real) powi (?d - 1) = 2 powi (bitlen a - 1 - bitlen b)"
      by (simp add: algebra_simps)
    also have "\<dots> = 2 powi (bitlen a - 1) / 2 powi bitlen b"
      by (rule power_int_diff) simp
    also have "\<dots> \<le> of_int a / 2 powi bitlen b"
      using bitlen_powi_bounds(1) [OF assms(1)] by (simp add: divide_right_mono)
    also have "\<dots> \<le> ?x"
      using bitlen_powi_bounds(2) [OF assms(2)] assms by (intro divide_left_mono) auto
    finally show ?thesis .
  qed
  show "2 powi flog2 a b \<le> ?x" "?x < 2 powi (flog2 a b + 1)"
    using c up lo by (auto simp: flog2_def Let_def)
qed

lemma floor_log2_eqI:
  assumes "2 powi l \<le> (x::real)" "x < 2 powi (l + 1)"
  shows "\<lfloor>log 2 x\<rfloor> = l"
proof -
  have x: "0 < x" using assms(1) by (smt (verit) zero_less_power_int)
  have p: "(2::real) powi k = 2 powr of_int k" for k by (simp add: powr_real_of_int')
  show ?thesis
  proof (rule floor_unique)
    show "of_int l \<le> log 2 x" using assms(1) x by (simp add: le_log_iff p)
    show "log 2 x < of_int l + 1" using assms(2) x by (simp add: log_less_iff p powr_add)
  qed
qed

lemma flog2_floor_log: "0 < a \<Longrightarrow> 0 < b \<Longrightarrow> flog2 a b = \<lfloor>log 2 (real_of_int a / of_int b)\<rfloor>"
  using floor_log2_eqI [OF flog2_bounds] by simp

lemma floor_log2_bounds:
  assumes "0 < (x::real)"
  shows "2 powi \<lfloor>log 2 x\<rfloor> \<le> x" "x < 2 powi (\<lfloor>log 2 x\<rfloor> + 1)"
proof -
  have p: "(2::real) powi k = 2 powr of_int k" for k by (simp add: powr_real_of_int')
  show "2 powi \<lfloor>log 2 x\<rfloor> \<le> x" using assms by (simp add: p le_log_iff [symmetric])
  show "x < 2 powi (\<lfloor>log 2 x\<rfloor> + 1)"
    using assms by (simp only: p) (simp add: log_less_iff [symmetric])
qed

lemma round_ratio_rnd:
  assumes "0 \<le> a" "0 < b"
  shows "round_ratio a b = rnd_mag (of_int a / of_int b)"
proof (cases "a = 0")
  case True
  then show ?thesis by (simp add: round_ratio_def rnd_mag_def)
next
  case False
  with assms have a: "0 < a" by simp
  then have pos: "\<not> real_of_int a / of_int b \<le> 0" using assms by (simp add: not_le)
  have r: "rdiv (a * 2 ^ nat (- q)) (b * 2 ^ nat q) = rhe (of_int a / of_int b / 2 powi q)" for q
  proof -
    have "0 < b * 2 ^ nat q" using assms by simp
    then show ?thesis by (simp only: rdiv_rhe scaled_ratio)
  qed
  show ?thesis
    using a assms pos by (simp add: round_ratio_def rnd_mag_def flog2_floor_log r Let_def)
qed

lemma inf_mag_pos [simp]: "0 < f64_inf_mag" "0 \<le> f64_inf_mag"
  by (simp_all add: f64_inf_mag_def)

text \<open>The quotient by the unit in the last place lies between 0 and two binades.\<close>

lemma rnd_quotient:
  assumes "0 < (x::real)"
  defines "e \<equiv> max \<lfloor>log 2 x\<rfloor> (- 1022)"
  shows "0 \<le> rhe (x / 2 powi (e - 52))" "rhe (x / 2 powi (e - 52)) \<le> 2 ^ 53"
    "- 1022 < e \<Longrightarrow> 2 ^ 52 \<le> rhe (x / 2 powi (e - 52))"
proof -
  show "0 \<le> rhe (x / 2 powi (e - 52))" using assms(1) by (intro rhe_ge) simp
  have "x < 2 powi (\<lfloor>log 2 x\<rfloor> + 1)" by (rule floor_log2_bounds(2) [OF assms(1)])
  also have "\<dots> \<le> 2 powi (e + 1)" by (intro power_int_increasing) (auto simp: e_def)
  also have "\<dots> = 2 ^ 53 * 2 powi (e - 52)" by (simp add: power_int_add power_int_diff)
  finally show "rhe (x / 2 powi (e - 52)) \<le> 2 ^ 53"
    by (intro rhe_le) (simp add: divide_le_eq)
  assume "- 1022 < e"
  then have "e = \<lfloor>log 2 x\<rfloor>" by (simp add: e_def max_def split: if_splits)
  then have "2 powi e \<le> x" using floor_log2_bounds(1) [OF assms(1)] by simp
  moreover have "(2::real) powi e = 2 ^ 52 * 2 powi (e - 52)" by (simp add: power_int_diff)
  ultimately show "2 ^ 52 \<le> rhe (x / 2 powi (e - 52))"
    by (intro rhe_ge) (simp add: le_divide_eq)
qed

lemma rnd_mag_bounds [simp]: "0 \<le> rnd_mag x" "rnd_mag x \<le> f64_inf_mag"
  using rnd_quotient(1) [of x] by (auto simp: rnd_mag_def Let_def)

lemma rnd_mag_mono:
  assumes "x \<le> y"
  shows "rnd_mag x \<le> rnd_mag y"
proof (cases "x \<le> 0")
  case True
  then show ?thesis by (simp add: rnd_mag_def [of x])
next
  case False
  with assms have x: "0 < x" and y: "0 < y" by auto
  define ex where "ex = max \<lfloor>log 2 x\<rfloor> (- 1022)"
  define ey where "ey = max \<lfloor>log 2 y\<rfloor> (- 1022)"
  have "\<lfloor>log 2 x\<rfloor> \<le> \<lfloor>log 2 y\<rfloor>" using assms x by (intro floor_mono) simp
  then have le: "ex \<le> ey" by (simp add: ex_def ey_def)
  note qx = rnd_quotient [OF x, folded ex_def] and qy = rnd_quotient [OF y, folded ey_def]
  have "(ex + 1022) * 2 ^ 52 + rhe (x / 2 powi (ex - 52))
      \<le> (ey + 1022) * 2 ^ 52 + rhe (y / 2 powi (ey - 52))"
  proof (cases "ex = ey")
    case True
    then show ?thesis using assms by (simp add: rhe_mono divide_right_mono)
  next
    case ne: False
    with le have lt: "ex + 1 \<le> ey" by simp
    moreover have "- 1022 \<le> ex" by (simp add: ex_def)
    ultimately have "2 ^ 52 \<le> rhe (y / 2 powi (ey - 52))" using qy(3) by simp
    with lt qx(2) show ?thesis by simp
  qed
  then show ?thesis
    using x y by (simp add: rnd_mag_def Let_def not_le ex_def ey_def)
qed

lemma rnd_mag_0 [simp]: "rnd_mag 0 = 0"
  by (simp add: rnd_mag_def)

lemma rnd_key_mono: "x \<le> y \<Longrightarrow> rnd_key x \<le> rnd_key y"
  using rnd_mag_mono [of x y] rnd_mag_mono [of "- y" "- x"]
  by (cases "x < 0"; cases "y < 0")
    (simp_all add: rnd_key_def order_trans [OF _ rnd_mag_bounds(1)])

text \<open>Rounding fixes the representable numbers.\<close>

lemma rnd_mag_magval:
  assumes "0 \<le> k" "k < f64_inf_mag"
  shows "rnd_mag (f64_magval k) = k"
proof (cases "k = 0")
  case True
  then show ?thesis by simp
next
  case False
  with assms have k: "0 < k" by simp
  then have v: "0 < f64_magval k" by (simp add: f64_magval_pos_iff)
  have mx: "max \<lfloor>log 2 (f64_magval k)\<rfloor> (- 1022) = f64_exp k + 52"
  proof (cases "k div 2 ^ 52 = 0")
    case True
    then have s: "f64_sig k < 2 ^ 52" using f64_sig_bounds(4) assms by blast
    have "f64_magval k < 2 ^ 52 * 2 powi (- 1074)"
      using s True by (simp add: f64_magval_def f64_exp_def)
    also have "\<dots> = 2 powi (- 1022)" by (simp add: power_int_diff [of 2 52 1074, simplified])
    finally have "\<lfloor>log 2 (f64_magval k)\<rfloor> < - 1022"
      using floor_log2_bounds(1) [OF v] by (metis leD le_less_trans not_less power_int_increasing one_le_numeral)
    then show ?thesis using True by (simp add: f64_exp_def)
  next
    case nz: False
    have e: "1 \<le> k div 2 ^ 52" using nz assms by (metis div_int_pos_iff int_one_le_iff_zero_less less_le zero_le_numeral zero_le_power)
    have "f64_sig k < 2 ^ 53" "2 ^ 52 \<le> f64_sig k"
      using f64_sig_bounds(2) f64_sig_bounds(3) [OF _ e] assms by blast+
    then have s: "real_of_int (f64_sig k) < 2 ^ 53" "2 ^ 52 \<le> real_of_int (f64_sig k)" by simp_all
    have "\<lfloor>log 2 (f64_magval k)\<rfloor> = f64_exp k + 52"
    proof (rule floor_log2_eqI)
      show "2 powi (f64_exp k + 52) \<le> f64_magval k"
        using s(2) by (simp add: f64_magval_def power_int_add)
      show "f64_magval k < 2 powi (f64_exp k + 52 + 1)"
        using s(1) by (simp add: f64_magval_def power_int_add)
    qed
    then show ?thesis using e by (simp add: f64_exp_def)
  qed
  have q: "f64_magval k / 2 powi f64_exp k = of_int (f64_sig k)" by (simp add: f64_magval_def)
  have "(f64_exp k + 1074) * 2 ^ 52 + f64_sig k = k"
  proof (cases "k div 2 ^ 52 = 0")
    case True
    then show ?thesis by (simp add: f64_exp_def f64_sig_def)
  next
    case nz: False
    have e: "1 \<le> k div 2 ^ 52" using nz assms by (metis div_int_pos_iff int_one_le_iff_zero_less less_le zero_le_numeral zero_le_power)
    have "k = k div 2 ^ 52 * 2 ^ 52 + k mod 2 ^ 52" by simp
    with e nz show ?thesis by (simp add: f64_exp_def f64_sig_def algebra_simps)
  qed
  then show ?thesis
    using v assms by (simp add: rnd_mag_def Let_def mx q not_le)
qed

lemma rnd_key_val:
  assumes "f64_finite x"
  shows "rnd_key (f64_val x) = f64_key x"
proof -
  have m: "rnd_mag (f64_magval (f64_mag x)) = f64_mag x"
    using assms by (simp add: f64_finite_def rnd_mag_magval)
  have "0 < f64_magval (f64_mag x) \<or> f64_mag x = 0"
    using f64_magval_pos_iff [OF f64_mag_bounds(1), of x] f64_mag_bounds(1) [of x] by linarith
  then show ?thesis using m by (auto simp: rnd_key_def f64_val_def f64_key_def)
qed

subsection \<open>Every operation rounds the exact result\<close>

lemma inf_mag_less [simp]: "f64_inf_mag < 9223372036854775808"
  by (simp add: f64_inf_mag_def)

lemma rnd_mag_less [simp]: "rnd_mag x < 9223372036854775808"
  using rnd_mag_bounds(2) [of x] inf_mag_less by linarith

lemma f64_of_ratio_rnd:
  assumes "0 < b"
  shows "f64_of_ratio s a b
    = f64_make (if a = 0 then s else a < 0) (rnd_mag \<bar>real_of_int a / real_of_int b\<bar>)"
  using assms round_ratio_rnd [of "\<bar>a\<bar>" b] by (simp add: f64_of_ratio_def)

lemma f64_of_ratio_props:
  assumes "0 < b"
  shows "f64_key (f64_of_ratio s a b) = rnd_key (of_int a / of_int b)"
    and "\<not> f64_is_nan (f64_of_ratio s a b)"
proof -
  consider "a < 0" | "a = 0" | "0 < a" by linarith
  then show "f64_key (f64_of_ratio s a b) = rnd_key (of_int a / of_int b)"
    using assms
    by cases (simp_all add: f64_of_ratio_rnd f64_key_make rnd_key_def divide_less_0_iff abs_if)
  show "\<not> f64_is_nan (f64_of_ratio s a b)"
    using assms by (simp add: f64_of_ratio_rnd f64_is_nan_def not_less)
qed

lemma f64_of_scaled_props:
  "f64_key (f64_of_scaled s m e) = rnd_key (of_int m * 2 powi e)"
  "\<not> f64_is_nan (f64_of_scaled s m e)"
  by (simp_all add: f64_of_scaled_def f64_of_ratio_props powi_int_split)

lemma f64_finite_key: "f64_finite x \<longleftrightarrow> \<bar>f64_key x\<bar> < f64_inf_mag"
  by (simp add: f64_finite_def f64_key_def)

lemma f64_neg_props [simp]:
  "f64_key (f64_neg x) = - f64_key x" "f64_val (f64_neg x) = - f64_val x"
  "f64_finite (f64_neg x) \<longleftrightarrow> f64_finite x" "f64_is_nan (f64_neg x) \<longleftrightarrow> f64_is_nan x"
  "f64_is_inf (f64_neg x) \<longleftrightarrow> f64_is_inf x"
  by (auto simp: f64_neg_def f64_key_def f64_val_def f64_finite_def f64_is_nan_def f64_is_inf_def)

lemma powi_rebase: "e \<le> ex \<Longrightarrow> (2::real) powi ex = 2 ^ nat (ex - e) * 2 powi e"
  using power_int_add [of "2::real" "ex - e" e] by (simp add: power_int_def [of 2 "ex - e"])

lemma f64_add_props:
  assumes "f64_finite x" "f64_finite y"
  shows "f64_key (f64_add x y) = rnd_key (f64_val x + f64_val y)"
    and "\<not> f64_is_nan (f64_add x y)"
proof -
  let ?ex = "f64_exp (f64_mag x)" and ?ey = "f64_exp (f64_mag y)"
  let ?e = "min ?ex ?ey"
  let ?m = "f64_ssig x * 2 ^ nat (?ex - ?e) + f64_ssig y * 2 ^ nat (?ey - ?e)"
  have eq: "f64_add x y = f64_of_scaled (f64_sign x \<and> f64_sign y) ?m ?e"
    using assms by (simp add: f64_add_def Let_def)
  have "f64_val x = of_int (f64_ssig x) * 2 ^ nat (?ex - ?e) * 2 powi ?e"
    using powi_rebase [of ?e ?ex] by (simp add: f64_val_ssig)
  moreover have "f64_val y = of_int (f64_ssig y) * 2 ^ nat (?ey - ?e) * 2 powi ?e"
    using powi_rebase [of ?e ?ey] by (simp add: f64_val_ssig)
  ultimately have "of_int ?m * 2 powi ?e = f64_val x + f64_val y"
    by (simp add: algebra_simps)
  then show "f64_key (f64_add x y) = rnd_key (f64_val x + f64_val y)"
    "\<not> f64_is_nan (f64_add x y)"
    by (simp_all only: eq f64_of_scaled_props not_False_eq_True)
qed

lemma f64_sub_props:
  assumes "f64_finite x" "f64_finite y"
  shows "f64_key (f64_sub x y) = rnd_key (f64_val x - f64_val y)"
    and "\<not> f64_is_nan (f64_sub x y)"
  using f64_add_props [OF assms(1), of "f64_neg y"] assms(2) by (simp_all add: f64_sub_def)

lemma f64_mul_props:
  assumes "f64_finite x" "f64_finite y"
  shows "f64_key (f64_mul x y) = rnd_key (f64_val x * f64_val y)"
    and "\<not> f64_is_nan (f64_mul x y)"
proof -
  let ?m = "f64_ssig x * f64_ssig y" and ?e = "f64_exp (f64_mag x) + f64_exp (f64_mag y)"
  have eq: "f64_mul x y = f64_of_scaled (f64_sign x \<noteq> f64_sign y) ?m ?e"
    using assms by (simp add: f64_mul_def Let_def)
  have "of_int ?m * 2 powi ?e = f64_val x * f64_val y"
    by (simp add: f64_val_ssig power_int_add)
  then show "f64_key (f64_mul x y) = rnd_key (f64_val x * f64_val y)"
    "\<not> f64_is_nan (f64_mul x y)"
    by (simp_all only: eq f64_of_scaled_props not_False_eq_True)
qed

lemma f64_val_eq_0_iff: "f64_val x = 0 \<longleftrightarrow> f64_mag x = 0"
  using f64_magval_pos_iff [OF f64_mag_bounds(1), of x] f64_mag_bounds(1) [of x]
    f64_magval_nonneg [OF f64_mag_bounds(1), of x]
  by (auto simp: f64_val_def less_le)

lemma f64_ssig_eq_0_iff: "f64_ssig x = 0 \<longleftrightarrow> f64_mag x = 0"
  using f64_val_eq_0_iff [of x] by (simp add: f64_val_ssig)

lemma f64_div_props:
  assumes "f64_finite x" "f64_finite y" "f64_val y \<noteq> 0"
  shows "f64_key (f64_div x y) = rnd_key (f64_val x / f64_val y)"
    and "\<not> f64_is_nan (f64_div x y)"
proof -
  let ?e = "f64_exp (f64_mag x) - f64_exp (f64_mag y)"
  let ?a = "f64_ssig x * sgn (f64_ssig y) * 2 ^ nat ?e"
  let ?b = "\<bar>f64_ssig y\<bar> * 2 ^ nat (- ?e)"
  have ny: "f64_mag y \<noteq> 0" "f64_ssig y \<noteq> 0"
    using assms(3) by (simp_all add: f64_val_eq_0_iff f64_ssig_eq_0_iff)
  have eq: "f64_div x y = f64_of_ratio (f64_sign x \<noteq> f64_sign y) ?a ?b"
    using assms ny by (simp add: f64_div_def Let_def)
  have b: "0 < ?b" using ny by simp
  have sy: "real_of_int (sgn (f64_ssig y)) / real_of_int \<bar>f64_ssig y\<bar> = 1 / real_of_int (f64_ssig y)"
    using ny by (simp add: sgn_if abs_if)
  have "real_of_int ?a / real_of_int ?b
      = of_int (f64_ssig x) * (real_of_int (sgn (f64_ssig y)) / real_of_int \<bar>f64_ssig y\<bar>) * 2 powi ?e"
    by (simp add: powi_int_split [of ?e])
  also have "\<dots> = f64_val x / f64_val y"
    by (simp only: sy) (simp add: f64_val_ssig power_int_diff)
  finally have v: "real_of_int ?a / real_of_int ?b = f64_val x / f64_val y" .
  show "f64_key (f64_div x y) = rnd_key (f64_val x / f64_val y)"
    using f64_of_ratio_props(1) [OF b, of "f64_sign x \<noteq> f64_sign y" ?a]
    by (simp only: eq v)
  show "\<not> f64_is_nan (f64_div x y)"
    using f64_of_ratio_props(2) [OF b, of "f64_sign x \<noteq> f64_sign y" ?a] by (simp only: eq not_False_eq_True)
qed

lemma f64_of_int_props:
  "f64_key (f64_of_int i) = rnd_key (of_int i)" "\<not> f64_is_nan (f64_of_int i)"
  using f64_of_ratio_props [of 1 False i] by (simp_all add: f64_of_int_def)

lemma f64_const_props:
  "0 < b \<Longrightarrow> f64_key (f64_const a b) = rnd_key (of_int a / of_int b)"
  "0 < b \<Longrightarrow> \<not> f64_is_nan (f64_const a b)"
  using f64_of_ratio_props [of b False a] by (simp_all add: f64_const_def)

lemma f64_zero_props [simp]: "f64_key f64_zero = 0" "f64_val f64_zero = 0" "f64_finite f64_zero"
  by (simp_all add: f64_zero_def f64_key_def f64_val_def f64_sign_def f64_mag_def f64_finite_def)

text \<open>Representable bounds survive rounding.\<close>

lemma rnd_key_le: "f64_finite c \<Longrightarrow> v \<le> f64_val c \<Longrightarrow> rnd_key v \<le> f64_key c"
  using rnd_key_mono rnd_key_val by metis

lemma rnd_key_ge: "f64_finite c \<Longrightarrow> f64_val c \<le> v \<Longrightarrow> f64_key c \<le> rnd_key v"
  using rnd_key_mono rnd_key_val by metis

lemma f64_finite_between:
  "f64_finite a \<Longrightarrow> f64_finite b \<Longrightarrow> f64_key a \<le> f64_key x \<Longrightarrow> f64_key x \<le> f64_key b \<Longrightarrow> f64_finite x"
  by (simp add: f64_finite_key)

text \<open>Numbers with at most 53 significant bits are exact.\<close>

lemma magval_rnd_exact:
  assumes "2 ^ 52 \<le> m" "m < 2 ^ 53" "- 1074 \<le> q" "q \<le> 971"
  defines "k \<equiv> (q + 1074) * 2 ^ 52 + m"
  shows "f64_magval k = of_int m * 2 powi q" "0 \<le> k" "k < f64_inf_mag"
proof -
  have "k = (m - 2 ^ 52) + (q + 1075) * 2 ^ 52" by (simp add: k_def)
  moreover have "(m - 2 ^ 52) div 2 ^ 52 = 0"
    using assms(1,2) by (intro div_pos_pos_trivial) auto
  moreover have "(m - 2 ^ 52) mod 2 ^ 52 = m - 2 ^ 52"
    using assms(1,2) by (intro mod_pos_pos_trivial) auto
  ultimately have d: "k div 2 ^ 52 = q + 1075" "k mod 2 ^ 52 = m - 2 ^ 52"
    by (simp_all only: div_mult_self1 mod_mult_self1) simp_all
  then show "f64_magval k = of_int m * 2 powi q"
    using assms(3) by (simp add: f64_magval_def f64_sig_def f64_exp_def)
  show "0 \<le> k" using assms by (simp add: k_def)
  have "(q + 1074) * 2 ^ 52 \<le> 2045 * 2 ^ 52" using assms(4) by (intro mult_right_mono) auto
  then show "k < f64_inf_mag" using assms(2) by (simp add: k_def f64_inf_mag_def)
qed

text \<open>A positive integer below \<open>2 ^ 53\<close> as a normalised significand and exponent.\<close>

lemma nat_normalised:
  assumes "0 < n" "n < 2 ^ 53"
  obtains m e where "0 \<le> e" "e \<le> 52" "2 ^ 52 \<le> m" "m < 2 ^ 53"
    and "real_of_int m * 2 powi (e - 52) = of_int n"
proof -
  define e where "e = flog2 n 1"
  have b: "2 powi e \<le> real_of_int n" "real_of_int n < 2 powi (e + 1)"
    using flog2_bounds [of n 1] assms(1) by (simp_all add: e_def)
  have e0: "0 \<le> e"
  proof (rule ccontr)
    assume "\<not> 0 \<le> e"
    then have "real_of_int n < 2 powi 0"
      using b(2) by (smt (verit) power_int_increasing one_le_numeral)
    with assms(1) show False by simp
  qed
  have e52: "e \<le> 52"
  proof (rule ccontr)
    assume "\<not> e \<le> 52"
    then have "2 powi 53 \<le> real_of_int n"
      using b(1) by (smt (verit) power_int_increasing one_le_numeral)
    with assms(2) show False by simp
  qed
  define m where "m = n * 2 ^ nat (52 - e)"
  have mv: "real_of_int m * 2 powi (e - 52) = of_int n"
    using e52 by (simp add: m_def powi_int_split [of "e - 52"])
  have "real_of_int (2 ^ 52) \<le> of_int m"
  proof -
    have "(2::real) ^ 52 = 2 powi e * 2 ^ nat (52 - e)"
      using e0 e52 power_int_add [of "2::real" e "52 - e"] by (simp add: power_int_def [of 2 "52 - e"])
    also have "\<dots> \<le> of_int n * 2 ^ nat (52 - e)" using b(1) by (intro mult_right_mono) auto
    finally show ?thesis by (simp add: m_def)
  qed
  then have m1: "2 ^ 52 \<le> m" by (simp only: of_int_le_iff)
  have "real_of_int m < real_of_int (2 ^ 53)"
  proof -
    have "(2::real) ^ 53 = 2 powi (e + 1) * 2 ^ nat (52 - e)"
      using e0 e52 power_int_add [of "2::real" "e + 1" "52 - e"]
      by (simp add: power_int_def [of 2 "52 - e"])
    then have "of_int n * 2 ^ nat (52 - e) < (2::real) ^ 53"
      using b(2) by (metis mult_strict_right_mono zero_less_numeral zero_less_power)
    then show ?thesis by (simp add: m_def)
  qed
  then have m2: "m < 2 ^ 53" by (simp only: of_int_less_iff)
  show ?thesis using that [OF e0 e52 m1 m2 mv] .
qed

lemma rnd_mag_nat_exact:
  assumes "0 < n" "n < 2 ^ 53"
  shows "f64_magval (rnd_mag (of_int n)) = of_int n" "rnd_mag (of_int n) < f64_inf_mag"
proof -
  obtain m e where e0: "0 \<le> e" and e52: "e \<le> 52" and m1: "2 ^ 52 \<le> m" and m2: "m < 2 ^ 53"
    and mv: "real_of_int m * 2 powi (e - 52) = of_int n"
    using nat_normalised [OF assms] .
  note ex = magval_rnd_exact [OF m1 m2, of "e - 52"]
  have "rnd_mag (f64_magval ((e - 52 + 1074) * 2 ^ 52 + m)) = (e - 52 + 1074) * 2 ^ 52 + m"
    using ex e0 e52 by (intro rnd_mag_magval) auto
  with ex e0 e52 mv show "f64_magval (rnd_mag (of_int n)) = of_int n" "rnd_mag (of_int n) < f64_inf_mag"
    by simp_all
qed

text \<open>A dyadic number with at most 53 significant bits is the value of a double.\<close>

lemma f64_dyadic:
  assumes "0 < n" "n < 2 ^ 53" "- 1000 \<le> q" "q \<le> 900"
  obtains x where "f64_finite x" "f64_val x = of_int n * 2 powi q"
proof -
  obtain m e where e0: "0 \<le> e" and e52: "e \<le> 52" and m1: "2 ^ 52 \<le> m" and m2: "m < 2 ^ 53"
    and mv: "real_of_int m * 2 powi (e - 52) = of_int n"
    using nat_normalised [OF assms(1,2)] .
  have "real_of_int m * 2 powi (e - 52 + q) = of_int n * 2 powi q"
    using mv power_int_add [of "2::real" "e - 52" q] by simp
  moreover define k where "k = (e - 52 + q + 1074) * 2 ^ 52 + m"
  ultimately have k: "f64_magval k = of_int n * 2 powi q" "0 \<le> k" "k < f64_inf_mag"
    using magval_rnd_exact [OF m1 m2, of "e - 52 + q"] assms(3,4) e0 e52 by auto
  have "k < 9223372036854775808" using k(3) inf_mag_less by linarith
  with k have "f64_finite (f64_make False k)" "f64_val (f64_make False k) = of_int n * 2 powi q"
    by (simp_all add: f64_finite_def f64_val_def)
  then show ?thesis using that by blast
qed

lemma f64_of_int_exact:
  assumes "\<bar>i\<bar> < 2 ^ 53"
  shows "f64_val (f64_of_int i) = of_int i" "f64_finite (f64_of_int i)"
proof -
  have k: "f64_key (f64_of_int i) = rnd_key (of_int i)" by (rule f64_of_int_props)
  have p: "0 < i \<Longrightarrow> f64_magval (rnd_mag (of_int i)) = of_int i \<and> rnd_mag (of_int i) < f64_inf_mag"
    and n: "i < 0 \<Longrightarrow> f64_magval (rnd_mag (- of_int i)) = - of_int i \<and> rnd_mag (- of_int i) < f64_inf_mag"
    using rnd_mag_nat_exact [of i] rnd_mag_nat_exact [of "- i"] assms by auto
  show "f64_finite (f64_of_int i)"
    using k p n by (cases "i = 0") (auto simp: f64_finite_key rnd_key_def)
  consider "i < 0" | "i = 0" | "0 < i" by linarith
  then show "f64_val (f64_of_int i) = of_int i"
    using p n by cases (simp_all add: f64_of_int_def f64_of_ratio_rnd f64_val_def)
qed

subsection \<open>Integer conversions, maximum and order\<close>

text \<open>Truncation and ceiling of a finite value.\<close>

lemma scaled_div:
  "m * 2 ^ nat e div 2 ^ nat (- e) = \<lfloor>real_of_int m * 2 powi e\<rfloor>"
proof -
  have "\<lfloor>real_of_int (m * 2 ^ nat e) / real_of_int (2 ^ nat (- e))\<rfloor> = m * 2 ^ nat e div 2 ^ nat (- e)"
    by (rule floor_divide_of_int_eq)
  then show ?thesis by (simp add: powi_int_split)
qed

lemma f64_ceil_int_eq: "f64_ceil_int x = \<lceil>f64_val x\<rceil>"
  by (simp only: f64_ceil_int_def Let_def scaled_div f64_val_ssig ceiling_def) simp

lemma f64_trunc_nonneg:
  assumes "0 \<le> f64_val x"
  shows "f64_trunc x = \<lfloor>f64_val x\<rfloor>"
proof (cases "f64_sign x")
  case True
  then have "f64_val x = 0"
    using assms f64_magval_nonneg [OF f64_mag_bounds(1), of x] by (simp add: f64_val_def)
  then have "f64_mag x = 0" by (simp add: f64_val_eq_0_iff)
  with \<open>f64_val x = 0\<close> show ?thesis by (simp add: f64_trunc_def f64_sig_def)
next
  case False
  then show ?thesis
    by (simp only: f64_trunc_def Let_def scaled_div f64_val_def f64_magval_def if_False)
qed

lemma f64_val_inject_key: "f64_key x = f64_key y \<Longrightarrow> f64_val x = f64_val y"
  using f64_val_le_iff [of x y] f64_val_le_iff [of y x] by simp

lemma f64_ceil_props:
  assumes "f64_finite x" "\<bar>f64_val x\<bar> < 2 ^ 52"
  shows "f64_finite (f64_ceil x)" "f64_val (f64_ceil x) = of_int \<lceil>f64_val x\<rceil>"
proof -
  let ?c = "\<lceil>f64_val x\<rceil>"
  have c: "\<bar>?c\<bar> < 2 ^ 53" using assms(2) by (simp add: abs_less_iff) linarith
  have k: "f64_key (f64_ceil x) = f64_key (f64_of_int ?c)"
    using assms(1) f64_of_ratio_props(1) [of 1 "f64_sign x" ?c] f64_of_int_props(1) [of ?c]
    by (simp add: f64_ceil_def f64_ceil_int_eq)
  then show "f64_finite (f64_ceil x)"
    using f64_of_int_exact(2) [OF c] by (simp add: f64_finite_key)
  show "f64_val (f64_ceil x) = of_int ?c"
    using f64_val_inject_key [OF k] f64_of_int_exact(1) [OF c] by simp
qed

lemma f64_to_int64_nonneg:
  assumes "f64_finite x" "0 \<le> f64_val x" "f64_val x < 2 ^ 63"
  shows "sint (f64_to_int64 x) = \<lfloor>f64_val x\<rfloor>"
proof -
  let ?n = "\<lfloor>f64_val x\<rfloor>"
  have n: "0 \<le> ?n" "?n < 2 ^ 63" using assms by (simp_all add: floor_less_iff)
  then have "f64_to_int64 x = word_of_int ?n"
    using assms by (simp add: f64_to_int64_def f64_trunc_nonneg)
  then show ?thesis using n by (simp add: sint_sbintrunc' signed_take_bit_int_eq_self)
qed

text \<open>Order facts: a strict weak order on the numbers, everything else incomparable.\<close>

lemma f64_lt_irrefl [simp]: "\<not> f64_lt x x"
  by (simp add: f64_lt_def)

lemma f64_lt_trans: "f64_lt x y \<Longrightarrow> f64_lt y z \<Longrightarrow> f64_lt x z"
  by (simp add: f64_lt_def)

lemma f64_lt_finite: "f64_finite x \<Longrightarrow> f64_finite y \<Longrightarrow> f64_lt x y \<longleftrightarrow> f64_val x < f64_val y"
  by (simp add: f64_lt_def f64_val_less_iff)

lemma f64_le_finite: "f64_finite x \<Longrightarrow> f64_finite y \<Longrightarrow> f64_le x y \<longleftrightarrow> f64_val x \<le> f64_val y"
  by (simp add: f64_le_def f64_val_le_iff)

lemma f64_not_lt: "\<not> f64_is_nan x \<Longrightarrow> \<not> f64_is_nan y \<Longrightarrow> \<not> f64_lt x y \<longleftrightarrow> f64_le y x"
  by (auto simp: f64_lt_def f64_le_def)

lemma f64_max_props:
  assumes "f64_finite x" "f64_finite y"
  shows "f64_key (f64_max x y) = max (f64_key x) (f64_key y)" "f64_finite (f64_max x y)"
proof -
  have "f64_is_inf (f64_inf False)" by (simp add: f64_is_inf_def f64_inf_def)
  then have ni: "x \<noteq> f64_inf False" "y \<noteq> f64_inf False"
    using assms f64_finite_simps(2) by metis+
  show "f64_key (f64_max x y) = max (f64_key x) (f64_key y)" "f64_finite (f64_max x y)"
    using assms ni by (auto simp: f64_max_def f64_lt_def f64_key_def)
qed

end
