(* ===== verification/Messages.thy ===== *)
theory Messages
  imports Prelude Float64
begin

section \<open>The messages of the platform\<close>

text \<open>
  The enums and message structs of \<open>gen/go/inference/v1/inference.go\<close> and
  \<open>gen/go/execution/v1/execution.go\<close>. An enum is an \<open>int32\<close> in Go and any value of that
  type can arrive over the wire, so it stays a 32-bit word with named constants. A field
  name carries the message's prefix: \<open>ir_\<close> for \<open>InferenceRequest\<close>, \<open>rs_\<close> for
  \<open>InferenceResponse\<close>, \<open>sc_\<close> for \<open>StreamChunk\<close>, \<open>er_\<close> for \<open>ExecuteRequest\<close>, \<open>ex_\<close> for
  \<open>ExecuteResponse\<close>. A Go map that may be nil is an option of a map.
\<close>

subsection \<open>Enums\<close>

type_synonym task_type = int32
type_synonym model_tier = int32
type_synonym priority = int32

definition TaskUnspecified :: task_type where [simp]: "TaskUnspecified = 0"
definition TaskChat :: task_type where [simp]: "TaskChat = 1"
definition TaskSummarize :: task_type where [simp]: "TaskSummarize = 2"
definition TaskEmbed :: task_type where [simp]: "TaskEmbed = 3"
definition TaskRerank :: task_type where [simp]: "TaskRerank = 4"
definition TaskClassify :: task_type where [simp]: "TaskClassify = 5"
definition TaskModerate :: task_type where [simp]: "TaskModerate = 6"

definition task_string :: "task_type \<Rightarrow> string" where
  "task_string t =
     (if t = TaskChat then ''chat''
      else if t = TaskSummarize then ''summarize''
      else if t = TaskEmbed then ''embed''
      else if t = TaskRerank then ''rerank''
      else if t = TaskClassify then ''classify''
      else if t = TaskModerate then ''moderate''
      else ''unspecified'')"

definition TierUnspecified :: model_tier where [simp]: "TierUnspecified = 0"
definition TierSmall :: model_tier where [simp]: "TierSmall = 1"
definition TierMedium :: model_tier where [simp]: "TierMedium = 2"
definition TierLarge :: model_tier where [simp]: "TierLarge = 3"

definition tier_string :: "model_tier \<Rightarrow> string" where
  "tier_string m =
     (if m = TierSmall then ''small''
      else if m = TierMedium then ''medium''
      else if m = TierLarge then ''large''
      else ''unspecified'')"

definition PriorityLow :: priority where [simp]: "PriorityLow = 0"
definition PriorityNormal :: priority where [simp]: "PriorityNormal = 1"
definition PriorityHigh :: priority where [simp]: "PriorityHigh = 2"
definition PriorityCritical :: priority where [simp]: "PriorityCritical = 3"

subsection \<open>Structs\<close>

record chat_message =
  cm_role :: string
  cm_content :: string

record inference_request =
  ir_request_id :: string
  ir_idempotency_key :: string
  ir_task_type :: task_type
  ir_prompt :: string
  ir_messages :: "chat_message list"
  ir_documents :: "string list"
  ir_query :: string
  ir_max_tokens :: int32
  ir_stream :: bool
  ir_priority :: priority
  ir_cost_budget :: string
  ir_latency_target_ms :: int32
  ir_tenant_id :: string
  ir_api_key_id :: string
  ir_metadata :: "(string \<rightharpoonup> string) option"
  ir_deadline_unix_ms :: int64
  ir_received_at_ms :: int64

record inference_response =
  rs_request_id :: string
  rs_trace_id :: string
  rs_task_type :: task_type
  rs_model_id :: string
  rs_model_version :: string
  rs_model_tier :: model_tier
  rs_content :: string
  rs_embedding :: "f64 list"
  rs_scores :: "f64 list"
  rs_tokens_input :: int32
  rs_tokens_output :: int32
  rs_latency_ms :: f64
  rs_queue_wait_ms :: f64
  rs_cached :: bool
  rs_fallback_used :: bool
  rs_is_canary :: bool
  rs_cost_usd :: f64
  rs_executor_id :: string

record stream_chunk =
  sc_request_id :: string
  sc_trace_id :: string
  sc_token :: string
  sc_done :: bool
  sc_tokens_out :: int32
  sc_latency_ms :: f64

record execute_request =
  er_request_id :: string
  er_model_id :: string
  er_model_version :: string
  er_task_type :: task_type
  er_prompt :: string
  er_messages :: "chat_message list"
  er_documents :: "string list"
  er_query :: string
  er_max_tokens :: int32
  er_deadline_ms :: int64

record execute_response =
  ex_request_id :: string
  ex_model_id :: string
  ex_content :: string
  ex_embedding :: "f64 list"
  ex_scores :: "f64 list"
  ex_tokens_input :: int32
  ex_tokens_output :: int32
  ex_latency_ms :: f64

text \<open>The zero values of the structs: what \<open>&T{}\<close> and an unnamed field give.\<close>

definition zero_request :: inference_request where
  "zero_request = \<lparr>ir_request_id = [], ir_idempotency_key = [], ir_task_type = 0,
     ir_prompt = [], ir_messages = [], ir_documents = [], ir_query = [], ir_max_tokens = 0,
     ir_stream = False, ir_priority = 0, ir_cost_budget = [], ir_latency_target_ms = 0,
     ir_tenant_id = [], ir_api_key_id = [], ir_metadata = None, ir_deadline_unix_ms = 0,
     ir_received_at_ms = 0\<rparr>"

definition zero_response :: inference_response where
  "zero_response = \<lparr>rs_request_id = [], rs_trace_id = [], rs_task_type = 0,
     rs_model_id = [], rs_model_version = [], rs_model_tier = 0, rs_content = [],
     rs_embedding = [], rs_scores = [], rs_tokens_input = 0, rs_tokens_output = 0,
     rs_latency_ms = f64_zero, rs_queue_wait_ms = f64_zero, rs_cached = False,
     rs_fallback_used = False, rs_is_canary = False, rs_cost_usd = f64_zero,
     rs_executor_id = []\<rparr>"

definition zero_execute_request :: execute_request where
  "zero_execute_request = \<lparr>er_request_id = [], er_model_id = [], er_model_version = [],
     er_task_type = 0, er_prompt = [], er_messages = [], er_documents = [], er_query = [],
     er_max_tokens = 0, er_deadline_ms = 0\<rparr>"

text \<open>The six named task types are the ones that print as something else than the default.\<close>

lemma task_string_specified:
  "task_string t \<noteq> ''unspecified'' \<longleftrightarrow>
     t \<in> {TaskChat, TaskSummarize, TaskEmbed, TaskRerank, TaskClassify, TaskModerate}"
  by (auto simp: task_string_def)

lemma task_string_inj:
  assumes "task_string t = task_string u" "task_string t \<noteq> ''unspecified''"
  shows "t = u"
  using assms by (auto simp: task_string_def split: if_splits)

end
