(* ===== verification/ModelQueue.thy ===== *)
theory ModelQueue
  imports Messages
begin

section \<open>The scheduler's priority queues\<close>

text \<open>
  \<open>services/scheduler/internal/queue/queue.go\<close>: a queue per model with three priority
  lanes and load shedding, and the registry of the queues. Every method holds the queue's
  mutex while it works on the lanes, so an operation is one function of the state; \<open>ResultCh\<close>, a
  channel of capacity one, is a name; the counters, which \<open>Enqueue\<close> adds to after it has
  released the mutex, are modelled as updated with it. The depth limit is an \<open>int\<close> that is never negative
  in a program that constructs queues by \<open>NewRegistry\<close>; the model keeps it an integer.
\<close>

subsection \<open>Items and queues\<close>

record item =
  it_req :: inference_request
  it_executor_addr :: string
  it_enqueued_at :: time
  it_result_ch :: nat

record model_queue =
  mq_high :: "item list"
  mq_normal :: "item list"
  mq_low :: "item list"
  mq_max_depth :: int
  mq_enqueued :: int64
  mq_dropped :: int64
  mq_dispatched :: int64

definition new_model_queue :: "int \<Rightarrow> model_queue" where
  "new_model_queue maxDepth =
     \<lparr>mq_high = [], mq_normal = [], mq_low = [], mq_max_depth = maxDepth,
      mq_enqueued = 0, mq_dropped = 0, mq_dispatched = 0\<rparr>"

definition depth :: "model_queue \<Rightarrow> nat" where
  "depth q = length (mq_high q) + length (mq_normal q) + length (mq_low q)"

definition enqueue :: "model_queue \<Rightarrow> item \<Rightarrow> model_queue \<times> bool" where
  "enqueue q item =
     (let total = length (mq_high q) + length (mq_normal q) + length (mq_low q)
      in if mq_max_depth q \<le> int total
         then (q\<lparr>mq_dropped := mq_dropped q + 1\<rparr>, False)
         else let p = ir_priority (it_req item);
                  q = (if p = PriorityCritical \<or> p = PriorityHigh
                       then q\<lparr>mq_high := mq_high q @ [item]\<rparr>
                       else if p = PriorityNormal
                       then q\<lparr>mq_normal := mq_normal q @ [item]\<rparr>
                       else q\<lparr>mq_low := mq_low q @ [item]\<rparr>)
              in (q\<lparr>mq_enqueued := mq_enqueued q + 1\<rparr>, True))"

text \<open>
  \<open>Drain\<close>'s loop: \<open>out\<close> is the result so far; a nonpositive \<open>n\<close> takes nothing.
\<close>

function drain_loop :: "int \<Rightarrow> item list \<Rightarrow> model_queue \<Rightarrow> item list \<times> model_queue" where
  "drain_loop n out q =
     (if int (length out) < n then
        (case mq_high q of
           i # rest \<Rightarrow> drain_loop n (out @ [i]) (q\<lparr>mq_high := rest\<rparr>)
         | [] \<Rightarrow>
             (case mq_normal q of
                i # rest \<Rightarrow> drain_loop n (out @ [i]) (q\<lparr>mq_normal := rest\<rparr>)
              | [] \<Rightarrow>
                  (case mq_low q of
                     i # rest \<Rightarrow> drain_loop n (out @ [i]) (q\<lparr>mq_low := rest\<rparr>)
                   | [] \<Rightarrow> (out, q))))
      else (out, q))"
  by pat_completeness auto
termination
  by (relation "measure (\<lambda>(n, out, q). depth q)") (auto simp: depth_def)

declare drain_loop.simps [simp del]

definition drain :: "model_queue \<Rightarrow> int \<Rightarrow> item list \<times> model_queue" where
  "drain q n =
     (let (out, q) = drain_loop n [] q
      in (out, q\<lparr>mq_dispatched := mq_dispatched q + of_nat (length out)\<rparr>))"

definition depth_by_lane :: "model_queue \<Rightarrow> nat \<times> nat \<times> nat" where
  "depth_by_lane q = (length (mq_high q), length (mq_normal q), length (mq_low q))"

record queue_stats =
  qs_depth_high :: nat
  qs_depth_normal :: nat
  qs_depth_low :: nat
  qs_enqueued :: int64
  qs_dropped :: int64
  qs_dispatched :: int64

definition stats :: "model_queue \<Rightarrow> queue_stats" where
  "stats q =
     (let (h, n, l) = depth_by_lane q
      in \<lparr>qs_depth_high = h, qs_depth_normal = n, qs_depth_low = l,
          qs_enqueued = mq_enqueued q, qs_dropped = mq_dropped q,
          qs_dispatched = mq_dispatched q\<rparr>)"

definition total_depth :: "queue_stats \<Rightarrow> nat" where
  "total_depth s = qs_depth_high s + qs_depth_normal s + qs_depth_low s"

subsection \<open>The registry of queues\<close>

record registry =
  rg_queues :: "string \<rightharpoonup> model_queue"
  rg_max_depth :: int

definition new_registry :: "int \<Rightarrow> registry" where
  "new_registry maxDepth = \<lparr>rg_queues = Map.empty, rg_max_depth = maxDepth\<rparr>"

definition registry_queue :: "registry \<Rightarrow> string \<Rightarrow> registry \<times> model_queue" where
  "registry_queue r modelID =
     (case rg_queues r modelID of
        Some q \<Rightarrow> (r, q)
      | None \<Rightarrow>
          let q = new_model_queue (rg_max_depth r)
          in (r\<lparr>rg_queues := (rg_queues r)(modelID \<mapsto> q)\<rparr>, q))"

text \<open>The code hands out a pointer; a change through it is a change of the registry's entry.\<close>

definition registry_set :: "registry \<Rightarrow> string \<Rightarrow> model_queue \<Rightarrow> registry" where
  "registry_set r modelID q = r\<lparr>rg_queues := (rg_queues r)(modelID \<mapsto> q)\<rparr>"

definition all_depths :: "registry \<Rightarrow> string \<rightharpoonup> nat" where
  "all_depths r = (\<lambda>id. map_option depth (rg_queues r id))"

definition all_stats :: "registry \<Rightarrow> string \<rightharpoonup> queue_stats" where
  "all_stats r = (\<lambda>id. map_option stats (rg_queues r id))"

definition queue_depth :: "registry \<Rightarrow> string \<Rightarrow> nat" where
  "queue_depth r modelID = (case rg_queues r modelID of None \<Rightarrow> 0 | Some q \<Rightarrow> depth q)"

subsection \<open>The abstract queue\<close>

text \<open>
  The order in which the items would leave: what a drain of everything returns. A drain
  takes a prefix of it, an enqueue inserts before the lower lanes.
\<close>

definition service_order :: "model_queue \<Rightarrow> item list" where
  "service_order q = mq_high q @ mq_normal q @ mq_low q"

text \<open>The lane an item goes to: 0 for the one served first.\<close>

definition lane :: "item \<Rightarrow> nat" where
  "lane i =
     (let p = ir_priority (it_req i)
      in if p = PriorityCritical \<or> p = PriorityHigh then 0
         else if p = PriorityNormal then 1 else 2)"

text \<open>
  The invariant of a queue: every item is in the lane of its priority, the depth limit
  holds, and the three counters account for every item that entered.
\<close>

definition queue_inv :: "model_queue \<Rightarrow> bool" where
  "queue_inv q \<longleftrightarrow>
     (\<forall>i \<in> set (mq_high q). lane i = 0) \<and> (\<forall>i \<in> set (mq_normal q). lane i = 1)
     \<and> (\<forall>i \<in> set (mq_low q). lane i = 2)
     \<and> int (depth q) \<le> max 0 (mq_max_depth q)
     \<and> mq_enqueued q = mq_dispatched q + of_nat (depth q)"

subsection \<open>Lemmas\<close>

lemma length_service_order [simp]: "length (service_order q) = depth q"
  by (simp add: service_order_def depth_def)

lemma new_model_queue_inv [invariants]: "queue_inv (new_model_queue n)"
  by (simp add: queue_inv_def new_model_queue_def depth_def)

lemma service_order_new [simp]: "service_order (new_model_queue n) = []"
  by (simp add: service_order_def new_model_queue_def)

lemma depth_new [simp]: "depth (new_model_queue n) = 0"
  by (simp add: depth_def new_model_queue_def)

lemma enqueue_accepts: "snd (enqueue q i) \<longleftrightarrow> int (depth q) < mq_max_depth q"
  by (simp add: enqueue_def depth_def Let_def not_le)

lemma enqueue_rejected:
  "\<not> snd (enqueue q i) \<Longrightarrow> fst (enqueue q i) = q\<lparr>mq_dropped := mq_dropped q + 1\<rparr>"
  by (simp add: enqueue_def Let_def split: if_splits)

lemma enqueue_max_depth [frame, simp]: "mq_max_depth (fst (enqueue q i)) = mq_max_depth q"
  by (simp add: enqueue_def Let_def)

lemma enqueue_depth [counts]:
  "depth (fst (enqueue q i)) = (if snd (enqueue q i) then Suc (depth q) else depth q)"
  by (simp add: enqueue_def depth_def Let_def)

lemma enqueue_counts [counts]:
  "mq_enqueued (fst (enqueue q i)) = mq_enqueued q + (if snd (enqueue q i) then 1 else 0)"
  "mq_dropped (fst (enqueue q i)) = mq_dropped q + (if snd (enqueue q i) then 0 else 1)"
  "mq_dispatched (fst (enqueue q i)) = mq_dispatched q"
  by (simp_all add: enqueue_def Let_def)

lemma enqueue_lanes:
  assumes "snd (enqueue q i)"
  shows "mq_high (fst (enqueue q i)) = mq_high q @ (if lane i = 0 then [i] else [])"
    and "mq_normal (fst (enqueue q i)) = mq_normal q @ (if lane i = 1 then [i] else [])"
    and "mq_low (fst (enqueue q i)) = mq_low q @ (if lane i = 2 then [i] else [])"
  using assms by (simp_all add: enqueue_def lane_def Let_def split: if_splits)

lemma enqueue_mset:
  "mset (service_order (fst (enqueue q i)))
    = mset (service_order q) + (if snd (enqueue q i) then {#i#} else {#})"
  by (simp add: enqueue_def service_order_def Let_def)

lemma enqueue_inv [invariants]:
  assumes "queue_inv q"
  shows "queue_inv (fst (enqueue q i))"
proof (cases "snd (enqueue q i)")
  case True
  then have d: "int (depth q) < mq_max_depth q" by (simp add: enqueue_accepts)
  let ?q = "fst (enqueue q i)"
  note q = assms [unfolded queue_inv_def]
  have "\<forall>j \<in> set (mq_high ?q). lane j = 0" "\<forall>j \<in> set (mq_normal ?q). lane j = 1"
    "\<forall>j \<in> set (mq_low ?q). lane j = 2"
    using q by (auto simp: enqueue_lanes [OF True] split: if_splits)
  moreover have "int (depth ?q) \<le> max 0 (mq_max_depth ?q)"
    using d by (simp add: enqueue_depth True)
  moreover have "mq_enqueued ?q = mq_dispatched ?q + of_nat (depth ?q)"
    using q True by (simp only: enqueue_depth enqueue_counts if_True of_nat_Suc ac_simps)
  ultimately show ?thesis by (simp only: queue_inv_def simp_thms)
next
  case False
  then show ?thesis
    using assms by (simp add: enqueue_rejected queue_inv_def depth_def)
qed

text \<open>\<open>Drain\<close> takes a prefix of the service order.\<close>

lemma drain_loop_spec:
  "drain_loop n out q =
     (let k = nat (n - int (length out))
      in (out @ take k (service_order q),
          q\<lparr>mq_high := drop k (mq_high q),
            mq_normal := drop (k - length (mq_high q)) (mq_normal q),
            mq_low := drop (k - length (mq_high q) - length (mq_normal q)) (mq_low q)\<rparr>))"
proof (induction n out q rule: drain_loop.induct)
  case (1 n out q)
  show ?case
  proof (cases "int (length out) < n")
    case False
    then show ?thesis by (simp add: drain_loop.simps [of n out q])
  next
    case True
    then obtain k where k: "nat (n - int (length out)) = Suc k"
      by (metis Suc_pred' diff_gt_0_iff_gt zero_less_nat_eq)
    then have k': "nat (n - (1 + int (length out))) = k" by linarith
    show ?thesis
      using True 1 k k'
      by (cases "mq_high q"; cases "mq_normal q"; cases "mq_low q")
        (simp_all add: drain_loop.simps [of n out q] service_order_def Let_def)
  qed
qed

lemma drain_out: "fst (drain q n) = take (nat n) (service_order q)"
  by (simp add: drain_def drain_loop_spec Let_def)

lemma drain_rest: "service_order (snd (drain q n)) = drop (nat n) (service_order q)"
  by (simp add: drain_def drain_loop_spec Let_def service_order_def)

lemma drain_max_depth [frame, simp]: "mq_max_depth (snd (drain q n)) = mq_max_depth q"
  by (simp add: drain_def drain_loop_spec Let_def)

lemma drain_depth [counts]: "depth (snd (drain q n)) = depth q - nat n"
  using arg_cong [OF drain_rest [of q n], of length] by simp

lemma drain_counts [counts]:
  "mq_enqueued (snd (drain q n)) = mq_enqueued q"
  "mq_dropped (snd (drain q n)) = mq_dropped q"
  "mq_dispatched (snd (drain q n)) = mq_dispatched q + of_nat (length (fst (drain q n)))"
  by (simp_all add: drain_def drain_loop_spec Let_def)

lemma drain_lanes:
  "mq_high (snd (drain q n)) = drop (nat n) (mq_high q)"
  "mq_normal (snd (drain q n)) = drop (nat n - length (mq_high q)) (mq_normal q)"
  "mq_low (snd (drain q n)) = drop (nat n - length (mq_high q) - length (mq_normal q)) (mq_low q)"
  by (simp_all add: drain_def drain_loop_spec Let_def)

lemma drain_inv [invariants]:
  assumes "queue_inv q"
  shows "queue_inv (snd (drain q n))"
proof -
  have "length (fst (drain q n)) + depth (snd (drain q n)) = depth q"
    by (simp add: drain_out drain_depth)
  then have "(of_nat (depth q) :: int64)
      = of_nat (length (fst (drain q n))) + of_nat (depth (snd (drain q n)))"
    by (metis of_nat_add)
  then show ?thesis
    using assms
    by (auto simp: queue_inv_def drain_lanes drain_counts drain_depth algebra_simps dest!: in_set_dropD)
qed

subsection \<open>The interface of the batcher\<close>

text \<open>
  What the batcher relies on: a drain takes up to \<open>n\<close> items from the front of what is
  pending. Under that contract repeated drains deliver every pending item once, in order.
\<close>

fun drains :: "('q \<Rightarrow> int \<Rightarrow> 'i list \<times> 'q) \<Rightarrow> int \<Rightarrow> nat \<Rightarrow> 'q \<Rightarrow> 'i list list \<times> 'q" where
  "drains dr n 0 q = ([], q)"
| "drains dr n (Suc k) q =
     (let (out, q) = dr q n; (outs, q) = drains dr n k q in (out # outs, q))"

locale batch_source =
  fixes dr :: "'q \<Rightarrow> int \<Rightarrow> 'i list \<times> 'q" and pending :: "'q \<Rightarrow> 'i list"
  assumes dr_out: "fst (dr q n) = take (nat n) (pending q)"
    and dr_rest: "pending (snd (dr q n)) = drop (nat n) (pending q)"
begin

lemma batch_bound: "length (fst (dr q n)) \<le> nat n"
  by (simp add: dr_out)

lemma batch_split: "fst (dr q n) @ pending (snd (dr q n)) = pending q"
  by (simp add: dr_out dr_rest)

lemma batch_empty_iff: "0 < n \<Longrightarrow> fst (dr q n) = [] \<longleftrightarrow> pending q = []"
  by (simp add: dr_out take_eq_Nil)

lemma drains_split: "concat (fst (drains dr n k q)) @ pending (snd (drains dr n k q)) = pending q"
proof (induction k arbitrary: q)
  case 0
  then show ?case by simp
next
  case (Suc k)
  show ?case using Suc.IH [of "snd (dr q n)"] batch_split [of q n]
    by (simp add: case_prod_unfold Let_def)
qed

lemma drains_rest: "pending (snd (drains dr n k q)) = drop (k * nat n) (pending q)"
  by (induction k arbitrary: q) (simp_all add: case_prod_unfold Let_def dr_rest add.commute)

lemma drains_all:
  assumes "length (pending q) \<le> k * nat n"
  shows "concat (fst (drains dr n k q)) = pending q" "pending (snd (drains dr n k q)) = []"
  using assms drains_split [of n k q] by (simp_all add: drains_rest)

end

interpretation mq: batch_source drain service_order
  by unfold_locales (simp_all add: drain_out drain_rest)

lemma registry_queue_found: "rg_queues r k = Some q \<Longrightarrow> registry_queue r k = (r, q)"
  by (simp add: registry_queue_def)

interpretation queues: lazy_registry rg_queues registry_queue "\<lambda>r k. new_model_queue (rg_max_depth r)"
  by unfold_locales (auto simp: registry_queue_def Let_def split: option.splits)

subsection \<open>Properties\<close>

lemma queue_inv_service_lanes:
  assumes "queue_inv q"
  shows "sorted (map lane (service_order q))"
proof -
  have "map lane (mq_high q) = replicate (length (mq_high q)) 0"
    "map lane (mq_normal q) = replicate (length (mq_normal q)) 1"
    "map lane (mq_low q) = replicate (length (mq_low q)) 2"
    using assms by (auto simp: queue_inv_def map_replicate_const intro!: nth_equalityI)
  then show ?thesis by (simp add: service_order_def sorted_append)
qed

text \<open>A drain returns the next \<open>min n depth\<close> items of the service order and leaves the
  rest in place, so it never returns an item while one of a more urgent lane waits, and
  keeps arrival order within a lane.\<close>

theorem drain_priority_fifo:
  assumes "queue_inv q" and "drain q n = (out, q')"
  shows "out @ service_order q' = service_order q \<and> length out = min (nat n) (depth q)
    \<and> (\<forall>i \<in> set out. \<forall>j \<in> set (service_order q'). lane i \<le> lane j) \<and> queue_inv q'"
proof -
  have o: "out = fst (drain q n)" "q' = snd (drain q n)" using assms(2) by simp_all
  have split: "out @ service_order q' = service_order q" by (simp add: o mq.batch_split)
  have "sorted (map lane (out @ service_order q'))"
    using queue_inv_service_lanes [OF assms(1)] by (simp add: split)
  then have "\<forall>i \<in> set out. \<forall>j \<in> set (service_order q'). lane i \<le> lane j"
    by (simp add: sorted_append)
  then show ?thesis using split assms(1) by (simp add: o drain_out drain_inv min.commute)
qed

definition demo_item :: "priority \<Rightarrow> nat \<Rightarrow> item" where
  "demo_item p c = \<lparr>it_req = zero_request\<lparr>ir_priority := p\<rparr>, it_executor_addr = ''m'',
     it_enqueued_at = 0, it_result_ch = c\<rparr>"

definition demo_queue :: model_queue where
  "demo_queue = fold (\<lambda>i q. fst (enqueue q i))
     [demo_item PriorityLow 1, demo_item PriorityNormal 2, demo_item PriorityCritical 3]
     (new_model_queue 3)"

lemma demo_queue_inv: "queue_inv demo_queue"
  by (simp only: demo_queue_def fold_simps comp_def id_def enqueue_inv new_model_queue_inv)

theorem drain_priority_fifo_witness:
  "queue_inv demo_queue \<and> fst (drain demo_queue 2) = [demo_item PriorityCritical 3, demo_item PriorityNormal 2]
    \<and> length (fst (drain demo_queue 2)) = min (nat 2) (depth demo_queue)"
proof -
  have "fst (drain demo_queue 2) = [demo_item PriorityCritical 3, demo_item PriorityNormal 2]"
    by (simp add: drain_out demo_queue_def service_order_def enqueue_def new_model_queue_def
        demo_item_def zero_request_def Let_def)
  moreover have "drain demo_queue 2 = (fst (drain demo_queue 2), snd (drain demo_queue 2))" by simp
  ultimately show ?thesis
    using drain_priority_fifo [OF demo_queue_inv, of 2 "fst (drain demo_queue 2)" "snd (drain demo_queue 2)"]
      demo_queue_inv by simp
qed

text \<open>
  A run of a queue: a list of operations, and the items it accepted, rejected and
  handed out, in order.
\<close>

datatype queue_op = Enq item | Drn int

fun queue_run ::
  "model_queue \<Rightarrow> queue_op list \<Rightarrow> item list \<times> item list \<times> item list \<times> model_queue" where
  "queue_run q [] = ([], [], [], q)"
| "queue_run q (Enq i # ops) =
     (let (q', ok) = enqueue q i; (acc, rej, out, q'') = queue_run q' ops
      in (if ok then i # acc else acc, if ok then rej else i # rej, out, q''))"
| "queue_run q (Drn n # ops) =
     (let (o1, q') = drain q n; (acc, rej, out, q'') = queue_run q' ops
      in (acc, rej, o1 @ out, q''))"

lemma queue_run_EnqE:
  assumes "queue_run q (Enq i # ops) = (acc, rej, out, q')"
  obtains acc' rej' where "queue_run (fst (enqueue q i)) ops = (acc', rej', out, q')"
    and "acc = (if snd (enqueue q i) then i # acc' else acc')"
    and "rej = (if snd (enqueue q i) then rej' else i # rej')"
proof -
  obtain acc' rej' out' q'' where r: "queue_run (fst (enqueue q i)) ops = (acc', rej', out', q'')"
    by (metis prod_cases4)
  with assms show ?thesis
    by (intro that [of acc' rej']) (auto simp: case_prod_unfold Let_def)
qed

lemma queue_run_DrnE:
  assumes "queue_run q (Drn n # ops) = (acc, rej, out, q')"
  obtains out' where "queue_run (snd (drain q n)) ops = (acc, rej, out', q')"
    and "out = fst (drain q n) @ out'"
proof -
  obtain acc' rej' out' q'' where r: "queue_run (snd (drain q n)) ops = (acc', rej', out', q'')"
    by (metis prod_cases4)
  with assms show ?thesis
    by (intro that [of out']) (auto simp: case_prod_unfold Let_def)
qed

lemma lane_cases: "lane i = 0 \<or> lane i = 1 \<or> lane i = 2"
  by (simp add: lane_def Let_def)

lemma lane_filter_enqueue:
  assumes "queue_inv q" "snd (enqueue q i)"
  shows "filter (\<lambda>j. lane j = l) (service_order (fst (enqueue q i)))
    = filter (\<lambda>j. lane j = l) (service_order q @ [i])"
proof -
  have "filter (\<lambda>j. lane j = l) (mq_normal q) = (if l = 1 then mq_normal q else [])"
    "filter (\<lambda>j. lane j = l) (mq_low q) = (if l = 2 then mq_low q else [])"
    using assms(1) by (auto simp: queue_inv_def filter_id_conv filter_empty_conv)
  then show ?thesis
    using lane_cases [of i] by (auto simp: service_order_def enqueue_lanes [OF assms(2)])
qed

lemma queue_run_lanes:
  assumes "queue_inv q" "queue_run q ops = (acc, rej, out, q')"
  shows "queue_inv q' \<and> mq_max_depth q' = mq_max_depth q \<and>
    filter (\<lambda>i. lane i = l) (out @ service_order q') =
      filter (\<lambda>i. lane i = l) (service_order q @ acc)"
  using assms
proof (induction ops arbitrary: q acc rej out)
  case Nil
  then show ?case by simp
next
  case (Cons op ops)
  show ?case
  proof (cases op)
    case (Enq i)
    obtain acc' rej' where r: "queue_run (fst (enqueue q i)) ops = (acc', rej', out, q')"
      and e: "acc = (if snd (enqueue q i) then i # acc' else acc')"
      using Cons.prems(2) unfolding Enq by (rule queue_run_EnqE)
    note IH = Cons.IH [OF enqueue_inv [OF Cons.prems(1)] r]
    show ?thesis
    proof (cases "snd (enqueue q i)")
      case True
      then show ?thesis using IH e lane_filter_enqueue [OF Cons.prems(1) True, of l] by auto
    next
      case False
      then show ?thesis using IH e enqueue_rejected [OF False] by (simp add: service_order_def)
    qed
  next
    case (Drn n)
    obtain out' where r: "queue_run (snd (drain q n)) ops = (acc, rej, out', q')"
      and e: "out = fst (drain q n) @ out'"
      using Cons.prems(2) unfolding Drn by (rule queue_run_DrnE)
    note IH = Cons.IH [OF drain_inv [OF Cons.prems(1)] r]
    have "filter (\<lambda>i. lane i = l) (fst (drain q n)) @ filter (\<lambda>i. lane i = l) (service_order (snd (drain q n)))
        = filter (\<lambda>i. lane i = l) (service_order q)"
      using arg_cong [OF mq.batch_split [of q n], of "filter (\<lambda>i. lane i = l)"] by simp
    then have "filter (\<lambda>i. lane i = l) (fst (drain q n)) @ filter (\<lambda>i. lane i = l) (service_order (snd (drain q n))) @ xs
        = filter (\<lambda>i. lane i = l) (service_order q) @ xs" for xs
      by (metis append_assoc)
    then show ?thesis using IH e by simp
  qed
qed

lemma queue_run_counts:
  assumes "queue_run q ops = (acc, rej, out, q')"
  shows "mq_enqueued q' = mq_enqueued q + of_nat (length acc)
    \<and> mq_dropped q' = mq_dropped q + of_nat (length rej)
    \<and> mq_dispatched q' = mq_dispatched q + of_nat (length out)
    \<and> length out + depth q' = depth q + length acc"
  using assms
proof (induction ops arbitrary: q acc rej out)
  case Nil
  then show ?case by simp
next
  case (Cons op ops)
  show ?case
  proof (cases op)
    case (Enq i)
    obtain acc' rej' where r: "queue_run (fst (enqueue q i)) ops = (acc', rej', out, q')"
      and e: "acc = (if snd (enqueue q i) then i # acc' else acc')"
        "rej = (if snd (enqueue q i) then rej' else i # rej')"
      using Cons.prems unfolding Enq by (rule queue_run_EnqE)
    show ?thesis using Cons.IH [OF r] e by (cases "snd (enqueue q i)") (simp_all add: counts)
  next
    case (Drn n)
    obtain out' where r: "queue_run (snd (drain q n)) ops = (acc, rej, out', q')"
      and e: "out = fst (drain q n) @ out'"
      using Cons.prems unfolding Drn by (rule queue_run_DrnE)
    show ?thesis using Cons.IH [OF r] e by (auto simp: counts drain_out)
  qed
qed

definition demo_rest :: model_queue where
  "demo_rest = \<lparr>mq_high = [], mq_normal = [], mq_low = [demo_item PriorityLow 1], mq_max_depth = 2,
     mq_enqueued = 2, mq_dropped = 1, mq_dispatched = 1\<rparr>"

text \<open>C19. The queue refines three first-in first-out queues: over any run of enqueues and
  drains from a fresh queue, the items of a priority lane come out in the order in which
  they were accepted, none lost and none duplicated, what is missing at the end is still
  queued, and the counters are the numbers of accepted, rejected and delivered items.\<close>

theorem queue_run_fifo:
  assumes "queue_run (new_model_queue m) ops = (acc, rej, out, q)"
  shows "filter (\<lambda>i. lane i = l) acc = filter (\<lambda>i. lane i = l) (out @ service_order q)
    \<and> mset acc = mset out + mset (service_order q)
    \<and> stats q = \<lparr>qs_depth_high = length (mq_high q), qs_depth_normal = length (mq_normal q),
        qs_depth_low = length (mq_low q), qs_enqueued = of_nat (length acc),
        qs_dropped = of_nat (length rej), qs_dispatched = of_nat (length out)\<rparr>
    \<and> int (depth q) \<le> max 0 m"
proof -
  have new: "service_order (new_model_queue m) = []" "mq_max_depth (new_model_queue m) = m"
    "mq_enqueued (new_model_queue m) = 0" "mq_dropped (new_model_queue m) = 0"
    "mq_dispatched (new_model_queue m) = 0"
    by (simp_all add: new_model_queue_def service_order_def)
  note lanes = queue_run_lanes [OF new_model_queue_inv assms]
  have f: "filter (\<lambda>i. lane i = l) acc = filter (\<lambda>i. lane i = l) (out @ service_order q)" for l
    using lanes [of l] new by simp
  have "mset acc = mset (filter (\<lambda>i. lane i = 0) acc) + mset (filter (\<lambda>i. lane i = 1) acc)
      + mset (filter (\<lambda>i. lane i = 2) acc)" for acc :: "item list"
  proof (induction acc)
    case Nil
    then show ?case by simp
  next
    case (Cons i acc)
    then show ?case using lane_cases [of i] by (elim disjE) simp_all
  qed
  then have "mset acc = mset (out @ service_order q)"
    using f by metis
  moreover have "int (depth q) \<le> max 0 m"
    using lanes [of 0] new by (auto simp: queue_inv_def)
  ultimately show ?thesis
    using f queue_run_counts [OF assms] new by (simp add: stats_def depth_by_lane_def)
qed

theorem queue_run_fifo_witness:
  "queue_run (new_model_queue 2)
      [Enq (demo_item PriorityLow 1), Enq (demo_item PriorityHigh 2), Enq (demo_item PriorityLow 3), Drn 1]
    = ([demo_item PriorityLow 1, demo_item PriorityHigh 2], [demo_item PriorityLow 3],
       [demo_item PriorityHigh 2], demo_rest)
   \<and> stats demo_rest = \<lparr>qs_depth_high = 0, qs_depth_normal = 0, qs_depth_low = 1, qs_enqueued = 2,
       qs_dropped = 1, qs_dispatched = 1\<rparr>"
proof -
  have run: "queue_run (new_model_queue 2)
      [Enq (demo_item PriorityLow 1), Enq (demo_item PriorityHigh 2), Enq (demo_item PriorityLow 3), Drn 1]
    = ([demo_item PriorityLow 1, demo_item PriorityHigh 2], [demo_item PriorityLow 3],
       [demo_item PriorityHigh 2], demo_rest)"
    by (simp add: demo_rest_def drain_def drain_loop.simps enqueue_def new_model_queue_def
        demo_item_def zero_request_def Let_def)
  then show ?thesis
    using queue_run_fifo [OF run, of 0] by (simp add: demo_rest_def)
qed

text \<open>An enqueue is accepted exactly when the queue is below its limit, whatever the
  priority of the request; an accepted item goes behind every item of its own lane and of
  the more urgent ones and in front of the less urgent ones, and a rejected one changes
  nothing but the drop counter.\<close>

theorem enqueue_load_shedding:
  assumes "queue_inv q"
  shows "snd (enqueue q i) = (int (depth q) < mq_max_depth q)
    \<and> (snd (enqueue q i) \<longrightarrow> service_order (fst (enqueue q i)) =
         filter (\<lambda>j. lane j \<le> lane i) (service_order q) @ [i] @
         filter (\<lambda>j. lane i < lane j) (service_order q))
    \<and> (\<not> snd (enqueue q i) \<longrightarrow> fst (enqueue q i) = q\<lparr>mq_dropped := mq_dropped q + 1\<rparr>)"
proof -
  have l: "filter (\<lambda>j. lane j \<le> k) (mq_high q) = mq_high q"
    "filter (\<lambda>j. lane j \<le> k) (mq_normal q) = (if 1 \<le> k then mq_normal q else [])"
    "filter (\<lambda>j. lane j \<le> k) (mq_low q) = (if 2 \<le> k then mq_low q else [])"
    "filter (\<lambda>j. k < lane j) (mq_high q) = []"
    "filter (\<lambda>j. k < lane j) (mq_normal q) = (if 1 \<le> k then [] else mq_normal q)"
    "filter (\<lambda>j. k < lane j) (mq_low q) = (if 2 \<le> k then [] else mq_low q)" for k
    using assms by (auto simp: queue_inv_def filter_id_conv filter_empty_conv)
  have "snd (enqueue q i) \<Longrightarrow> service_order (fst (enqueue q i)) =
         filter (\<lambda>j. lane j \<le> lane i) (service_order q) @ [i] @
         filter (\<lambda>j. lane i < lane j) (service_order q)"
    using lane_cases [of i] by (auto simp: service_order_def enqueue_lanes l)
  then show ?thesis by (simp add: enqueue_accepts enqueue_rejected)
qed

theorem enqueue_load_shedding_witness:
  "queue_inv demo_queue \<and> \<not> snd (enqueue demo_queue (demo_item PriorityCritical 4))
   \<and> fst (enqueue demo_queue (demo_item PriorityCritical 4)) = demo_queue\<lparr>mq_dropped := 1\<rparr>"
proof -
  have d: "depth demo_queue = 3" "mq_max_depth demo_queue = 3" "mq_dropped demo_queue = 0"
    by (simp_all add: demo_queue_def depth_def enqueue_def new_model_queue_def
        demo_item_def zero_request_def Let_def)
  then show ?thesis
    using enqueue_load_shedding [OF demo_queue_inv, of "demo_item PriorityCritical 4"] demo_queue_inv
    by simp
qed

end
