(* ===== verification/InsertionSort.thy ===== *)
theory InsertionSort
  imports Prelude Float64
begin

section \<open>The insertion sort of the services\<close>

text \<open>
  The scorer sorts candidates and latencies, and the batcher its latency samples, with the
  same in-place loop
  \<^verbatim>\<open>
  for i := 1; i < n; i++ {
      for j := i; j > 0 && less(v[j], v[j-1]); j-- { v[j], v[j-1] = v[j-1], v[j] }
  }
  \<close>
  This theory models the loop on an indexed list and proves, for any comparison, that it
  permutes its input; for a strict weak order, that the result is sorted and that equal
  elements keep their order. \<open>float64\<close>'s \<open><\<close> is such an order on the numbers but not
  on NaN, so the locale carries the set of elements it is assumed on.
\<close>

subsection \<open>The loop\<close>

text \<open>\<open>sift lt v j\<close> is the inner loop from index \<open>j\<close>.\<close>

fun sift :: "('a \<Rightarrow> 'a \<Rightarrow> bool) \<Rightarrow> 'a list \<Rightarrow> nat \<Rightarrow> 'a list" where
  "sift lt v 0 = v"
| "sift lt v (Suc j) =
     (if lt (v ! Suc j) (v ! j) then sift lt (v[Suc j := v ! j, j := v ! Suc j]) j else v)"

lemma length_sift [simp]: "length (sift lt v j) = length v"
  by (induction lt v j rule: sift.induct) auto

function sort_from :: "('a \<Rightarrow> 'a \<Rightarrow> bool) \<Rightarrow> 'a list \<Rightarrow> nat \<Rightarrow> 'a list" where
  "sort_from lt v i = (if i < length v then sort_from lt (sift lt v i) (Suc i) else v)"
  by pat_completeness auto
termination
  by (relation "measure (\<lambda>(lt, v, i). length v - i)") auto

declare sort_from.simps [simp del]

definition insertion_sort :: "('a \<Rightarrow> 'a \<Rightarrow> bool) \<Rightarrow> 'a list \<Rightarrow> 'a list" where
  "insertion_sort lt v = sort_from lt v 1"

subsection \<open>The loop as insertion into a reversed prefix\<close>

fun insert_rev :: "('a \<Rightarrow> 'a \<Rightarrow> bool) \<Rightarrow> 'a \<Rightarrow> 'a list \<Rightarrow> 'a list" where
  "insert_rev lt y [] = [y]"
| "insert_rev lt y (z # zs) = (if lt y z then z # insert_rev lt y zs else y # z # zs)"

lemma sift_insert_rev:
  "sift lt (rev p @ y # rest) (length p) = rev (insert_rev lt y p) @ rest"
proof (induction p arbitrary: rest)
  case Nil
  then show ?case by simp
next
  case (Cons z zs)
  let ?v = "rev (z # zs) @ y # rest"
  have at: "?v ! Suc (length zs) = y" "?v ! length zs = z"
    by (simp_all add: nth_append)
  have sw: "?v[Suc (length zs) := z, length zs := y] = rev zs @ y # z # rest"
    by (simp add: list_update_append)
  show ?case
  proof (cases "lt y z")
    case True
    then have "sift lt ?v (length (z # zs)) = sift lt (rev zs @ y # z # rest) (length zs)"
      using at sw by simp
    then show ?thesis using Cons.IH [of "z # rest"] True by simp
  next
    case False
    then show ?thesis using at by simp
  qed
qed

lemma mset_insert_rev [simp]: "mset (insert_rev lt y p) = add_mset y (mset p)"
  by (induction p) auto

lemma length_insert_rev [simp]: "length (insert_rev lt y p) = Suc (length p)"
  by (induction p) auto

lemma set_insert_rev [simp]: "set (insert_rev lt y p) = insert y (set p)"
  by (induction p) auto

definition insert_all :: "('a \<Rightarrow> 'a \<Rightarrow> bool) \<Rightarrow> 'a list \<Rightarrow> 'a list \<Rightarrow> 'a list" where
  "insert_all lt p ys = foldl (\<lambda>p y. insert_rev lt y p) p ys"

lemma insert_all_simps [simp]:
  "insert_all lt p [] = p"
  "insert_all lt p (y # ys) = insert_all lt (insert_rev lt y p) ys"
  by (simp_all add: insert_all_def)

lemma sort_from_insert_all:
  "sort_from lt (rev p @ ys) (length p) = rev (insert_all lt p ys)"
proof (induction ys arbitrary: p)
  case Nil
  then show ?case by (simp add: sort_from.simps)
next
  case (Cons y ys)
  have "sort_from lt (rev p @ y # ys) (length p)
      = sort_from lt (rev (insert_rev lt y p) @ ys) (length (insert_rev lt y p))"
    by (simp add: sort_from.simps [of lt "rev p @ y # ys"] sift_insert_rev)
  then show ?case using Cons.IH [of "insert_rev lt y p"] by simp
qed

lemma insertion_sort_eq: "insertion_sort lt v = rev (insert_all lt [] v)"
proof (cases v)
  case Nil
  then show ?thesis by (simp add: insertion_sort_def sort_from.simps)
next
  case (Cons x xs)
  then show ?thesis
    using sort_from_insert_all [of lt "[x]" xs] by (simp add: insertion_sort_def)
qed

lemma mset_insert_all [simp]: "mset (insert_all lt p ys) = mset p + mset ys"
  by (induction ys arbitrary: p) auto

lemma mset_insertion_sort [simp]: "mset (insertion_sort lt v) = mset v"
  by (simp add: insertion_sort_eq)

lemma set_insertion_sort [simp]: "set (insertion_sort lt v) = set v"
  by (metis mset_insertion_sort set_mset_mset)

lemma length_insertion_sort [simp]: "length (insertion_sort lt v) = length v"
  by (metis mset_insertion_sort size_mset)

lemma insertion_sort_Nil_iff [simp]: "insertion_sort lt v = [] \<longleftrightarrow> v = []"
  by (metis length_0_conv length_insertion_sort)

subsection \<open>Strict weak orders\<close>

locale strict_weak =
  fixes lt :: "'a \<Rightarrow> 'a \<Rightarrow> bool" and S :: "'a set"
  assumes asym: "x \<in> S \<Longrightarrow> y \<in> S \<Longrightarrow> lt x y \<Longrightarrow> \<not> lt y x"
    and cotrans: "x \<in> S \<Longrightarrow> y \<in> S \<Longrightarrow> z \<in> S \<Longrightarrow> lt x z \<Longrightarrow> lt x y \<or> lt y z"
begin

lemma not_less_trans:
  "x \<in> S \<Longrightarrow> y \<in> S \<Longrightarrow> z \<in> S \<Longrightarrow> \<not> lt x y \<Longrightarrow> \<not> lt y z \<Longrightarrow> \<not> lt x z"
  using cotrans by blast

lemma sorted_insert_rev:
  assumes "y \<in> S" "set p \<subseteq> S" "sorted_wrt (\<lambda>a b. \<not> lt a b) p"
  shows "sorted_wrt (\<lambda>a b. \<not> lt a b) (insert_rev lt y p)"
  using assms by (induction p) (auto intro: asym dest: not_less_trans asym)

lemma sorted_insert_all:
  assumes "set p \<subseteq> S" "set ys \<subseteq> S" "sorted_wrt (\<lambda>a b. \<not> lt a b) p"
  shows "sorted_wrt (\<lambda>a b. \<not> lt a b) (insert_all lt p ys)"
  using assms by (induction ys arbitrary: p) (auto simp: sorted_insert_rev)

theorem sorted_insertion_sort:
  assumes "set v \<subseteq> S"
  shows "sorted_wrt (\<lambda>a b. \<not> lt b a) (insertion_sort lt v)"
  using sorted_insert_all [of "[]" v] assms by (simp add: insertion_sort_eq sorted_wrt_rev)

text \<open>Stability: the elements equivalent to any \<open>a\<close> keep their order.\<close>

abbreviation equiv :: "'a \<Rightarrow> 'a \<Rightarrow> bool" where
  "equiv a x \<equiv> \<not> lt a x \<and> \<not> lt x a"

lemma filter_insert_rev:
  assumes "a \<in> S" "y \<in> S" "set p \<subseteq> S"
  shows "filter (equiv a) (insert_rev lt y p) = filter (equiv a) (y # p)"
  using assms by (induction p) (auto dest: cotrans)

lemma filter_insert_all:
  assumes "a \<in> S" "set p \<subseteq> S" "set ys \<subseteq> S"
  shows "filter (equiv a) (insert_all lt p ys) = rev (filter (equiv a) ys) @ filter (equiv a) p"
  using assms by (induction ys arbitrary: p) (auto simp: filter_insert_rev)

theorem stable_insertion_sort:
  assumes "a \<in> S" "set v \<subseteq> S"
  shows "filter (equiv a) (insertion_sort lt v) = filter (equiv a) v"
  using filter_insert_all [of a "[]" v] assms by (simp add: insertion_sort_eq rev_filter [symmetric])

end

text \<open>\<open>float64\<close>'s order on the numbers, in both directions.\<close>

lemma f64_lt_cotrans:
  "\<not> f64_is_nan x \<Longrightarrow> \<not> f64_is_nan y \<Longrightarrow> \<not> f64_is_nan z \<Longrightarrow> f64_lt x z \<Longrightarrow> f64_lt x y \<or> f64_lt y z"
  by (auto simp: f64_lt_def)

interpretation ascending: strict_weak f64_lt "{x. \<not> f64_is_nan x}"
  by unfold_locales (auto simp: f64_lt_def)

text \<open>
  The element at index \<open>k\<close> of the sorted list splits the input by rank: more than \<open>k\<close>
  elements are not above it and at most \<open>k\<close> are below it.
\<close>

lemma ascending_rank:
  assumes "\<forall>x \<in> set v. \<not> f64_is_nan x" "k < length v"
  defines "y \<equiv> insertion_sort f64_lt v ! k"
  shows "y \<in> set v" and "k < length (filter (\<lambda>x. f64_le x y) v)"
    and "length (filter (\<lambda>x. f64_lt x y) v) \<le> k"
proof -
  let ?s = "insertion_sort f64_lt v"
  have l: "k < length ?s" using assms(2) by simp
  show y: "y \<in> set v" using nth_mem [OF l] by (simp add: y_def)
  have srt: "sorted_wrt (\<lambda>a b. \<not> f64_lt b a) ?s"
    using ascending.sorted_insertion_sort [of v] assms(1) by auto
  have num: "\<not> f64_is_nan (?s ! i)" if "i < length v" for i
    using that assms(1) nth_mem [of i ?s] by auto
  have cnt: "length (filter P v) = length (filter P (take (Suc k) ?s)) + length (filter P (drop (Suc k) ?s))"
    for P
    by (metis append_take_drop_id filter_append length_append mset_filter mset_insertion_sort size_mset)
  have le: "f64_le (?s ! i) y" if "i \<le> k" for i
  proof (cases "i = k")
    case True
    then show ?thesis using num [OF assms(2)] by (simp add: y_def f64_le_def)
  next
    case False
    then show ?thesis
      using that l num [of i] num [of k] assms(2) sorted_wrt_nth_less [OF srt, of i k]
      by (simp add: y_def f64_not_lt)
  qed
  have "\<forall>x \<in> set (take (Suc k) ?s). f64_le x y"
    using le by (auto simp: in_set_conv_nth)
  then have "length (filter (\<lambda>x. f64_le x y) (take (Suc k) ?s)) = Suc k"
    using l by simp
  then show "k < length (filter (\<lambda>x. f64_le x y) v)" by (simp add: cnt)
  have "\<not> f64_lt x y" if x: "x \<in> set (drop k ?s)" for x
  proof -
    obtain i where "i < length (drop k ?s)" "x = drop k ?s ! i"
      using x unfolding in_set_conv_nth by blast
    then have i: "x = ?s ! (k + i)" "k + i < length ?s"
      by (simp_all add: add.commute)
    then show ?thesis
      using sorted_wrt_nth_less [OF srt, of k "k + i"] by (cases "i = 0") (simp_all add: y_def)
  qed
  then have "filter (\<lambda>x. f64_lt x y) (drop k ?s) = []" by (simp add: filter_empty_conv)
  then have "length (filter (\<lambda>x. f64_lt x y) ?s) = length (filter (\<lambda>x. f64_lt x y) (take k ?s))"
    by (metis append_Nil2 append_take_drop_id filter_append)
  also have "\<dots> \<le> k" by (rule order_trans [OF length_filter_le]) simp
  finally show "length (filter (\<lambda>x. f64_lt x y) v) \<le> k"
    by (metis mset_filter mset_insertion_sort size_mset)
qed

end
