(* ===== verification/Ring.thy ===== *)
theory Ring
  imports Prelude
begin

section \<open>Ring buffers\<close>

text \<open>
  The batcher's latency samples and the scorer's outcomes and latencies live in arrays
  written at \<open>head % cap\<close>. \<open>ring_of c xs ss\<close> says that \<open>ss\<close> is such an array of size \<open>c\<close>
  after the values \<open>xs\<close> were written; the theory proves that its used part holds the last
  \<open>c\<close> values.
\<close>

definition window :: "nat \<Rightarrow> 'a list \<Rightarrow> 'a list" where
  "window c xs = drop (length xs - c) xs"

lemma length_window [simp]: "length (window c xs) = min (length xs) c"
  by (simp add: window_def)

lemma set_window: "set (window c xs) \<subseteq> set xs"
  by (simp add: window_def set_drop_subset)

lemma window_short [simp]: "length xs \<le> c \<Longrightarrow> window c xs = xs"
  by (simp add: window_def)

definition ring_of :: "nat \<Rightarrow> 'a list \<Rightarrow> 'a list \<Rightarrow> bool" where
  "ring_of c xs ss \<longleftrightarrow> length ss = c
     \<and> (\<forall>j < length xs. length xs \<le> j + c \<longrightarrow> ss ! (j mod c) = xs ! j)"

lemma ring_of_Nil [simp]: "ring_of c [] ss \<longleftrightarrow> length ss = c"
  by (simp add: ring_of_def)

lemma ring_of_length: "ring_of c xs ss \<Longrightarrow> length ss = c"
  by (simp add: ring_of_def)

lemma ring_of_snoc [invariants]:
  assumes "ring_of c xs ss" "0 < c"
  shows "ring_of c (xs @ [x]) (ss[length xs mod c := x])"
proof -
  have "length xs mod c \<noteq> j mod c" if "j < length xs" "length xs < j + c" for j
  proof
    assume "length xs mod c = j mod c"
    then have "c dvd length xs - j" using that mod_eq_dvd_iff_nat [of j "length xs" c, symmetric] by simp
    then show False using that by (auto dest: dvd_imp_le)
  qed
  then show ?thesis
    using assms by (auto simp: ring_of_def nth_append nth_list_update less_Suc_eq)
qed

lemma ring_of_window:
  assumes "ring_of c xs ss" "0 < c"
  shows "mset (take (min (length xs) c) ss) = mset (window c xs)"
proof (cases "length xs \<le> c")
  case True
  have "take (length xs) ss = xs"
    using assms True by (intro nth_equalityI) (auto simp: ring_of_def)
  then show ?thesis using True by (simp add: window_def min_def)
next
  case False
  have "window c xs = rotate (length xs - c) ss"
    using assms False
    by (intro nth_equalityI) (auto simp: ring_of_def window_def nth_rotate)
  then have "mset (window c xs) = mset ss" by (simp only: mset_rotate)
  then show ?thesis using assms False by (simp add: ring_of_def)
qed

end
