(* ===== verification/Batcher.thy ===== *)
theory Batcher
  imports ModelQueue InsertionSort Ring
begin

section \<open>The adaptive batcher\<close>

text \<open>
  \<open>services/scheduler/internal/batcher/batcher.go\<close>: one loop per model that waits, drains a
  batch from the model's queue, sends each item to the executor and answers it on its
  channel. The time, the result of dialling and what the executor answers are arguments.
  The goroutines of a batch finish in any order: the order is an argument too. A result of
  \<open>None\<close> stands for a panic (an index out of range, a division by zero, a call on a nil
  client) or for a send that blocks forever.
\<close>

subsection \<open>Configuration and metrics\<close>

record config =
  cf_max_batch_size :: int
  cf_max_wait_ms :: int
  cf_min_wait_ms :: int
  cf_p99_slo_ms :: f64
  cf_dispatch_timeout :: time

definition default_config :: config where
  "default_config = \<lparr>cf_max_batch_size = 16, cf_max_wait_ms = 30, cf_min_wait_ms = 5,
     cf_p99_slo_ms = f64_of_int 500, cf_dispatch_timeout = 30 * second\<rparr>"

record batch_metrics =
  bm_batches_dispatched :: int64
  bm_requests_processed :: int64
  bm_total_batch_size :: int64
  bm_total_batches :: int64
  bm_load_shedded :: int64

definition zero_batch_metrics :: batch_metrics where
  "zero_batch_metrics = \<lparr>bm_batches_dispatched = 0, bm_requests_processed = 0,
     bm_total_batch_size = 0, bm_total_batches = 0, bm_load_shedded = 0\<rparr>"

definition metrics_record :: "batch_metrics \<Rightarrow> nat \<Rightarrow> batch_metrics" where
  "metrics_record m batchSize =
     m\<lparr>bm_batches_dispatched := bm_batches_dispatched m + 1,
       bm_requests_processed := bm_requests_processed m + of_nat batchSize,
       bm_total_batch_size := bm_total_batch_size m + of_nat batchSize,
       bm_total_batches := bm_total_batches m + 1\<rparr>"

definition avg_batch_size :: "batch_metrics \<Rightarrow> f64" where
  "avg_batch_size m =
     (if bm_total_batches m = 0 then f64_zero
      else f64_div (f64_of_int (sint (bm_total_batch_size m))) (f64_of_int (sint (bm_total_batches m))))"

subsection \<open>The latency histogram\<close>

text \<open>A ring of the last \<open>cap\<close> samples.\<close>

record latency_hist =
  lh_samples :: "f64 list"
  lh_head :: nat
  lh_cap :: nat

definition new_latency_hist :: "nat \<Rightarrow> latency_hist" where
  "new_latency_hist cap = \<lparr>lh_samples = replicate cap f64_zero, lh_head = 0, lh_cap = cap\<rparr>"

definition hist_record :: "latency_hist \<Rightarrow> f64 \<Rightarrow> latency_hist option" where
  "hist_record h ms =
     (if lh_cap h = 0 then None
      else let i = lh_head h mod lh_cap h
           in if i < length (lh_samples h)
              then Some (h\<lparr>lh_samples := (lh_samples h)[i := ms], lh_head := lh_head h + 1\<rparr>)
              else None)"

definition p99_index :: "nat \<Rightarrow> int" where
  "p99_index n =
     (let idx = sint (f64_to_int64 (f64_ceil (f64_mul (f64_of_int (int n)) (f64_const 99 100))) - 1)
      in if idx < 0 then 0 else idx)"

definition p99 :: "latency_hist \<Rightarrow> f64 option" where
  "p99 h =
     (let n = (if lh_head h > lh_cap h then lh_cap h else lh_head h)
      in if length (lh_samples h) < n then None
         else if n = 0 then Some f64_zero
         else let vals = insertion_sort f64_lt (take n (lh_samples h));
                  idx = nat (p99_index n)
              in if idx < length vals then Some (vals ! idx) else None)"

subsection \<open>The batcher\<close>

text \<open>\<open>'c\<close> is the executor client; \<open>None\<close> is the nil client the struct starts with.\<close>

record batch_log_row =
  bl_batch_id :: string
  bl_model_id :: string
  bl_task_type :: string
  bl_batch_size :: nat
  bl_wait_ms :: f64
  bl_dispatch_ms :: f64
  bl_flush_reason :: string

record 'c batcher =
  b_model_id :: string
  b_exec_addr :: string
  b_cfg :: config
  b_latency :: latency_hist
  b_exec_client :: "'c option"
  b_conn_once :: bool
  b_db :: "batch_log_row list option"

definition new_batcher :: "string \<Rightarrow> string \<Rightarrow> config \<Rightarrow> batch_log_row list option \<Rightarrow> 'c batcher" where
  "new_batcher modelID execAddr cfg db =
     \<lparr>b_model_id = modelID, b_exec_addr = execAddr, b_cfg = cfg,
      b_latency = new_latency_hist 1000, b_exec_client = None, b_conn_once = False, b_db = db\<rparr>"

text \<open>The wait window, from the depth of the queue at that moment.\<close>

definition adaptive_wait :: "'c batcher \<Rightarrow> nat \<Rightarrow> int option" where
  "adaptive_wait b d =
     (case p99 (b_latency b) of
        None \<Rightarrow> None
      | Some v \<Rightarrow>
          Some (if 20 < d \<or> f64_lt (f64_mul (cf_p99_slo_ms (b_cfg b)) (f64_const 3 2)) v
                then cf_min_wait_ms (b_cfg b)
                else if 5 < d then go_div (cf_max_wait_ms (b_cfg b)) 2
                else cf_max_wait_ms (b_cfg b)))"

text \<open>
  \<open>sync.Once\<close> runs its body on the first call only, whatever the body does; \<open>dial\<close> is what
  \<open>grpc.NewClient\<close> returns on that call.
\<close>

definition exec_client_lazy :: "'c batcher \<Rightarrow> 'c result \<Rightarrow> 'c batcher \<times> 'c option result" where
  "exec_client_lazy b dial =
     (if b_conn_once b then (b, Inr (b_exec_client b))
      else let b = b\<lparr>b_conn_once := True\<rparr>
           in case dial of
                Inl e \<Rightarrow> (b, Inl e)
              | Inr c \<Rightarrow> (b\<lparr>b_exec_client := Some c\<rparr>, Inr (Some c)))"

text \<open>The hexadecimal digits of eight bytes, the least significant byte first.\<close>

definition new_id :: "int64 \<Rightarrow> string" where
  "new_id t = concat (map (\<lambda>i. byte_hex (unat (signed_drop_bit (i * 8) t) mod 256)) [0..<8])"

definition log_batch :: "'c batcher \<Rightarrow> int64 \<Rightarrow> nat \<Rightarrow> f64 \<Rightarrow> f64 \<Rightarrow> string list \<Rightarrow> bool \<Rightarrow> 'c batcher" where
  "log_batch b nanos batchSize waitMs dispatchMs flushReason insert_ok =
     (case b_db b of
        None \<Rightarrow> b
      | Some rows \<Rightarrow>
          let reason = (case flushReason of [] \<Rightarrow> ''timer'' | r # _ \<Rightarrow> r);
              row = \<lparr>bl_batch_id = new_id nanos, bl_model_id = b_model_id b, bl_task_type = ''mixed'',
                     bl_batch_size = batchSize, bl_wait_ms = waitMs, bl_dispatch_ms = dispatchMs,
                     bl_flush_reason = reason\<rparr>
          in if insert_ok then b\<lparr>b_db := Some (rows @ [row])\<rparr> else b)"

subsection \<open>Results and channels\<close>

record queue_result =
  qr_resp :: "inference_response option"
  qr_err :: "err option"
  qr_wait_ms :: f64

text \<open>
  The result channels: each has room for one result. A send to a full channel blocks; the
  channel's only other user reads it at most once, so a second send never returns.
\<close>

type_synonym channels = "nat \<Rightarrow> queue_result list"

definition send :: "nat \<Rightarrow> queue_result \<Rightarrow> channels \<Rightarrow> channels option" where
  "send c r ch = (if ch c = [] then Some (ch(c := [r])) else None)"

fun send_all :: "(item \<Rightarrow> queue_result) \<Rightarrow> item list \<Rightarrow> channels \<Rightarrow> channels option" where
  "send_all f [] ch = Some ch"
| "send_all f (i # is) ch =
     (case send (it_result_ch i) (f i) ch of None \<Rightarrow> None | Some ch \<Rightarrow> send_all f is ch)"

subsection \<open>Dispatch\<close>

definition execute_request_of :: "item \<Rightarrow> execute_request" where
  "execute_request_of it =
     (let r = it_req it
      in zero_execute_request\<lparr>er_request_id := ir_request_id r, er_model_id := it_executor_addr it,
           er_task_type := ir_task_type r, er_prompt := ir_prompt r, er_messages := ir_messages r,
           er_documents := ir_documents r, er_query := ir_query r, er_max_tokens := ir_max_tokens r\<rparr>)"

definition item_result :: "(item \<Rightarrow> time) \<Rightarrow> ('c \<Rightarrow> item \<Rightarrow> execute_request \<Rightarrow> execute_response result) \<Rightarrow> 'c \<Rightarrow>
    item \<Rightarrow> queue_result" where
  "item_result now execute client it =
     (let waitMs = f64_of_int (to_millis (now it - it_enqueued_at it))
      in case execute client it (execute_request_of it) of
           Inl e \<Rightarrow> \<lparr>qr_resp = None, qr_err = Some e, qr_wait_ms = waitMs\<rparr>
         | Inr x \<Rightarrow>
             \<lparr>qr_resp = Some (zero_response\<lparr>rs_request_id := ex_request_id x, rs_model_id := ex_model_id x,
                  rs_content := ex_content x, rs_embedding := ex_embedding x, rs_scores := ex_scores x,
                  rs_tokens_output := ex_tokens_output x, rs_tokens_input := ex_tokens_input x,
                  rs_latency_ms := ex_latency_ms x, rs_queue_wait_ms := waitMs\<rparr>),
              qr_err = None, qr_wait_ms = waitMs\<rparr>)"

text \<open>
  One goroutine per item; \<open>order\<close> arranges the items in the order in which their goroutines
  reach their sends. A nil client panics as soon as a goroutine calls it.
\<close>

definition default_dispatch :: "(item \<Rightarrow> time) \<Rightarrow> ('c \<Rightarrow> item \<Rightarrow> execute_request \<Rightarrow> execute_response result) \<Rightarrow>
    (item list \<Rightarrow> item list) \<Rightarrow> item list \<Rightarrow> 'c option \<Rightarrow> channels \<Rightarrow> channels option" where
  "default_dispatch now execute order items client ch =
     (case client of
        None \<Rightarrow> if items = [] then Some ch else None
      | Some c \<Rightarrow> send_all (item_result now execute c) (order items) ch)"

definition dial_failure :: "err \<Rightarrow> queue_result" where
  "dial_failure e = \<lparr>qr_resp = None, qr_err = Some (Plain (''executor dial: '' @ err_text e)), qr_wait_ms = f64_zero\<rparr>"

text \<open>
  What one turn of the loop meets in its environment: the context, the depth of the queue
  when the turn begins and when the dispatch is logged, the outcomes of dialling, executing
  and inserting, and the clock.
\<close>

record 'c world =
  w_cancelled :: bool
  w_depth_before :: nat
  w_dial :: "'c result"
  w_now :: "item \<Rightarrow> time"
  w_execute :: "'c \<Rightarrow> item \<Rightarrow> execute_request \<Rightarrow> execute_response result"
  w_order :: "item list \<Rightarrow> item list"
  w_elapsed :: time
  w_depth :: nat
  w_nanos :: int64
  w_insert_ok :: bool

text \<open>The end of a dispatch, after \<open>wg.Wait()\<close>: the latency, the counters and the log row.\<close>

definition batch_done :: "'c world \<Rightarrow> 'c batcher \<Rightarrow> batch_metrics \<Rightarrow> nat \<Rightarrow> ('c batcher \<times> batch_metrics) option" where
  "batch_done w b m batchSize =
     (let latencyMs = f64_of_int (to_millis (w_elapsed w))
      in case hist_record (b_latency b) latencyMs of
           None \<Rightarrow> None
         | Some h \<Rightarrow>
             let b = b\<lparr>b_latency := h\<rparr>; m = metrics_record m batchSize
             in case adaptive_wait b (w_depth w) of
                  None \<Rightarrow> None
                | Some wait \<Rightarrow>
                    Some (log_batch b (w_nanos w) batchSize (f64_of_int wait) latencyMs [] (w_insert_ok w), m))"

definition dispatch :: "'c world \<Rightarrow> 'c batcher \<Rightarrow> batch_metrics \<Rightarrow> item list \<Rightarrow> channels \<Rightarrow>
    ('c batcher \<times> batch_metrics \<times> channels) option" where
  "dispatch w b m items ch =
     (case exec_client_lazy b (w_dial w) of
        (b, Inl e) \<Rightarrow>
          (case send_all (\<lambda>i. dial_failure e) items ch of
             None \<Rightarrow> None | Some ch \<Rightarrow> Some (b, m, ch))
      | (b, Inr client) \<Rightarrow>
          (case default_dispatch (w_now w) (w_execute w) (w_order w) items client ch of
             None \<Rightarrow> None
           | Some ch \<Rightarrow>
               (case batch_done w b m (length items) of
                  None \<Rightarrow> None | Some (b, m) \<Rightarrow> Some (b, m, ch))))"

text \<open>
  One turn of the loop after its check of the context: it sleeps, drains and dispatches.
  The queue is the one it finds after the sleep. What the turn touches after the drain is
  the batcher's own or a channel nobody else sends to, so for this batcher the turn is one
  function of what it finds; the theory \<open>Scheduler\<close> splits it into the steps other
  goroutines can see.
\<close>

definition loop_turn :: "'c world \<Rightarrow> 'c batcher \<Rightarrow> model_queue \<Rightarrow> batch_metrics \<Rightarrow> channels \<Rightarrow>
    ('c batcher \<times> model_queue \<times> batch_metrics \<times> channels) option" where
  "loop_turn w b q m ch =
     (case adaptive_wait b (w_depth_before w) of
        None \<Rightarrow> None
      | Some waitMs \<Rightarrow>
          let (items, q) = drain q (cf_max_batch_size (b_cfg b))
          in if items = [] then Some (b, q, m, ch)
             else case dispatch w b m items ch of
                    None \<Rightarrow> None | Some (b, m, ch) \<Rightarrow> Some (b, q, m, ch))"

text \<open>
  The loop: for each turn, the items callers try to enqueue since the last drain (while the
  last batch executes and while the loop sleeps) and the turn's world. A turn that finds the
  context cancelled ends the loop.
\<close>

fun enqueue_all :: "model_queue \<Rightarrow> item list \<Rightarrow> model_queue" where
  "enqueue_all q [] = q"
| "enqueue_all q (i # is) = enqueue_all (fst (enqueue q i)) is"

fun loop_turns :: "(item list \<times> 'c world) list \<Rightarrow> 'c batcher \<Rightarrow> model_queue \<Rightarrow> batch_metrics \<Rightarrow> channels \<Rightarrow>
    ('c batcher \<times> model_queue \<times> batch_metrics \<times> channels) option" where
  "loop_turns [] b q m ch = Some (b, q, m, ch)"
| "loop_turns ((arrivals, w) # ws) b q m ch =
     (if w_cancelled w then Some (b, enqueue_all q arrivals, m, ch)
      else case loop_turn w b (enqueue_all q arrivals) m ch of
             None \<Rightarrow> None | Some (b, q, m, ch) \<Rightarrow> loop_turns ws b q m ch)"

subsection \<open>A turn in parts\<close>

text \<open>
  What other goroutines can see of a turn: \<open>take_batch\<close> (the wait, the drain and the
  client), one \<open>reply_of\<close> per item, and \<open>end_batch\<close>. A failed dial answers the items in
  the batch's order, the goroutines of an executed batch in any order.
\<close>

definition take_batch :: "'c world \<Rightarrow> 'c batcher \<Rightarrow> model_queue \<Rightarrow>
    ('c batcher \<times> model_queue \<times> item list \<times> 'c option result) option" where
  "take_batch w b q =
     (case adaptive_wait b (w_depth_before w) of
        None \<Rightarrow> None
      | Some waitMs \<Rightarrow>
          let (items, q) = drain q (cf_max_batch_size (b_cfg b))
          in if items = [] then Some (b, q, items, Inr (b_exec_client b))
             else let (b, client) = exec_client_lazy b (w_dial w) in Some (b, q, items, client))"

definition reply_of :: "'c world \<Rightarrow> 'c option result \<Rightarrow> item \<Rightarrow> queue_result option" where
  "reply_of w client i =
     (case client of
        Inl e \<Rightarrow> Some (dial_failure e)
      | Inr None \<Rightarrow> None
      | Inr (Some c) \<Rightarrow> Some (item_result (w_now w) (w_execute w) c i))"

definition end_batch :: "'c world \<Rightarrow> 'c batcher \<Rightarrow> batch_metrics \<Rightarrow> 'c option result \<Rightarrow> nat \<Rightarrow>
    ('c batcher \<times> batch_metrics) option" where
  "end_batch w b m client batchSize =
     (case client of Inl e \<Rightarrow> Some (b, m) | Inr c \<Rightarrow> batch_done w b m batchSize)"

text \<open>The parts make the whole.\<close>

lemma loop_turn_parts:
  assumes "take_batch w b q = Some (b1, q1, items, Inr (Some c))" "items \<noteq> []"
    and "send_all (item_result (w_now w) (w_execute w) c) (w_order w items) ch = Some ch'"
    and "end_batch w b1 m (Inr (Some c)) (length items) = Some (b2, m2)"
  shows "loop_turn w b q m ch = Some (b2, q1, m2, ch')"
  using assms
  by (auto simp: take_batch_def loop_turn_def dispatch_def default_dispatch_def end_batch_def case_prod_unfold Let_def
      split: option.splits if_splits prod.splits sum.splits)

subsection \<open>The histogram is the window of the last samples\<close>

text \<open>\<open>hist_of c xs h\<close>: the ring of capacity \<open>c\<close> after the samples \<open>xs\<close>.\<close>

definition hist_of :: "nat \<Rightarrow> f64 list \<Rightarrow> latency_hist \<Rightarrow> bool" where
  "hist_of c xs h \<longleftrightarrow> lh_cap h = c \<and> lh_head h = length xs \<and> ring_of c xs (lh_samples h)"

lemma hist_of_length: "hist_of c xs h \<Longrightarrow> length (lh_samples h) = c"
  by (auto simp: hist_of_def ring_of_length)

lemma hist_of_new: "hist_of c [] (new_latency_hist c)"
  by (simp add: hist_of_def new_latency_hist_def)

lemma hist_record_Some:
  assumes "hist_of c xs h" "0 < c"
  shows "hist_record h x = Some (h\<lparr>lh_samples := (lh_samples h)[length xs mod c := x], lh_head := length xs + 1\<rparr>)"
  using assms by (simp add: hist_record_def hist_of_def hist_of_length [OF assms(1)] Let_def)

lemma hist_record_of [invariants]:
  assumes "hist_of c xs h" "0 < c" "hist_record h x = Some h'"
  shows "hist_of c (xs @ [x]) h'"
  using assms hist_record_Some [OF assms(1,2), of x] by (auto simp: hist_of_def ring_of_snoc)

lemma const_99_100:
  "f64_finite (f64_const 99 100)" "f64_val (f64_const 99 100) = 8917127262193582 / 2 ^ 53"
proof -
  have c: "f64_const 99 100 = F64 0x3FEFAE147AE147AE" by code_simp
  have v: "f64_ssig (F64 0x3FEFAE147AE147AE) = 8917127262193582" "f64_exp (f64_mag (F64 0x3FEFAE147AE147AE)) = - 53"
    by code_simp+
  have p: "(2::real) powi (- 53) = 1 / 2 ^ 53" by (simp only: power_int_minus inverse_eq_divide) simp
  show "f64_val (f64_const 99 100) = 8917127262193582 / 2 ^ 53"
    by (simp only: c f64_val_ssig v p of_int_numeral times_divide_eq_right mult_1_right)
  show "f64_finite (f64_const 99 100)" by (simp add: c f64_finite_def f64_mag_def f64_inf_mag_def)
qed

lemma p99_index_rank:
  assumes "0 < n" "n \<le> 1000"
  shows "p99_index n = (99 * int n + 99) div 100 - 1"
proof -
  define k where "k = (99 * int n + 99) div 100"
  have k: "1 \<le> k" "k \<le> 1000" "99 * int n \<le> 100 * k" "100 * k \<le> 99 * int n + 99"
    using assms by (simp_all add: k_def) 
  let ?n = "f64_of_int (int n)" and ?c = "f64_const 99 100"
  have n: "f64_val ?n = real n" "f64_finite ?n"
    using f64_of_int_exact [of "int n"] assms by simp_all
  have fk: "f64_val (f64_of_int k) = of_int k" "f64_finite (f64_of_int k)"
    using f64_of_int_exact [of k] k by simp_all
  obtain x where x: "f64_finite x" "f64_val x = of_int (128 * (k - 1) + 1) * 2 powi (- 7)"
    using f64_dyadic [of "128 * (k - 1) + 1" "- 7"] k by auto
  let ?p = "f64_mul ?n ?c"
  have p: "f64_key ?p = rnd_key (real n * (8917127262193582 / 2 ^ 53))"
    using f64_mul_props(1) [OF n(2) const_99_100(1)] n(1) const_99_100(2) by simp
  have "real n * (8917127262193582 / 2 ^ 53) \<le> of_int k"
  proof -
    have "8917127262193582 * int n \<le> k * 2 ^ 53" using k by simp
    then have "real_of_int (8917127262193582 * int n) \<le> real_of_int (k * 2 ^ 53)" by (simp only: of_int_le_iff)
    then show ?thesis by simp
  qed
  then have up: "f64_key ?p \<le> f64_key (f64_of_int k)" using rnd_key_le fk by (simp add: p)
  have "of_int (128 * (k - 1) + 1) * 2 powi (- 7) \<le> real n * (8917127262193582 / 2 ^ 53)"
  proof -
    have "(128 * (k - 1) + 1) * 2 ^ 53 \<le> 8917127262193582 * int n * 128" using k assms by simp
    then have "real_of_int ((128 * (k - 1) + 1) * 2 ^ 53) \<le> real_of_int (8917127262193582 * int n * 128)"
      by (simp only: of_int_le_iff)
    then show ?thesis by (simp add: power_int_minus)
  qed
  then have low: "f64_key x \<le> f64_key ?p" using rnd_key_ge x by (simp add: p)
  have fin: "f64_finite ?p" using f64_finite_between [OF x(1) fk(2) low up] .
  have v: "f64_val ?p \<le> of_int k" "of_int (k - 1) < f64_val ?p"
    using up low fk x by (simp_all add: power_int_minus flip: f64_val_le_iff)
  then have "\<lceil>f64_val ?p\<rceil> = k" by linarith
  moreover have "real_of_int k \<le> 1000" "0 \<le> real_of_int (k - 1)" using k by simp_all
  with v have "\<bar>f64_val ?p\<bar> < 2 ^ 52" by simp
  ultimately have c: "f64_finite (f64_ceil ?p)" "f64_val (f64_ceil ?p) = of_int k"
    using f64_ceil_props [OF fin] by simp_all
  have "sint (f64_to_int64 (f64_ceil ?p)) = k"
    using f64_to_int64_nonneg [OF c(1)] c(2) k by simp
  then have "f64_to_int64 (f64_ceil ?p) = word_of_int k" by (metis word_of_sint)
  then have "f64_to_int64 (f64_ceil ?p) - 1 = word_of_int (k - 1)" by simp
  moreover have "sint (word_of_int (k - 1) :: int64) = k - 1"
    using k by (intro sint_word_of_int) simp_all
  ultimately have "sint (f64_to_int64 (f64_ceil ?p) - 1) = k - 1" by (simp only:)
  then show ?thesis using k by (simp add: p99_index_def Let_def k_def)
qed
subsection \<open>What the histogram reports\<close>

lemma hist_samples:
  assumes "hist_of c xs h" "0 < c"
  shows "mset (take (min (length xs) c) (lh_samples h)) = mset (window c xs)"
  using assms ring_of_window by (auto simp: hist_of_def)

lemma p99_value:
  assumes "hist_of 1000 xs h" "xs \<noteq> []"
  defines "n \<equiv> min (length xs) 1000"
  shows "p99 h = Some (insertion_sort f64_lt (take n (lh_samples h)) ! nat (p99_index n))"
    and "nat (p99_index n) < n" and "0 < n" and "n \<le> 1000" and "length (take n (lh_samples h)) = n"
    and "int (nat (p99_index n)) = p99_index n"
proof -
  show n: "0 < n" "n \<le> 1000" using assms(2) by (simp_all add: n_def)
  note r = p99_index_rank [OF n]
  then show i: "nat (p99_index n) < n" "int (nat (p99_index n)) = p99_index n"
    using n by auto
  show l: "length (take n (lh_samples h)) = n" using hist_of_length [OF assms(1)] by (simp add: n_def)
  have "(if lh_head h > lh_cap h then lh_cap h else lh_head h) = n"
    using assms(1) by (simp add: hist_of_def n_def)
  then show "p99 h = Some (insertion_sort f64_lt (take n (lh_samples h)) ! nat (p99_index n))"
    using i n l assms(1) hist_of_length [OF assms(1)] by (simp add: p99_def Let_def hist_of_def)
qed

lemma rank_arith:
  "99 * n \<le> 100 * (k + 1) \<Longrightarrow> 100 * k < 99 * n \<Longrightarrow> k < a \<Longrightarrow> b \<le> k
    \<Longrightarrow> 99 * n \<le> 100 * a \<and> 100 * b < 99 * (n::nat)"
  by auto

lemma p99_empty: "hist_of c [] h \<Longrightarrow> p99 h = Some f64_zero"
  by (simp add: hist_of_def p99_def Let_def)

lemma p99_total:
  assumes "hist_of 1000 xs h"
  shows "\<exists>v. p99 h = Some v"
  using p99_empty p99_value(1) assms by (cases "xs = []") fastforce+


definition demo_hist :: latency_hist where
  "demo_hist = the (hist_record (the (hist_record (new_latency_hist 1000) (f64_of_int 20))) (f64_of_int 10))"

lemma demo_hist_of: "hist_of 1000 [f64_of_int 20, f64_of_int 10] demo_hist"
proof -
  let ?h = "new_latency_hist 1000"
  have 1: "hist_record ?h (f64_of_int 20) = Some (the (hist_record ?h (f64_of_int 20)))"
    using hist_record_Some [OF hist_of_new, of 1000] by simp
  note h1 = hist_record_of [OF hist_of_new _ 1, simplified]
  have "hist_record (the (hist_record ?h (f64_of_int 20))) (f64_of_int 10) = Some demo_hist"
    using hist_record_Some [OF h1] by (simp add: demo_hist_def)
  from hist_record_of [OF h1 _ this] show ?thesis by simp
qed


subsection \<open>The wait window\<close>

text \<open>\<open>batcher_of xs b\<close>: a batcher of the default ring size whose dispatches took \<open>xs\<close>.\<close>

definition batcher_of :: "f64 list \<Rightarrow> 'c batcher \<Rightarrow> bool" where
  "batcher_of xs b \<longleftrightarrow> hist_of 1000 xs (b_latency b)"

lemma batcher_of_new [invariants]: "batcher_of [] (new_batcher mid addr cfg db)"
  by (simp add: batcher_of_def new_batcher_def hist_of_new)

lemma b_cfg_new [simp]: "b_cfg (new_batcher mid addr cfg db) = cfg"
  by (simp add: new_batcher_def)

lemma default_config_simps [simp]:
  "cf_max_batch_size default_config = 16" "cf_max_wait_ms default_config = 30"
  "cf_min_wait_ms default_config = 5"
  by (simp_all add: default_config_def)

lemma adaptive_wait_Some:
  assumes "batcher_of xs b"
  obtains v where "p99 (b_latency b) = Some v"
    and "\<And>d. adaptive_wait b d = Some
          (if 20 < d \<or> f64_lt (f64_mul (cf_p99_slo_ms (b_cfg b)) (f64_const 3 2)) v
           then cf_min_wait_ms (b_cfg b)
           else if 5 < d then go_div (cf_max_wait_ms (b_cfg b)) 2 else cf_max_wait_ms (b_cfg b))"
  using p99_total [of xs "b_latency b"] assms by (auto simp: batcher_of_def adaptive_wait_def)

text \<open>The wait window: a batcher always computes one; it lies between the configured
  bounds when the lower one is at most half of the upper one, and a deeper queue never waits
  longer; above twenty waiting requests it is the lower bound, not zero.\<close>

theorem adaptive_wait_window:
  assumes "batcher_of xs b" and "0 \<le> cf_min_wait_ms (b_cfg b)"
    and "cf_min_wait_ms (b_cfg b) \<le> cf_max_wait_ms (b_cfg b) div 2"
  shows "\<exists>w w'. adaptive_wait b d = Some w \<and> adaptive_wait b (d + k) = Some w'
    \<and> cf_min_wait_ms (b_cfg b) \<le> w' \<and> w' \<le> w \<and> w \<le> cf_max_wait_ms (b_cfg b)
    \<and> adaptive_wait b (21 + k) = Some (cf_min_wait_ms (b_cfg b))"
proof -
  obtain v where v: "\<And>d. adaptive_wait b d = Some
          (if 20 < d \<or> f64_lt (f64_mul (cf_p99_slo_ms (b_cfg b)) (f64_const 3 2)) v
           then cf_min_wait_ms (b_cfg b)
           else if 5 < d then go_div (cf_max_wait_ms (b_cfg b)) 2 else cf_max_wait_ms (b_cfg b))"
    using adaptive_wait_Some [OF assms(1)] by blast
  have "0 \<le> cf_max_wait_ms (b_cfg b)" "cf_max_wait_ms (b_cfg b) div 2 \<le> cf_max_wait_ms (b_cfg b)"
    "cf_min_wait_ms (b_cfg b) \<le> cf_max_wait_ms (b_cfg b)"
    using assms(2,3) by linarith+
  then show ?thesis using assms(2,3) by (simp add: v)
qed

theorem adaptive_wait_window_witness:
  "\<exists>w w'. adaptive_wait (new_batcher ''m'' ''a'' default_config None :: nat batcher) 3 = Some w
    \<and> adaptive_wait (new_batcher ''m'' ''a'' default_config None :: nat batcher) 9 = Some w'
    \<and> 5 \<le> w' \<and> w' \<le> w \<and> w \<le> 30"
  using adaptive_wait_window [OF batcher_of_new [of "''m''" "''a''" default_config None], of 3 6]
  by auto

subsection \<open>Sending the results\<close>

definition free :: "channels \<Rightarrow> item list \<Rightarrow> bool" where
  "free ch is \<longleftrightarrow> distinct (map it_result_ch is) \<and> (\<forall>i \<in> set is. ch (it_result_ch i) = [])"

definition answered :: "(item \<Rightarrow> queue_result) \<Rightarrow> item list \<Rightarrow> channels \<Rightarrow> channels" where
  "answered f is ch = (\<lambda>c. case find (\<lambda>i. it_result_ch i = c) is of Some i \<Rightarrow> [f i] | None \<Rightarrow> ch c)"

lemma answered_other [simp]: "c \<notin> it_result_ch ` set is \<Longrightarrow> answered f is ch c = ch c"
  by (auto simp: answered_def find_Some_iff split: option.splits)

lemma answered_Cons:
  "answered f (i # is) ch c = (if it_result_ch i = c then [f i] else answered f is ch c)"
  by (simp add: answered_def)

lemma answered_item:
  assumes "distinct (map it_result_ch is)" "i \<in> set is"
  shows "answered f is ch (it_result_ch i) = [f i]"
proof -
  obtain j where j: "find (\<lambda>j. it_result_ch j = it_result_ch i) is = Some j"
    using assms(2) by (cases "find (\<lambda>j. it_result_ch j = it_result_ch i) is") (auto simp: find_None_iff)
  then have "j \<in> set is" "it_result_ch j = it_result_ch i"
    by (auto simp: find_Some_iff)
  with assms have "j = i" by (simp add: distinct_map inj_on_def)
  with j show ?thesis by (simp add: answered_def)
qed

lemma answered_cong:
  assumes "mset is = mset js" "distinct (map it_result_ch is)"
  shows "answered f is ch = answered f js ch"
proof
  fix c
  have "mset (map it_result_ch is) = mset (map it_result_ch js)" using assms(1) by (simp only: mset_map)
  then have d: "distinct (map it_result_ch js)" using assms(2) by (metis mset_eq_imp_distinct_iff)
  have s: "set is = set js" using assms(1) by (metis set_mset_mset)
  show "answered f is ch c = answered f js ch c"
  proof (cases "c \<in> it_result_ch ` set is")
    case True
    then obtain i where i: "i \<in> set is" "c = it_result_ch i" by blast
    then show ?thesis using answered_item [OF d, of i] answered_item [OF assms(2), of i] s by simp
  next
    case False
    then show ?thesis using s by simp
  qed
qed

lemma send_all_free:
  assumes "free ch is"
  shows "send_all f is ch = Some (answered f is ch)"
  using assms
proof (induction "is" arbitrary: ch)
  case Nil
  then show ?case by (simp add: answered_def)
next
  case (Cons i "is")
  let ?ch = "ch(it_result_ch i := [f i])"
  have "free ?ch is" using Cons.prems by (auto simp: free_def) (metis image_eqI)
  moreover have "it_result_ch i \<notin> it_result_ch ` set is" using Cons.prems by (simp add: free_def)
  then have "answered f is ?ch = answered f (i # is) ch"
    by (auto simp: answered_Cons fun_eq_iff) (simp add: answered_def split: option.splits)
  moreover have "send (it_result_ch i) (f i) ch = Some ?ch" using Cons.prems by (simp add: send_def free_def)
  ultimately show ?case using Cons.IH [of ?ch] by (simp only: send_all.simps option.case)
qed

lemma free_cong:
  assumes "mset is = mset js" "free ch is"
  shows "free ch js"
proof -
  have "mset (map it_result_ch is) = mset (map it_result_ch js)" using assms(1) by (simp only: mset_map)
  then have "distinct (map it_result_ch js)" using assms(2) unfolding free_def by (metis mset_eq_imp_distinct_iff)
  then show ?thesis using assms mset_eq_setD [OF assms(1)] by (simp add: free_def)
qed

subsection \<open>Dispatch delivers\<close>

text \<open>\<open>usable w b\<close>: the batcher has its client, or has not dialled yet and will succeed.\<close>

definition usable :: "'c result \<Rightarrow> 'c batcher \<Rightarrow> bool" where
  "usable dial b \<longleftrightarrow> (if b_conn_once b then b_exec_client b \<noteq> None else \<exists>c. dial = Inr c)"

definition client_of :: "'c result \<Rightarrow> 'c batcher \<Rightarrow> 'c" where
  "client_of dial b =
     (if b_conn_once b then the (b_exec_client b) else case dial of Inr c \<Rightarrow> c | Inl e \<Rightarrow> undefined)"

lemma exec_client_usable:
  assumes "usable dial b"
  shows "exec_client_lazy b dial =
    (b\<lparr>b_conn_once := True, b_exec_client := Some (client_of dial b)\<rparr>, Inr (Some (client_of dial b)))"
  using assms by (auto simp: usable_def client_of_def exec_client_lazy_def split: if_splits)

lemma log_batch_frame [simp, frame]:
  "b_cfg (log_batch b n s x y r ok) = b_cfg b" "b_latency (log_batch b n s x y r ok) = b_latency b"
  "b_conn_once (log_batch b n s x y r ok) = b_conn_once b"
  "b_exec_client (log_batch b n s x y r ok) = b_exec_client b"
  "b_model_id (log_batch b n s x y r ok) = b_model_id b"
  by (simp_all add: log_batch_def Let_def split: option.splits list.splits)

lemma dispatch_usable:
  assumes "batcher_of xs b" "usable (w_dial w) b" "free ch items" "mset (w_order w items) = mset items"
  defines "c \<equiv> client_of (w_dial w) b"
  obtains b' where "dispatch w b m items ch = Some (b', metrics_record m (length items),
      answered (item_result (w_now w) (w_execute w) c) items ch)"
    and "batcher_of (xs @ [f64_of_int (to_millis (w_elapsed w))]) b'"
    and "b_conn_once b'" "b_exec_client b' = Some c" "b_cfg b' = b_cfg b"
proof -
  let ?b = "b\<lparr>b_conn_once := True, b_exec_client := Some c\<rparr>"
  let ?t = "f64_of_int (to_millis (w_elapsed w))"
  have h: "hist_of 1000 xs (b_latency ?b)" using assms(1) by (simp add: batcher_of_def)
  obtain h' where h': "hist_record (b_latency ?b) ?t = Some h'" using hist_record_Some [OF h] by auto
  have bo: "batcher_of (xs @ [?t]) (?b\<lparr>b_latency := h'\<rparr>)"
    using hist_record_of [OF h _ h'] by (simp add: batcher_of_def)
  obtain wt where wt: "adaptive_wait (?b\<lparr>b_latency := h'\<rparr>) (w_depth w) = Some wt"
    using adaptive_wait_Some [OF bo] by metis
  have d: "default_dispatch (w_now w) (w_execute w) (w_order w) items (Some c) ch
      = Some (answered (item_result (w_now w) (w_execute w) c) items ch)"
    using send_all_free [OF free_cong [OF assms(4) [symmetric] assms(3)]]
      answered_cong [OF assms(4)] free_cong [OF assms(4) [symmetric] assms(3)]
    by (simp add: default_dispatch_def free_def)
  let ?b' = "log_batch (?b\<lparr>b_latency := h'\<rparr>) (w_nanos w) (length items) (f64_of_int wt) ?t [] (w_insert_ok w)"
  have "dispatch w b m items ch = Some (?b', metrics_record m (length items),
      answered (item_result (w_now w) (w_execute w) c) items ch)"
    using d h' wt unfolding dispatch_def exec_client_usable [OF assms(2), folded c_def]
    by (simp add: batch_done_def Let_def)
  moreover have "batcher_of (xs @ [?t]) ?b'" using bo by (simp add: batcher_of_def)
  ultimately show ?thesis using that by simp
qed

text \<open>A dispatch with a usable executor client answers every item of the batch exactly
  once, on its own channel, with the executor's answer or error to the request the item
  stands for, in whatever order the goroutines finish; no other channel is touched and the
  batch is counted once.\<close>

theorem dispatch_answers:
  assumes "batcher_of xs b" "usable (w_dial w) b" "free ch items" "mset (w_order w items) = mset items"
    and "i \<in> set items"
  shows "\<exists>b' m' ch'. dispatch w b m items ch = Some (b', m', ch')
    \<and> ch' (it_result_ch i) = [item_result (w_now w) (w_execute w) (client_of (w_dial w) b) i]
    \<and> (\<forall>c. c \<notin> it_result_ch ` set items \<longrightarrow> ch' c = ch c)
    \<and> m' = metrics_record m (length items)
    \<and> batcher_of (xs @ [f64_of_int (to_millis (w_elapsed w))]) b'"
proof -
  obtain b' where b': "dispatch w b m items ch = Some (b', metrics_record m (length items),
      answered (item_result (w_now w) (w_execute w) (client_of (w_dial w) b)) items ch)"
    "batcher_of (xs @ [f64_of_int (to_millis (w_elapsed w))]) b'"
    using dispatch_usable [OF assms(1-4), of m] by metis
  moreover have "answered f items ch (it_result_ch i) = [f i]" for f
    using answered_item [OF _ assms(5)] assms(3) by (simp add: free_def)
  ultimately show ?thesis by simp
qed

definition demo_world :: "nat world" where
  "demo_world = \<lparr>w_cancelled = False, w_depth_before = 2, w_dial = Inr 7, w_now = (\<lambda>i. 3 * millisecond),
     w_execute = (\<lambda>c i r. if it_result_ch i = 1 then Inl (Status Unavailable ''down'')
        else Inr \<lparr>ex_request_id = er_request_id r, ex_model_id = er_model_id r, ex_content = ''hi'',
               ex_embedding = [], ex_scores = [], ex_tokens_input = 1, ex_tokens_output = 2,
               ex_latency_ms = f64_zero\<rparr>),
     w_order = rev, w_elapsed = 4 * millisecond, w_depth = 0, w_nanos = 0, w_insert_ok = True\<rparr>"

definition demo_batcher :: "nat batcher" where
  "demo_batcher = new_batcher ''m'' ''addr'' default_config (Some [])"

lemma demo_batcher_of: "batcher_of [] demo_batcher" "usable (w_dial demo_world) demo_batcher"
  by (simp add: demo_batcher_def batcher_of_new)
    (simp add: demo_batcher_def new_batcher_def usable_def demo_world_def)

theorem dispatch_answers_witness:
  "\<exists>b' m' ch'. dispatch demo_world demo_batcher zero_batch_metrics
       [demo_item PriorityHigh 1, demo_item PriorityHigh 2] (\<lambda>c. []) = Some (b', m', ch')
     \<and> ch' 1 = [\<lparr>qr_resp = None, qr_err = Some (Status Unavailable ''down''),
                 qr_wait_ms = f64_of_int 3\<rparr>]
     \<and> bm_requests_processed m' = 2"
proof -
  have f: "free (\<lambda>c. []) [demo_item PriorityHigh 1, demo_item PriorityHigh 2]"
    by (simp add: free_def demo_item_def)
  have o: "mset (w_order demo_world [demo_item PriorityHigh 1, demo_item PriorityHigh 2])
      = mset [demo_item PriorityHigh 1, demo_item PriorityHigh 2]"
    by (simp add: demo_world_def)
  have "item_result (w_now demo_world) (w_execute demo_world) c (demo_item PriorityHigh 1)
      = \<lparr>qr_resp = None, qr_err = Some (Status Unavailable ''down''), qr_wait_ms = f64_of_int 3\<rparr>" for c
    by (simp add: item_result_def demo_world_def demo_item_def to_millis_def)
  then show ?thesis
    using dispatch_answers [OF demo_batcher_of f o, of "demo_item PriorityHigh 1" zero_batch_metrics]
    by (auto simp: demo_item_def metrics_record_def zero_batch_metrics_def)
qed

subsection \<open>A failed dial\<close>

lemma dispatch_dial_failure:
  assumes "\<not> b_conn_once b" "w_dial w = Inl e" "free ch items"
  shows "dispatch w b m items ch
    = Some (b\<lparr>b_conn_once := True\<rparr>, m, answered (\<lambda>i. dial_failure e) items ch)"
  using assms by (simp add: dispatch_def exec_client_lazy_def send_all_free)

lemma dispatch_nil_client:
  assumes "b_conn_once b" "b_exec_client b = None" "items \<noteq> []"
  shows "dispatch w b m items ch = None"
  using assms by (simp add: dispatch_def exec_client_lazy_def default_dispatch_def)

text \<open>C29. A dial that fails is remembered as done: the batch that met the failure is answered
  with dial errors, and every later batch of that batcher calls a nil client and brings the
  process down, whatever dialling would return then.\<close>

theorem dial_failure_is_final:
  assumes "\<not> b_conn_once b" "b_exec_client b = None" "w_dial w = Inl e" "free ch items" "later \<noteq> []"
  shows "\<exists>b' ch'. dispatch w b m items ch = Some (b', m, ch')
    \<and> (\<forall>i \<in> set items. ch' (it_result_ch i) = [dial_failure e])
    \<and> dispatch w' b' m' later ch'' = None"
proof -
  have "\<forall>i \<in> set items. answered (\<lambda>i. dial_failure e) items ch (it_result_ch i) = [dial_failure e]"
    using assms(4) answered_item [of items] by (simp add: free_def)
  then show ?thesis
    using dispatch_dial_failure [OF assms(1,3,4), of m] dispatch_nil_client [of "b\<lparr>b_conn_once := True\<rparr>"] assms(2,5)
    by simp
qed

theorem dial_failure_is_final_witness:
  "\<exists>b' ch'. dispatch (demo_world\<lparr>w_dial := Inl (Plain ''bad address'')\<rparr>) demo_batcher zero_batch_metrics
       [demo_item PriorityHigh 1] (\<lambda>c. []) = Some (b', zero_batch_metrics, ch')
     \<and> ch' 1 = [dial_failure (Plain ''bad address'')]
     \<and> dispatch demo_world b' zero_batch_metrics [demo_item PriorityHigh 2] (\<lambda>c. []) = None"
proof -
  have "free (\<lambda>c. []) [demo_item PriorityHigh 1]" by (simp add: free_def)
  then show ?thesis
    using dial_failure_is_final [of demo_batcher "demo_world\<lparr>w_dial := Inl (Plain ''bad address'')\<rparr>"
        "Plain ''bad address''" "\<lambda>c. []" "[demo_item PriorityHigh 1]" "[demo_item PriorityHigh 2]"
        zero_batch_metrics demo_world zero_batch_metrics "\<lambda>c. []"]
    by (simp add: demo_batcher_def new_batcher_def demo_world_def demo_item_def)
qed

subsection \<open>The loop empties the queue\<close>

lemma loop_turn_usable:
  assumes "batcher_of xs b" "usable (w_dial w) b" "free ch (service_order q)"
    "\<And>is. mset (w_order w is) = mset is"
  obtains b' m' ch' where
    "loop_turn w b q m ch = Some (b', snd (drain q (cf_max_batch_size (b_cfg b))), m', ch')"
    and "\<exists>xs'. batcher_of xs' b'" and "usable dial b \<Longrightarrow> usable dial b'" and "b_cfg b' = b_cfg b"
    and "\<And>i. i \<in> set (fst (drain q (cf_max_batch_size (b_cfg b)))) \<Longrightarrow> \<exists>r. ch' (it_result_ch i) = [r]"
    and "\<And>c. c \<notin> it_result_ch ` set (fst (drain q (cf_max_batch_size (b_cfg b)))) \<Longrightarrow> ch' c = ch c"
    and "bm_requests_processed m' = bm_requests_processed m
           + of_nat (length (fst (drain q (cf_max_batch_size (b_cfg b)))))"
proof -
  let ?n = "cf_max_batch_size (b_cfg b)"
  let ?o = "fst (drain q ?n)"
  obtain wt where wt: "adaptive_wait b (w_depth_before w) = Some wt"
    using adaptive_wait_Some [OF assms(1)] by metis
  show ?thesis
  proof (cases "?o = []")
    case True
    then show ?thesis
      using wt assms(1,2) by (intro that [of b m ch]) (auto simp: loop_turn_def case_prod_unfold Let_def)
  next
    case False
    have "free ch (?o @ service_order (snd (drain q ?n)))" using assms(3) by (simp only: mq.batch_split)
    then have f: "free ch ?o" by (auto simp: free_def)
    obtain b' where b': "dispatch w b m ?o ch = Some (b', metrics_record m (length ?o),
        answered (item_result (w_now w) (w_execute w) (client_of (w_dial w) b)) ?o ch)"
      "batcher_of (xs @ [f64_of_int (to_millis (w_elapsed w))]) b'"
      "b_conn_once b'" "b_exec_client b' = Some (client_of (w_dial w) b)" "b_cfg b' = b_cfg b"
      using dispatch_usable [OF assms(1,2) f assms(4)] by blast
    show ?thesis
      using wt b' False f answered_item [of ?o]
      by (intro that [of b' "metrics_record m (length ?o)"
            "answered (item_result (w_now w) (w_execute w) (client_of (w_dial w) b)) ?o ch"])
        (auto simp: loop_turn_def case_prod_unfold Let_def usable_def free_def metrics_record_def)
  qed
qed

text \<open>What the loop and its callers do to the queue, as a run of the queue.\<close>

definition loop_ops :: "int \<Rightarrow> item list list \<Rightarrow> queue_op list" where
  "loop_ops n arrivals = concat (map (\<lambda>is. map Enq is @ [Drn n]) arrivals)"

lemma queue_run_mset:
  assumes "queue_run q ops = (acc, rej, out, q')"
  shows "mset (out @ service_order q') = mset (service_order q @ acc)"
  using assms
proof (induction ops arbitrary: q acc rej out)
  case Nil
  then show ?case by simp
next
  case (Cons op ops)
  show ?case
  proof (cases op)
    case (Enq i)
    show ?thesis
      using Cons.prems unfolding Enq
      by (rule queue_run_EnqE) (use Cons.IH in \<open>force simp: enqueue_mset\<close>)
  next
    case (Drn n)
    have "mset (fst (drain q n)) + mset (service_order (snd (drain q n))) = mset (service_order q)"
      by (metis mq.batch_split mset_append)
    then show ?thesis
      using Cons.prems unfolding Drn
      by (elim queue_run_DrnE) (use Cons.IH in \<open>force simp: add.assoc\<close>)
  qed
qed

lemma queue_run_append:
  assumes "queue_run q (ops @ ops') = (acc, rej, out, q')"
  obtains acc1 rej1 out1 q1 acc2 rej2 out2 where
    "queue_run q ops = (acc1, rej1, out1, q1)" "queue_run q1 ops' = (acc2, rej2, out2, q')"
    "acc = acc1 @ acc2" "rej = rej1 @ rej2" "out = out1 @ out2"
proof -
  have "queue_run q (ops @ ops') =
     (let (acc, rej, out, q1) = queue_run q ops; (acc', rej', out', q2) = queue_run q1 ops'
      in (acc @ acc', rej @ rej', out @ out', q2))"
  proof (induction ops arbitrary: q)
    case Nil
    then show ?case by (simp add: case_prod_unfold Let_def)
  next
    case (Cons op ops)
    then show ?case by (cases op) (simp_all add: case_prod_unfold Let_def)
  qed
  then show ?thesis
    using assms that by (auto simp: case_prod_unfold Let_def) (metis prod.collapse)
qed

lemma queue_run_Enqs:
  "queue_run q (map Enq is) = (acc, rej, out, q') \<Longrightarrow> q' = enqueue_all q is \<and> out = []"
  by (induction "is" arbitrary: q acc rej) (auto elim!: queue_run_EnqE simp del: queue_run.simps(2))

lemma loop_ops_ConsE:
  assumes "queue_run q (loop_ops n (is # arrivals)) = (acc, rej, out, q')"
  obtains acc1 acc2 rej2 out2 where
    "mset (service_order (enqueue_all q is)) = mset (service_order q @ acc1)"
    "queue_run (snd (drain (enqueue_all q is) n)) (loop_ops n arrivals) = (acc2, rej2, out2, q')"
    "acc = acc1 @ acc2" "out = fst (drain (enqueue_all q is) n) @ out2"
proof -
  have "queue_run q (map Enq is @ Drn n # loop_ops n arrivals) = (acc, rej, out, q')"
    using assms by (simp add: loop_ops_def)
  then obtain acc1 rej1 out1 q1 acc2 rej2 out2 where
    r: "queue_run q (map Enq is) = (acc1, rej1, out1, q1)"
      "queue_run q1 (Drn n # loop_ops n arrivals) = (acc2, rej2, out2, q')"
    and e: "acc = acc1 @ acc2" "out = out1 @ out2"
    by (rule queue_run_append)
  have q1: "q1 = enqueue_all q is" "out1 = []" using queue_run_Enqs [OF r(1)] by simp_all
  have "mset (service_order (enqueue_all q is)) = mset (service_order q @ acc1)"
    using queue_run_mset [OF r(1)] by (simp add: q1)
  then show ?thesis
    using r(2) e q1 by (elim queue_run_DrnE) (auto intro: that)
qed

lemma loop_ops_quiet:
  assumes "queue_run q (loop_ops n (replicate k [])) = (acc, rej, out, q')"
  shows "depth q' = depth q - k * nat n \<and> acc = []"
  using assms
proof (induction k arbitrary: q acc rej out)
  case 0
  then show ?case by (simp add: loop_ops_def)
next
  case (Suc k)
  have "queue_run q (Drn n # loop_ops n (replicate k [])) = (acc, rej, out, q')"
    using Suc.prems by (simp add: loop_ops_def)
  then show ?case by (rule queue_run_DrnE) (use Suc.IH in \<open>simp add: drain_depth\<close>)
qed

text \<open>The loop does exactly that, and what it hands out is answered.\<close>

lemma loop_turns_run:
  assumes "batcher_of xs b" "usable dial b" "cf_max_batch_size (b_cfg b) = n"
    and "queue_run q (loop_ops n (map fst ws)) = (acc, rej, out, q')" "free ch (service_order q @ acc)"
    and "\<forall>(is, w) \<in> set ws. \<not> w_cancelled w \<and> w_dial w = dial \<and> (\<forall>is. mset (w_order w is) = mset is)"
  shows "\<exists>b' m' ch'. loop_turns ws b q m ch = Some (b', q', m', ch')
    \<and> (\<forall>i \<in> set out. \<exists>r. ch' (it_result_ch i) = [r])
    \<and> (\<forall>c. c \<notin> it_result_ch ` set out \<longrightarrow> ch' c = ch c)
    \<and> bm_requests_processed m' = bm_requests_processed m + of_nat (length out)"
  using assms
proof (induction ws arbitrary: xs b q m ch acc rej out)
  case Nil
  then show ?case by (simp add: loop_ops_def)
next
  case (Cons aw ws)
  obtain "is" w where aw: "aw = (is, w)" by (cases aw)
  let ?q1 = "enqueue_all q is"
  let ?o = "fst (drain ?q1 n)" and ?q = "snd (drain ?q1 n)"
  have w: "\<not> w_cancelled w" "w_dial w = dial" "\<And>is. mset (w_order w is) = mset is"
    using Cons.prems(6) by (simp_all add: aw)
  obtain acc1 acc2 rej2 out2 where
    acc1: "mset (service_order ?q1) = mset (service_order q @ acc1)"
    and r2: "queue_run ?q (loop_ops n (map fst ws)) = (acc2, rej2, out2, q')"
    and e: "acc = acc1 @ acc2" "out = ?o @ out2"
    using Cons.prems(4) by (auto simp: aw elim: loop_ops_ConsE)
  have split: "?o @ service_order ?q = service_order ?q1" by (rule mq.batch_split)
  have "mset (service_order q @ acc) = mset (?o @ service_order ?q @ acc2)"
    using acc1 e(1) split by (metis append_assoc mset_append)
  then have f: "free ch (?o @ service_order ?q @ acc2)" by (rule free_cong) (rule Cons.prems(5))
  have f1: "free ch (service_order ?q1)" using f split by (auto simp: free_def split [symmetric])
  obtain b1 m1 ch1 where t: "loop_turn w b ?q1 m ch = Some (b1, ?q, m1, ch1)"
    and b1: "\<exists>xs'. batcher_of xs' b1" "usable dial b1" "b_cfg b1 = b_cfg b"
    and ch1: "\<And>i. i \<in> set ?o \<Longrightarrow> \<exists>r. ch1 (it_result_ch i) = [r]"
      "\<And>c. c \<notin> it_result_ch ` set ?o \<Longrightarrow> ch1 c = ch c"
    and m1: "bm_requests_processed m1 = bm_requests_processed m + of_nat (length ?o)"
    using loop_turn_usable [OF Cons.prems(1) Cons.prems(2) [folded w(2)] f1 w(3), of m] Cons.prems(2,3)
    by metis
  obtain xs1 where xs1: "batcher_of xs1 b1" using b1(1) ..
  have dis: "it_result_ch i \<notin> it_result_ch ` set ?o" if "i \<in> set (service_order ?q @ acc2)" for i
    using f that by (auto simp: free_def)
  then have f2: "free ch1 (service_order ?q @ acc2)"
    using f ch1(2) by (auto simp: free_def)
  obtain b' m' ch' where r: "loop_turns ws b1 ?q m1 ch1 = Some (b', q', m', ch')"
      "\<forall>i \<in> set out2. \<exists>r. ch' (it_result_ch i) = [r]"
      "\<forall>c. c \<notin> it_result_ch ` set out2 \<longrightarrow> ch' c = ch1 c"
      "bm_requests_processed m' = bm_requests_processed m1 + of_nat (length out2)"
    using Cons.IH [OF xs1 b1(2) _ r2 f2, of m1] Cons.prems(3,6) b1(3) by auto
  have "set out2 \<subseteq> set (service_order ?q @ acc2)"
    using arg_cong [OF queue_run_mset [OF r2], of set_mset] by auto
  then have dis2: "it_result_ch j \<notin> it_result_ch ` set ?o" if "j \<in> set out2" for j
    using dis that by blast
  have "it_result_ch i \<notin> it_result_ch ` set out2" if i: "i \<in> set ?o" for i
  proof
    assume "it_result_ch i \<in> it_result_ch ` set out2"
    then obtain j where "j \<in> set out2" "it_result_ch i = it_result_ch j" by (rule imageE)
    then show False using dis2 [of j] i by (metis imageI)
  qed
  then have "\<exists>r. ch' (it_result_ch i) = [r]" if "i \<in> set ?o" for i
    using r(3) ch1(1) [OF that] that by simp
  then show ?case using t r w(1) ch1(2) m1 by (auto simp: aw e(2) add.assoc image_Un)
qed

text \<open>C24. No accepted request is forgotten, whatever arrives meanwhile: while the executor is
  reachable, the context lives and every item has a channel of its own that is still empty,
  the loop hands out items and puts exactly one result on the channel of each; and when
  arrivals cease, the queue is empty after as many turns as batches fit into its depth
  limit, so that every item that was waiting or was accepted during the run has its result.
  No other channel is written. While more urgent requests keep arriving, a less urgent one
  can wait for as long as they do.\<close>

theorem loop_answers_all:
  assumes "batcher_of xs b" "usable dial b" "queue_inv q"
    and "\<forall>(is, w) \<in> set (ws @ quiet). \<not> w_cancelled w \<and> w_dial w = dial \<and> (\<forall>is. mset (w_order w is) = mset is)"
    and "\<forall>(is, w) \<in> set quiet. is = []"
    and "queue_run q (loop_ops (cf_max_batch_size (b_cfg b)) (map fst (ws @ quiet))) = (acc, rej, out, q')"
    and "free ch (service_order q @ acc)"
    and "mq_max_depth q \<le> int (length quiet * nat (cf_max_batch_size (b_cfg b)))"
  shows "\<exists>b' m' ch'. loop_turns (ws @ quiet) b q m ch = Some (b', q', m', ch') \<and> depth q' = 0
    \<and> mset out = mset (service_order q @ acc)
    \<and> (\<forall>i \<in> set (service_order q @ acc). \<exists>r. ch' (it_result_ch i) = [r])
    \<and> (\<forall>c. c \<notin> it_result_ch ` set (service_order q @ acc) \<longrightarrow> ch' c = ch c)
    \<and> bm_requests_processed m' = bm_requests_processed m + of_nat (length out)"
proof -
  let ?n = "cf_max_batch_size (b_cfg b)"
  have "map fst quiet = replicate (length quiet) []"
    using assms(5) by (intro replicate_eqI) auto
  then have "queue_run q (loop_ops ?n (map fst ws) @ loop_ops ?n (replicate (length quiet) [])) = (acc, rej, out, q')"
    using assms(6) by (simp add: loop_ops_def)
  then obtain acc1 rej1 out1 q1 acc2 rej2 out2 where
    r: "queue_run q (loop_ops ?n (map fst ws)) = (acc1, rej1, out1, q1)"
      "queue_run q1 (loop_ops ?n (replicate (length quiet) [])) = (acc2, rej2, out2, q')"
    by (rule queue_run_append)
  have "int (depth q1) \<le> max 0 (mq_max_depth q)"
    using queue_run_lanes [OF assms(3) r(1), of 0] by (auto simp: queue_inv_def)
  then have d: "depth q' = 0" using loop_ops_quiet [OF r(2)] assms(8) by auto
  then have "service_order q' = []" by (metis length_0_conv length_service_order)
  then have "mset out = mset (service_order q @ acc)" using queue_run_mset [OF assms(6)] by simp
  moreover from this have "set out = set (service_order q @ acc)" by (metis set_mset_mset)
  ultimately show ?thesis
    using loop_turns_run [OF assms(1,2) refl assms(6,7,4), of m] d by auto
qed

definition quiet_queue :: model_queue where
  "quiet_queue = \<lparr>mq_high = [], mq_normal = [], mq_low = [], mq_max_depth = 3,
     mq_enqueued = 4, mq_dropped = 1, mq_dispatched = 4\<rparr>"

theorem loop_answers_all_witness:
  "\<exists>b' m' ch'. loop_turns ([([demo_item PriorityHigh 4], demo_world), ([demo_item PriorityLow 5], demo_world)]
       @ [([], demo_world)]) demo_batcher demo_queue zero_batch_metrics (\<lambda>c. []) = Some (b', quiet_queue, m', ch')
     \<and> (\<exists>r. ch' 1 = [r]) \<and> (\<exists>r. ch' 5 = [r]) \<and> ch' 4 = [] \<and> bm_requests_processed m' = 4"
proof -
  have o: "queue_run demo_queue (loop_ops 16 [[demo_item PriorityHigh 4], [demo_item PriorityLow 5], []])
      = ([demo_item PriorityLow 5], [demo_item PriorityHigh 4],
         [demo_item PriorityCritical 3, demo_item PriorityNormal 2, demo_item PriorityLow 1, demo_item PriorityLow 5],
         quiet_queue)"
    by (simp add: loop_ops_def quiet_queue_def demo_queue_def drain_def drain_loop.simps enqueue_def
        new_model_queue_def demo_item_def zero_request_def Let_def)
  have s: "service_order demo_queue = [demo_item PriorityCritical 3, demo_item PriorityNormal 2, demo_item PriorityLow 1]"
    by (simp add: demo_queue_def service_order_def enqueue_def new_model_queue_def
        demo_item_def zero_request_def Let_def)
  have f: "free (\<lambda>c. []) (service_order demo_queue @ [demo_item PriorityLow 5])" by (simp add: s free_def demo_item_def)
  have w: "\<not> w_cancelled demo_world" "\<And>is. mset (w_order demo_world is) = mset is"
    by (simp_all add: demo_world_def)
  have c: "b_cfg demo_batcher = default_config" by (simp add: demo_batcher_def)
  have d: "mq_max_depth demo_queue = 3"
    by (simp add: demo_queue_def enqueue_def new_model_queue_def demo_item_def zero_request_def Let_def)
  show ?thesis
    using loop_answers_all [OF demo_batcher_of demo_queue_inv, of
        "[([demo_item PriorityHigh 4], demo_world), ([demo_item PriorityLow 5], demo_world)]" "[([], demo_world)]"
        "[demo_item PriorityLow 5]" "[demo_item PriorityHigh 4]"
        "[demo_item PriorityCritical 3, demo_item PriorityNormal 2, demo_item PriorityLow 1, demo_item PriorityLow 5]"
        quiet_queue "\<lambda>c. []" zero_batch_metrics] o f w
    by (auto simp: c d s demo_item_def zero_batch_metrics_def)
qed

end
