(* ===== verification/UnitInterval.thy ===== *)
theory UnitInterval
  imports Float64
begin

section \<open>Floats between zero and one\<close>

text \<open>
  Scores, rates, weights and rollout percentages are numbers between 0 and 1. The theory
  shows that the expressions the router computes them with stay there in rounded
  arithmetic: rounding is monotone and 0 and 1 are representable.
\<close>

abbreviation f64_one :: f64 where "f64_one \<equiv> f64_of_int 1"

lemma f64_one_props [simp]: "f64_val f64_one = 1" "f64_finite f64_one" "0 < f64_key f64_one"
proof -
  show o: "f64_val f64_one = 1" "f64_finite f64_one"
    using f64_of_int_exact [of 1] by simp_all
  then show "0 < f64_key f64_one" using f64_val_less_iff [of f64_zero f64_one] by simp
qed

definition f64_unit :: "f64 \<Rightarrow> bool" where
  "f64_unit x \<longleftrightarrow> f64_finite x \<and> 0 \<le> f64_key x \<and> f64_key x \<le> f64_key f64_one"

lemma f64_unit_val: "f64_unit x \<longleftrightarrow> f64_finite x \<and> 0 \<le> f64_val x \<and> f64_val x \<le> 1"
  using f64_val_le_iff [of f64_zero x] f64_val_le_iff [of x f64_one] by (simp add: f64_unit_def)

lemma f64_unit_const [simp]: "f64_unit f64_zero" "f64_unit f64_one"
  by (simp_all add: f64_unit_val)

lemma f64_unit_finite: "f64_unit x \<Longrightarrow> f64_finite x"
  by (simp add: f64_unit_def)

lemma f64_unit_not_nan: "f64_unit x \<Longrightarrow> \<not> f64_is_nan x"
  using f64_class [of x] by (simp add: f64_unit_def)

lemma f64_finite_const:
  assumes "0 < b" "0 \<le> a" "a < 2 ^ 53 * b"
  shows "f64_finite (f64_const a b)" "0 \<le> f64_key (f64_const a b)"
proof -
  have k: "f64_key (f64_const a b) = rnd_key (of_int a / of_int b)"
    using f64_const_props(1) [OF assms(1)] .
  have "0 \<le> rnd_key (of_int a / of_int b)" using rnd_key_ge [of f64_zero "of_int a / of_int b"] assms by simp
  then show p: "0 \<le> f64_key (f64_const a b)" by (simp add: k)
  obtain d where d: "f64_finite d" "f64_val d = of_int 1 * 2 powi 53" using f64_dyadic [of 1 53] by auto
  have "real_of_int a \<le> real_of_int (2 ^ 53 * b)" using assms(3) by (simp only: of_int_le_iff)
  then have "of_int a / of_int b \<le> f64_val d" using assms(1) d(2) by (simp add: field_simps)
  then have "f64_key (f64_const a b) \<le> f64_key d" using rnd_key_le [OF d(1)] by (simp add: k)
  then show "f64_finite (f64_const a b)" using f64_finite_between [OF f64_zero_props(3) d(1)] p by simp
qed

lemma f64_unit_constI:
  assumes "0 < b" "0 \<le> a" "a \<le> b"
  shows "f64_unit (f64_const a b)"
proof -
  have "f64_key (f64_const a b) = rnd_key (of_int a / of_int b)" using f64_const_props(1) [OF assms(1)] .
  moreover have "rnd_key (of_int a / of_int b) \<le> f64_key f64_one"
    using assms by (intro rnd_key_le) simp_all
  moreover have "0 \<le> rnd_key (of_int a / of_int b)"
    using rnd_key_ge [of f64_zero "of_int a / of_int b"] assms by simp
  ultimately show ?thesis
    using f64_finite_between [of f64_zero f64_one "f64_const a b"] by (simp add: f64_unit_def)
qed

text \<open>Products and sums of nonnegative numbers are monotone.\<close>

lemma f64_mul_mono:
  assumes "f64_finite w" "f64_finite x" "f64_finite y" "0 \<le> f64_key w" "f64_key x \<le> f64_key y"
  shows "f64_key (f64_mul w x) \<le> f64_key (f64_mul w y)"
proof -
  have "0 \<le> f64_val w" using assms(4) f64_val_le_iff [of f64_zero w] by simp
  moreover have "f64_val x \<le> f64_val y" using assms(5) by (simp add: f64_val_le_iff)
  ultimately show ?thesis
    using assms by (simp add: f64_mul_props(1) rnd_key_mono mult_left_mono)
qed

lemma f64_mul_unit:
  assumes "f64_finite w" "0 \<le> f64_key w" "f64_unit x"
  shows "f64_finite (f64_mul w x)" "0 \<le> f64_key (f64_mul w x)" "f64_key (f64_mul w x) \<le> f64_key w"
proof -
  have v: "0 \<le> f64_val w" using assms(2) f64_val_le_iff [of f64_zero w] by simp
  have x: "0 \<le> f64_val x" "f64_val x \<le> 1" "f64_finite x" using assms(3) by (simp_all add: f64_unit_val)
  have k: "f64_key (f64_mul w x) = rnd_key (f64_val w * f64_val x)" using f64_mul_props(1) assms(1) x(3) by blast
  show l: "0 \<le> f64_key (f64_mul w x)"
    using rnd_key_ge [of f64_zero "f64_val w * f64_val x"] v x by (simp add: k)
  show u: "f64_key (f64_mul w x) \<le> f64_key w"
    using rnd_key_le [OF assms(1), of "f64_val w * f64_val x"] v x mult_left_mono [of "f64_val x" 1 "f64_val w"]
    by (simp add: k)
  show "f64_finite (f64_mul w x)" using f64_finite_between [OF f64_zero_props(3) assms(1)] l u by simp
qed

lemma f64_unit_mul: "f64_unit x \<Longrightarrow> f64_unit y \<Longrightarrow> f64_unit (f64_mul x y)"
  using f64_mul_unit [of x y] by (auto simp: f64_unit_def)

lemma f64_add_mono:
  assumes "f64_finite a" "f64_finite b" "f64_finite A" "f64_finite B"
    and "f64_key a \<le> f64_key A" "f64_key b \<le> f64_key B"
  shows "f64_key (f64_add a b) \<le> f64_key (f64_add A B)"
  using assms by (simp add: f64_add_props(1) rnd_key_mono add_mono f64_val_le_iff)

lemma f64_add_bounds:
  assumes "f64_finite a" "f64_finite b" "f64_finite A" "f64_finite B" "f64_finite (f64_add A B)"
    and "0 \<le> f64_key a" "0 \<le> f64_key b" "f64_key a \<le> f64_key A" "f64_key b \<le> f64_key B"
  shows "f64_finite (f64_add a b)" "0 \<le> f64_key (f64_add a b)"
    "f64_key (f64_add a b) \<le> f64_key (f64_add A B)"
proof -
  have v: "0 \<le> f64_val a" "0 \<le> f64_val b"
    using assms(6,7) f64_val_le_iff [of f64_zero a] f64_val_le_iff [of f64_zero b] by simp_all
  show l: "0 \<le> f64_key (f64_add a b)"
    using rnd_key_ge [of f64_zero "f64_val a + f64_val b"] v assms by (simp add: f64_add_props(1))
  show u: "f64_key (f64_add a b) \<le> f64_key (f64_add A B)" using assms by (intro f64_add_mono)
  show "f64_finite (f64_add a b)" using f64_finite_between [OF f64_zero_props(3) assms(5)] l u by simp
qed

text \<open>\<open>math.Max(0, 1 - x)\<close>, the shape of the decreasing scores.\<close>

lemma f64_one_minus:
  assumes "f64_finite x" "0 \<le> f64_key x"
  shows "f64_finite (f64_sub f64_one x)" "f64_key (f64_sub f64_one x) \<le> f64_key f64_one"
proof -
  have v: "0 \<le> f64_val x" using assms(2) f64_val_le_iff [of f64_zero x] by simp
  have k: "f64_key (f64_sub f64_one x) = rnd_key (1 - f64_val x)"
    using f64_sub_props(1) [OF f64_one_props(2) assms(1)] by simp
  show u: "f64_key (f64_sub f64_one x) \<le> f64_key f64_one"
    using rnd_key_le [of f64_one "1 - f64_val x"] v by (simp add: k)
  have "f64_key (f64_neg x) \<le> f64_key (f64_sub f64_one x)"
    using rnd_key_ge [of "f64_neg x" "1 - f64_val x"] assms(1) by (simp add: k)
  then show "f64_finite (f64_sub f64_one x)"
    using f64_finite_between [of "f64_neg x" f64_one] assms(1) u by simp
qed

definition f64_drop :: "f64 \<Rightarrow> f64" where
  "f64_drop x = f64_max f64_zero (f64_sub f64_one x)"

lemma f64_unit_drop:
  assumes "f64_finite x" "0 \<le> f64_key x"
  shows "f64_unit (f64_drop x)"
  using f64_one_minus [OF assms] f64_max_props [of f64_zero "f64_sub f64_one x"]
  by (simp add: f64_unit_def f64_drop_def order_less_imp_le)

lemma f64_drop_antimono:
  assumes "f64_finite x" "f64_finite y" "0 \<le> f64_key x" "f64_key x \<le> f64_key y"
  shows "f64_key (f64_drop y) \<le> f64_key (f64_drop x)"
proof -
  have "f64_key (f64_sub f64_one y) \<le> f64_key (f64_sub f64_one x)"
    using assms by (simp add: f64_sub_props(1) rnd_key_mono f64_val_le_iff)
  then show ?thesis
    using assms f64_one_minus [of x] f64_one_minus [of y] by (simp add: f64_drop_def f64_max_props)
qed

lemma f64_drop_zero: "f64_finite x \<Longrightarrow> f64_val x = 0 \<Longrightarrow> f64_key (f64_drop x) = f64_key f64_one"
  using rnd_key_val [of f64_one] f64_one_minus [of x] f64_val_le_iff [of f64_zero x]
  by (simp add: f64_drop_def f64_max_props f64_sub_props(1))

lemma f64_drop_saturated: "f64_finite x \<Longrightarrow> 1 \<le> f64_val x \<Longrightarrow> f64_key (f64_drop x) = 0"
proof -
  assume x: "f64_finite x" "1 \<le> f64_val x"
  then have "0 \<le> f64_key x" using f64_val_le_iff [of f64_zero x] by simp
  moreover have "f64_key (f64_sub f64_one x) \<le> 0"
    using x rnd_key_le [of f64_zero "1 - f64_val x"] by (simp add: f64_sub_props(1))
  ultimately show ?thesis using x f64_one_minus [of x] by (simp add: f64_drop_def f64_max_props)
qed

text \<open>Ratios of counts.\<close>

lemma f64_unit_ratio:
  assumes "0 \<le> a" "a \<le> b" "0 < b" "b < 2 ^ 53"
  shows "f64_unit (f64_div (f64_of_int a) (f64_of_int b))"
proof -
  have a: "f64_finite (f64_of_int a)" "f64_val (f64_of_int a) = of_int a"
    and b: "f64_finite (f64_of_int b)" "f64_val (f64_of_int b) = of_int b"
    using f64_of_int_exact [of a] f64_of_int_exact [of b] assms by simp_all
  have k: "f64_key (f64_div (f64_of_int a) (f64_of_int b)) = rnd_key (of_int a / of_int b)"
    using f64_div_props(1) [OF a(1) b(1)] a b assms by simp
  have "0 \<le> rnd_key (of_int a / of_int b)" "rnd_key (of_int a / of_int b) \<le> f64_key f64_one"
    using rnd_key_ge [of f64_zero "of_int a / of_int b"] rnd_key_le [of f64_one "of_int a / of_int b"] assms
    by simp_all
  then show ?thesis
    using f64_finite_between [of f64_zero f64_one "f64_div (f64_of_int a) (f64_of_int b)"]
    by (simp add: f64_unit_def k)
qed

text \<open>The conversion of any \<open>int64\<close> is a number.\<close>

lemma f64_of_int_finite:
  assumes "0 \<le> i" "i \<le> 2 ^ 63"
  shows "f64_finite (f64_of_int i)" "0 \<le> f64_key (f64_of_int i)"
proof -
  obtain d where d: "f64_finite d" "f64_val d = of_int 1 * 2 powi 63" using f64_dyadic [of 1 63] by auto
  have "real_of_int i \<le> real_of_int (2 ^ 63)" using assms(2) by (simp only: of_int_le_iff)
  then have u: "f64_key (f64_of_int i) \<le> f64_key d"
    using rnd_key_le [OF d(1), of "of_int i"] d(2) by (simp add: f64_of_int_props(1))
  show l: "0 \<le> f64_key (f64_of_int i)"
    using rnd_key_ge [of f64_zero "of_int i"] assms(1) by (simp add: f64_of_int_props(1))
  show "f64_finite (f64_of_int i)" using f64_finite_between [OF f64_zero_props(3) d(1)] l u by simp
qed

lemma f64_of_int_mono: "i \<le> j \<Longrightarrow> f64_key (f64_of_int i) \<le> f64_key (f64_of_int j)"
  by (simp add: f64_of_int_props(1) rnd_key_mono)

text \<open>Quotients of nonnegative numbers by a number that is not below \<open>2 ^ - k\<close>.\<close>

lemma f64_div_bounds:
  assumes "f64_finite x" "0 \<le> f64_key x" "f64_finite y" "1 / 2 ^ k \<le> f64_val y"
    and "f64_val x \<le> of_int n" "0 < n" "n * 2 ^ k < 2 ^ 53"
  shows "f64_finite (f64_div x y)" "0 \<le> f64_key (f64_div x y)"
proof -
  have x: "0 \<le> f64_val x" using assms(2) f64_val_le_iff [of f64_zero x] by simp
  have y: "0 < f64_val y" using assms(4) by (rule less_le_trans [rotated]) simp
  have key: "f64_key (f64_div x y) = rnd_key (f64_val x / f64_val y)"
    using f64_div_props(1) [OF assms(1,3)] y by simp
  have e: "f64_finite (f64_of_int (n * 2 ^ k))" "f64_val (f64_of_int (n * 2 ^ k)) = of_int (n * 2 ^ k)"
    using f64_of_int_exact [of "n * 2 ^ k"] assms(6,7) by simp_all
  have "f64_val x / f64_val y \<le> of_int n / (1 / 2 ^ k)"
    using x y assms(4,5) by (intro frac_le) simp_all
  then have u: "f64_key (f64_div x y) \<le> f64_key (f64_of_int (n * 2 ^ k))"
    unfolding key by (intro rnd_key_le [OF e(1)]) (simp add: e(2))
  show l: "0 \<le> f64_key (f64_div x y)"
    using rnd_key_ge [of f64_zero "f64_val x / f64_val y"] x y by (simp add: key)
  show "f64_finite (f64_div x y)" using f64_finite_between [OF f64_zero_props(3) e(1)] l u by simp
qed

lemma f64_div_mono:
  assumes "f64_finite x" "f64_finite x'" "f64_finite y" "0 < f64_key y" "f64_key x \<le> f64_key x'"
  shows "f64_key (f64_div x y) \<le> f64_key (f64_div x' y)"
proof -
  have "0 < f64_val y" using assms(4) f64_val_less_iff [of f64_zero y] by simp
  then show ?thesis
    using assms by (simp add: f64_div_props(1) rnd_key_mono divide_right_mono f64_val_le_iff)
qed

text \<open>Magnitudes far from overflow.\<close>

definition f64_small :: "nat \<Rightarrow> f64 \<Rightarrow> bool" where
  "f64_small k x \<longleftrightarrow> f64_finite x \<and> 0 \<le> f64_val x \<and> f64_val x \<le> 2 ^ k"

lemma rnd_small:
  assumes "f64_key x = rnd_key v" "0 \<le> v" "v \<le> 2 ^ k" "k \<le> 900"
  shows "f64_small k x"
proof -
  obtain d where d: "f64_finite d" "f64_val d = of_int 1 * 2 powi int k" using f64_dyadic [of 1 "int k"] assms(4) by auto
  have "f64_val d = 2 ^ k" using d(2) by (simp add: power_int_def)
  then have "f64_key x \<le> f64_key d" using rnd_key_le [OF d(1), of v] assms(1,3) by simp
  moreover have "f64_key f64_zero \<le> f64_key x" using rnd_key_ge [of f64_zero v] assms(1,2) by simp
  ultimately show ?thesis
    using f64_finite_between [OF f64_zero_props(3) d(1), of x] \<open>f64_val d = 2 ^ k\<close>
      f64_val_le_iff [of f64_zero x] f64_val_le_iff [of x d]
    by (simp add: f64_small_def)
qed

lemma f64_small_mono: "f64_small j x \<Longrightarrow> j \<le> k \<Longrightarrow> f64_small k x"
  unfolding f64_small_def by (meson one_le_numeral order_trans power_increasing)

lemma f64_small_add:
  assumes "f64_small k x" "f64_small k y" "k < 900"
  shows "f64_small (Suc k) (f64_add x y)"
  using assms by (intro rnd_small [of _ "f64_val x + f64_val y"]) (simp_all add: f64_small_def f64_add_props(1))

lemma f64_small_mul:
  assumes "f64_small j x" "f64_small k y" "j + k \<le> 900"
  shows "f64_small (j + k) (f64_mul x y)"
  using assms
  by (intro rnd_small [of _ "f64_val x * f64_val y"])
    (simp_all add: f64_small_def f64_mul_props(1) power_add mult_mono)

lemma f64_small_int:
  assumes "0 \<le> i" "i \<le> 2 ^ k" "k \<le> 900"
  shows "f64_small k (f64_of_int i)"
proof -
  have "real_of_int i \<le> real_of_int (2 ^ k)" using assms(2) by (simp only: of_int_le_iff)
  then show ?thesis
    using assms by (intro rnd_small [of _ "of_int i"]) (simp_all add: f64_of_int_props(1))
qed

lemma f64_small_unit: "f64_unit x \<Longrightarrow> f64_small 0 x"
  by (simp add: f64_unit_val f64_small_def)

end
