(* ===== verification/Scoring.thy ===== *)
theory Scoring
  imports Batcher UnitInterval
begin

section \<open>Model scoring\<close>

text \<open>
  \<open>services/router/internal/scoring/scorer.go\<close>: the health tracker, which keeps the outcomes
  and latencies of the last hundred requests per model, and the scorer, which filters the
  candidate models, scores the rest in five dimensions and ranks them. \<open>float64\<close> arithmetic
  is the rounded arithmetic of theory \<open>Float64\<close>, in the order of the source, without fused
  multiply-add, which the Go compiler does not use on amd64.
\<close>

subsection \<open>Model descriptors\<close>

record model_record =
  mr_model_id :: string
  mr_version :: string
  mr_tier :: string
  mr_tasks :: "string list"
  mr_cost_per_1k :: f64
  mr_avg_latency_ms :: int64
  mr_max_tokens :: int64
  mr_executor_addr :: string
  mr_enabled :: bool

fun has_task :: "string \<Rightarrow> string list \<Rightarrow> bool" where
  "has_task task [] = False"
| "has_task task (t # ts) = (if t = task then True else has_task task ts)"

definition supports_task :: "model_record \<Rightarrow> string \<Rightarrow> bool" where
  "supports_task m task = has_task task (mr_tasks m)"

subsection \<open>The health tracker\<close>

record model_health =
  mh_outcomes :: "int32 list"
  mh_latencies :: "f64 list"
  mh_head :: nat
  mh_total :: int64
  mh_errors :: int64
  mh_p99_latency :: f64
  mh_last_update :: time

type_synonym health_tracker = "string \<rightharpoonup> model_health"

definition new_model_health :: "time \<Rightarrow> model_health" where
  "new_model_health now =
     \<lparr>mh_outcomes = replicate 100 0, mh_latencies = replicate 100 f64_zero, mh_head = 0, mh_total = 0,
      mh_errors = 0, mh_p99_latency = f64_zero, mh_last_update = now\<rparr>"

definition new_health_tracker :: health_tracker where
  "new_health_tracker = Map.empty"

definition health_get :: "time \<Rightarrow> health_tracker \<Rightarrow> string \<Rightarrow> health_tracker \<times> model_health" where
  "health_get now h modelID =
     (case h modelID of
        Some r \<Rightarrow> (h, r)
      | None \<Rightarrow> let r = new_model_health now in (h(modelID \<mapsto> r), r))"

text \<open>The sort and the index of \<open>updateP99\<close>; \<open>None\<close> is an index out of range.\<close>

definition lats_index :: "nat \<Rightarrow> int" where
  "lats_index n =
     (let idx = sint (f64_to_int64 (f64_ceil (f64_mul (f64_of_int (int n)) (f64_const 99 100))) - 1)
      in if idx < 0 then 0 else idx)"

definition update_p99 :: "model_health \<Rightarrow> model_health option" where
  "update_p99 r =
     (let lats = filter (\<lambda>l. f64_lt f64_zero l) (mh_latencies r)
      in if length lats = 0 then Some r
         else let lats = insertion_sort f64_lt lats; idx = nat (lats_index (length lats))
              in if idx < length lats then Some (r\<lparr>mh_p99_latency := lats ! idx\<rparr>) else None)"

definition record_success :: "health_tracker \<Rightarrow> string \<Rightarrow> f64 \<Rightarrow> time \<Rightarrow> health_tracker option" where
  "record_success h modelID latencyMs now =
     (let (h, r) = health_get now h modelID;
          r = r\<lparr>mh_outcomes := (mh_outcomes r)[mh_head r mod 100 := 1],
                mh_latencies := (mh_latencies r)[mh_head r mod 100 := latencyMs],
                mh_head := mh_head r + 1,
                mh_total := mh_total r + 1,
                mh_last_update := now\<rparr>
      in case update_p99 r of None \<Rightarrow> None | Some r \<Rightarrow> Some (h(modelID \<mapsto> r)))"

definition record_failure :: "health_tracker \<Rightarrow> string \<Rightarrow> time \<Rightarrow> health_tracker" where
  "record_failure h modelID now =
     (let (h, r) = health_get now h modelID
      in h(modelID \<mapsto>
           r\<lparr>mh_outcomes := (mh_outcomes r)[mh_head r mod 100 := 0],
             mh_latencies := (mh_latencies r)[mh_head r mod 100 := f64_zero],
             mh_head := mh_head r + 1,
             mh_total := mh_total r + 1,
             mh_errors := mh_errors r + 1,
             mh_last_update := now\<rparr>))"

definition min_int :: "int \<Rightarrow> int \<Rightarrow> int" where
  "min_int a b = (if a < b then a else b)"

text \<open>The loop that counts the failures among the first \<open>w\<close> outcomes.\<close>

fun count_errors :: "int32 list \<Rightarrow> nat \<Rightarrow> nat" where
  "count_errors os 0 = 0"
| "count_errors os (Suc i) = count_errors os i + (if os ! i = 0 then 1 else 0)"

definition error_rate :: "health_tracker \<Rightarrow> string \<Rightarrow> f64" where
  "error_rate h modelID =
     (case h modelID of
        None \<Rightarrow> f64_zero
      | Some r \<Rightarrow>
          let w = min_int (sint (mh_total r)) 100
          in if w = 0 then f64_zero
             else f64_div (f64_of_int (int (count_errors (mh_outcomes r) (nat w)))) (f64_of_int w))"

definition p99_latency :: "health_tracker \<Rightarrow> string \<Rightarrow> f64" where
  "p99_latency h modelID = (case h modelID of Some r \<Rightarrow> mh_p99_latency r | None \<Rightarrow> f64_zero)"

subsection \<open>The scorer\<close>

text \<open>A \<open>ScoringMode\<close> is a string type in the source.\<close>

abbreviation ModeLatencyOptimized :: string where "ModeLatencyOptimized \<equiv> ''latency_optimized''"
abbreviation ModeCostOptimized :: string where "ModeCostOptimized \<equiv> ''cost_optimized''"
abbreviation ModeBalanced :: string where "ModeBalanced \<equiv> ''balanced''"

record weights =
  wt_latency :: f64
  wt_cost :: f64
  wt_health :: f64
  wt_queue :: f64
  wt_policy :: f64

definition percent_weights :: "int \<Rightarrow> int \<Rightarrow> int \<Rightarrow> int \<Rightarrow> int \<Rightarrow> weights" where
  "percent_weights l c h q p =
     \<lparr>wt_latency = f64_const l 100, wt_cost = f64_const c 100, wt_health = f64_const h 100,
      wt_queue = f64_const q 100, wt_policy = f64_const p 100\<rparr>"

definition mode_weights :: "string \<Rightarrow> weights option" where
  "mode_weights mode =
     (if mode = ModeLatencyOptimized then Some (percent_weights 50 10 25 10 5)
      else if mode = ModeCostOptimized then Some (percent_weights 10 50 20 10 10)
      else if mode = ModeBalanced then Some (percent_weights 25 25 25 15 10)
      else None)"

record candidate_score =
  cs_model_id :: string
  cs_version :: string
  cs_executor_addr :: string
  cs_total_score :: f64
  cs_latency_score :: f64
  cs_cost_score :: f64
  cs_health_score :: f64
  cs_queue_score :: f64
  cs_policy_score :: f64
  cs_rollout_pct :: f64
  cs_reason :: string

text \<open>A nil map behaves as an empty one in every use of the request.\<close>

record scoring_request =
  sq_task :: string
  sq_cost_budget :: string
  sq_latency_target_ms :: int32
  sq_prompt_len :: nat
  sq_tenant_mode :: string
  sq_allowed_models :: "(string \<times> bool) list"
  sq_rollout_weights :: "string \<rightharpoonup> f64"

text \<open>The scorer: its health tracker and its queue depth reporter, a function of the model.\<close>

record scorer =
  sc_health :: health_tracker
  sc_queues :: "string \<Rightarrow> int"

definition noop_queue_depth :: "string \<Rightarrow> int" where
  "noop_queue_depth modelID = 0"

definition new_scorer :: "health_tracker \<Rightarrow> (string \<Rightarrow> int) option \<Rightarrow> scorer" where
  "new_scorer health queues =
     \<lparr>sc_health = health, sc_queues = (case queues of None \<Rightarrow> noop_queue_depth | Some q \<Rightarrow> q)\<rparr>"

definition latency_score :: "model_record \<Rightarrow> scoring_request \<Rightarrow> f64" where
  "latency_score m req =
     (if 0 < sint (sq_latency_target_ms req)
         \<and> sint (sq_latency_target_ms req) < sint (ucast (mr_avg_latency_ms m) :: int32)
      then f64_zero
      else if mr_tier m = ''small'' then f64_one
      else if mr_tier m = ''medium'' then f64_const 6 10
      else f64_const 3 10)"

definition cost_score :: "model_record \<Rightarrow> scoring_request \<Rightarrow> f64" where
  "cost_score m req =
     (if sq_cost_budget req = ''low'' then
        (if mr_tier m = ''small'' then f64_one
         else if mr_tier m = ''medium'' then f64_const 3 10
         else f64_zero)
      else if sq_cost_budget req = ''high'' then
        (if mr_tier m = ''large'' then f64_one
         else if mr_tier m = ''medium'' then f64_const 7 10
         else f64_const 3 10)
      else f64_max f64_zero (f64_sub f64_one (f64_div (mr_cost_per_1k m) (f64_const 2 100))))"

definition health_score :: "scorer \<Rightarrow> model_record \<Rightarrow> f64" where
  "health_score s m =
     f64_max f64_zero (f64_sub f64_one (f64_mul (error_rate (sc_health s) (mr_model_id m)) (f64_of_int 5)))"

definition queue_score :: "scorer \<Rightarrow> model_record \<Rightarrow> f64" where
  "queue_score s m =
     (let d = sc_queues s (mr_model_id m)
      in if d \<le> 0 then f64_one
         else f64_max f64_zero (f64_sub f64_one (f64_div (f64_of_int d) (f64_of_int 50))))"

definition policy_score :: "model_record \<Rightarrow> scoring_request \<Rightarrow> f64" where
  "policy_score m req =
     (let threshold = sint (f64_to_int64
            (f64_mul (f64_mul (f64_of_int (sint (mr_max_tokens m))) (f64_of_int 3)) (f64_of_int 4)))
      in if threshold < int (sq_prompt_len req) then f64_const 2 10 else f64_one)"

text \<open>The arrow in two of the reasons is one character of three bytes.\<close>

definition arrow :: string where
  "arrow = [CHR 0xE2, CHR 0x86, CHR 0x92]"

definition describe_reason :: "model_record \<Rightarrow> scoring_request \<Rightarrow> string" where
  "describe_reason m req =
     (if sq_cost_budget req = ''low'' \<and> mr_tier m = ''small'' then ''cost-budget=low'' @ arrow @ ''small''
      else if sq_cost_budget req = ''high'' \<and> mr_tier m = ''large'' then ''cost-budget=high'' @ arrow @ ''large''
      else if 0 < sint (sq_latency_target_ms req)
         \<and> sint (ucast (mr_avg_latency_ms m) :: int32) \<le> sint (sq_latency_target_ms req)
      then ''latency-target-met''
      else ''balanced-score'')"

definition total_score :: "weights \<Rightarrow> f64 \<Rightarrow> f64 \<Rightarrow> f64 \<Rightarrow> f64 \<Rightarrow> f64 \<Rightarrow> f64 \<Rightarrow> f64" where
  "total_score w ls cs hs qs ps rollout =
     f64_mul (f64_add (f64_add (f64_add (f64_add
         (f64_mul (wt_latency w) ls) (f64_mul (wt_cost w) cs)) (f64_mul (wt_health w) hs))
         (f64_mul (wt_queue w) qs)) (f64_mul (wt_policy w) ps)) rollout"

definition rollout_of :: "scoring_request \<Rightarrow> string \<Rightarrow> f64" where
  "rollout_of req modelID =
     (let rollout = (case sq_rollout_weights req modelID of Some v \<Rightarrow> v | None \<Rightarrow> f64_zero)
      in if f64_eq rollout f64_zero then f64_one else rollout)"

definition score_one :: "scorer \<Rightarrow> weights \<Rightarrow> scoring_request \<Rightarrow> model_record \<Rightarrow> candidate_score" where
  "score_one s w req m =
     (let ls = latency_score m req; cs = cost_score m req; hs = health_score s m;
          qs = queue_score s m; ps = policy_score m req; rollout = rollout_of req (mr_model_id m)
      in \<lparr>cs_model_id = mr_model_id m, cs_version = mr_version m, cs_executor_addr = mr_executor_addr m,
          cs_total_score = total_score w ls cs hs qs ps rollout, cs_latency_score = ls, cs_cost_score = cs,
          cs_health_score = hs, cs_queue_score = qs, cs_policy_score = ps, cs_rollout_pct = rollout,
          cs_reason = describe_reason m req\<rparr>)"

fun score_loop :: "scorer \<Rightarrow> weights \<Rightarrow> scoring_request \<Rightarrow> model_record list \<Rightarrow> candidate_score list" where
  "score_loop s w req [] = []"
| "score_loop s w req (m # ms) =
     (if \<not> mr_enabled m then score_loop s w req ms
      else if \<not> supports_task m (sq_task req) then score_loop s w req ms
      else if sq_allowed_models req \<noteq> [] \<and> map_of (sq_allowed_models req) (mr_model_id m) \<noteq> Some True
      then score_loop s w req ms
      else score_one s w req m # score_loop s w req ms)"

definition sort_results :: "candidate_score list \<Rightarrow> candidate_score list" where
  "sort_results = insertion_sort (\<lambda>a b. f64_lt (cs_total_score b) (cs_total_score a))"

definition request_weights :: "scoring_request \<Rightarrow> weights" where
  "request_weights req =
     (let mode = (if sq_tenant_mode req = [] then ModeBalanced else sq_tenant_mode req)
      in case mode_weights mode of Some w \<Rightarrow> w | None \<Rightarrow> the (mode_weights ModeBalanced))"

definition score :: "scorer \<Rightarrow> scoring_request \<Rightarrow> model_record list \<Rightarrow> candidate_score list" where
  "score s req candidates = sort_results (score_loop s (request_weights req) req candidates)"

interpretation health: lazy_registry "\<lambda>h. h" "health_get now" "\<lambda>h k. new_model_health now" for now
  by unfold_locales (auto simp: health_get_def Let_def split: option.splits)

subsection \<open>What the health tracker knows\<close>

text \<open>
  An event of a model is the value and the latency it writes: 1 and the latency for a
  success, 0 and 0 for a failure. \<open>health_of es r\<close>: the record after the events \<open>es\<close>.
\<close>

definition health_of :: "(int32 \<times> f64) list \<Rightarrow> model_health \<Rightarrow> bool" where
  "health_of es r \<longleftrightarrow> ring_of 100 (map fst es) (mh_outcomes r) \<and> ring_of 100 (map snd es) (mh_latencies r)
     \<and> mh_head r = length es \<and> mh_total r = of_nat (length es)"

definition tracker_of :: "(string \<Rightarrow> (int32 \<times> f64) list) \<Rightarrow> health_tracker \<Rightarrow> bool" where
  "tracker_of ev h \<longleftrightarrow>
     (\<forall>m. case h m of None \<Rightarrow> ev m = [] | Some r \<Rightarrow> health_of (ev m) r)"

lemma tracker_of_new [invariants]: "tracker_of (\<lambda>m. []) new_health_tracker"
  by (simp add: tracker_of_def new_health_tracker_def)

lemma health_of_new: "health_of [] (new_model_health now)"
  by (simp add: health_of_def new_model_health_def)

lemma tracker_ofD:
  assumes "tracker_of ev h"
  shows "h m = None \<Longrightarrow> ev m = []" and "h m = Some r \<Longrightarrow> health_of (ev m) r"
  using assms unfolding tracker_of_def by (metis option.case)+

lemma tracker_of_upd:
  assumes "tracker_of ev h" "health_of es r" "\<And>k. k \<noteq> m \<Longrightarrow> h0 k = h k"
  shows "tracker_of (ev(m := es)) (h0(m \<mapsto> r))"
  unfolding tracker_of_def
proof
  fix k
  show "case (h0(m \<mapsto> r)) k of None \<Rightarrow> (ev(m := es)) k = [] | Some r \<Rightarrow> health_of ((ev(m := es)) k) r"
    using assms(2,3) tracker_ofD [OF assms(1), of k] by (cases "k = m"; cases "h k") simp_all
qed

lemma tracker_of_get: "tracker_of ev h \<Longrightarrow> health_of (ev m) (snd (health_get now h m))"
  using tracker_ofD [of ev h m] health_of_new [of now]
  by (cases "h m") (simp_all add: health_get_def Let_def)

lemma lats_index_eq: "lats_index n = p99_index n"
  by (simp add: lats_index_def p99_index_def)

lemma lats_index_less:
  assumes "0 < n" "n \<le> 1000"
  shows "nat (lats_index n) < n"
  using p99_index_rank [OF assms] assms by (simp add: lats_index_eq)

lemma update_p99_Some:
  assumes "length (mh_latencies r) = 100"
  obtains v where "update_p99 r = Some (r\<lparr>mh_p99_latency := v\<rparr>)"
    and "v = mh_p99_latency r \<or> v \<in> set (mh_latencies r) \<and> f64_lt f64_zero v"
proof -
  let ?l = "filter (\<lambda>l. f64_lt f64_zero l) (mh_latencies r)"
  show ?thesis
  proof (cases "?l = []")
    case True
    then show ?thesis by (intro that [of "mh_p99_latency r"]) (simp_all add: update_p99_def Let_def)
  next
    case False
    have "length ?l \<le> 100" using assms length_filter_le [of "\<lambda>l. f64_lt f64_zero l" "mh_latencies r"] by simp
    then have i: "nat (lats_index (length ?l)) < length ?l" using False by (intro lats_index_less) auto
    let ?v = "insertion_sort f64_lt ?l ! nat (lats_index (length ?l))"
    have "?v \<in> set ?l" using i nth_mem [of "nat (lats_index (length ?l))" "insertion_sort f64_lt ?l"] by simp
    then show ?thesis
      using False i by (intro that [of ?v]) (auto simp: update_p99_def Let_def)
  qed
qed

lemma health_of_p99 [simp]: "health_of es (r\<lparr>mh_p99_latency := v\<rparr>) = health_of es r"
  by (simp add: health_of_def)

lemma record_success_Some [invariants]:
  assumes "tracker_of ev h"
  obtains h' where "record_success h m l now = Some h'" and "tracker_of (ev(m := ev m @ [(1, l)])) h'"
proof -
  define r where "r = snd (health_get now h m)"
  have hr: "health_of (ev m) r" using tracker_of_get [OF assms] by (simp add: r_def)
  define r' where "r' = r\<lparr>mh_outcomes := (mh_outcomes r)[mh_head r mod 100 := 1],
                mh_latencies := (mh_latencies r)[mh_head r mod 100 := l],
                mh_head := mh_head r + 1, mh_total := mh_total r + 1, mh_last_update := now\<rparr>"
  have r': "health_of (ev m @ [(1, l)]) r'"
    using hr ring_of_snoc [of 100 "map fst (ev m)" "mh_outcomes r" 1] ring_of_snoc [of 100 "map snd (ev m)" "mh_latencies r" l]
    by (simp add: health_of_def r'_def add.commute)
  then obtain v where v: "update_p99 r' = Some (r'\<lparr>mh_p99_latency := v\<rparr>)"
    by (metis health_of_def ring_of_length update_p99_Some)
  obtain h0 where h0: "health_get now h m = (h0, r)" by (metis prod.collapse r_def)
  then have "h0 k = h k" if "k \<noteq> m" for k
    using health.find_get_other [of k m now h] that by simp
  moreover have "record_success h m l now = Some (h0(m \<mapsto> r'\<lparr>mh_p99_latency := v\<rparr>))"
    using v by (simp add: record_success_def h0 Let_def r'_def)
  ultimately show ?thesis
    using tracker_of_upd [OF assms, of "ev m @ [(1, l)]" "r'\<lparr>mh_p99_latency := v\<rparr>" m h0] r' that by simp
qed

lemma record_failure_of [invariants]:
  assumes "tracker_of ev h"
  shows "tracker_of (ev(m := ev m @ [(0, f64_zero)])) (record_failure h m now)"
proof -
  define r where "r = snd (health_get now h m)"
  have hr: "health_of (ev m) r" using tracker_of_get [OF assms] by (simp add: r_def)
  obtain h0 where h0: "health_get now h m = (h0, r)" by (metis prod.collapse r_def)
  then have "h0 k = h k" if "k \<noteq> m" for k
    using health.find_get_other [of k m now h] that by simp
  moreover have "health_of (ev m @ [(0, f64_zero)]) (r\<lparr>mh_outcomes := (mh_outcomes r)[mh_head r mod 100 := 0],
             mh_latencies := (mh_latencies r)[mh_head r mod 100 := f64_zero],
             mh_head := mh_head r + 1, mh_total := mh_total r + 1,
             mh_errors := mh_errors r + 1, mh_last_update := now\<rparr>)"
    using hr ring_of_snoc [of 100 "map fst (ev m)" "mh_outcomes r" 0]
      ring_of_snoc [of 100 "map snd (ev m)" "mh_latencies r" f64_zero]
    by (simp add: health_of_def add.commute)
  ultimately show ?thesis
    using tracker_of_upd [OF assms] by (simp add: record_failure_def h0)
qed

lemma count_errors_take:
  "w \<le> length os \<Longrightarrow> count_errors os w = length (filter (\<lambda>x. x = 0) (take w os))"
  by (induction w) (simp_all add: take_Suc_conv_app_nth)

lemma error_rate_of:
  assumes "tracker_of ev h" "length (ev m) < 2 ^ 63"
  shows "error_rate h m = (if ev m = [] then f64_zero
    else f64_div (f64_of_int (int (length (filter (\<lambda>e. fst e = 0) (window 100 (ev m))))))
           (f64_of_int (int (min (length (ev m)) 100))))"
proof (cases "h m")
  case None
  then have "ev m = []" using tracker_ofD(1) [OF assms(1)] by simp
  with None show ?thesis by (simp add: error_rate_def)
next
  case (Some r)
  then have r: "health_of (ev m) r" using tracker_ofD(2) [OF assms(1)] by simp
  let ?n = "min (length (ev m)) 100"
  have "sint (mh_total r) = int (length (ev m))"
    using r assms(2) sint_word_of_int [of "int (length (ev m))"] by (simp add: health_of_def)
  then have w: "min_int (sint (mh_total r)) 100 = int ?n" by (simp add: min_int_def min_def)
  have "count_errors (mh_outcomes r) ?n = length (filter (\<lambda>x. x = 0) (take ?n (mh_outcomes r)))"
    using r ring_of_length [of 100 "map fst (ev m)" "mh_outcomes r"]
    by (intro count_errors_take) (simp add: health_of_def)
  also have "\<dots> = length (filter (\<lambda>x. x = 0) (window 100 (map fst (ev m))))"
  proof -
    have "mset (take ?n (mh_outcomes r)) = mset (window 100 (map fst (ev m)))"
      using r ring_of_window [of 100 "map fst (ev m)" "mh_outcomes r"] by (simp add: health_of_def)
    then show ?thesis by (metis mset_filter size_mset)
  qed
  also have "\<dots> = length (filter (\<lambda>e. fst e = 0) (window 100 (ev m)))"
    by (simp add: window_def filter_map drop_map o_def)
  finally have "count_errors (mh_outcomes r) ?n = length (filter (\<lambda>e. fst e = 0) (window 100 (ev m)))" .
  then show ?thesis
    using Some w by (cases "ev m = []") (simp_all add: error_rate_def Let_def min_def)
qed

lemma error_rate_unit:
  assumes "tracker_of ev h" "length (ev m) < 2 ^ 63"
  shows "f64_unit (error_rate h m)"
proof (cases "ev m = []")
  case True
  then show ?thesis using error_rate_of [OF assms] by simp
next
  case False
  have "length (filter (\<lambda>e. fst e = 0) (window 100 (ev m))) \<le> min (length (ev m)) 100"
    using length_filter_le [of "\<lambda>e. fst e = 0" "window 100 (ev m)"] by simp
  with False show ?thesis
    using error_rate_of [OF assms] by (auto intro!: f64_unit_ratio)
qed

subsection \<open>Every dimension is a number between 0 and 1\<close>

lemma latency_score_unit: "f64_unit (latency_score m req)"
  by (simp add: latency_score_def f64_unit_constI)

lemma policy_score_unit: "f64_unit (policy_score m req)"
  by (simp add: policy_score_def Let_def f64_unit_constI)

text \<open>A price between nothing and a million dollars per thousand tokens.\<close>

definition sane_cost :: "model_record \<Rightarrow> bool" where
  "sane_cost m \<longleftrightarrow> f64_finite (mr_cost_per_1k m) \<and> 0 \<le> f64_key (mr_cost_per_1k m)
     \<and> f64_val (mr_cost_per_1k m) \<le> 1000000"

lemma const_2_100:
  "f64_finite (f64_const 2 100)" "1 / 2 ^ 6 \<le> f64_val (f64_const 2 100)" "0 < f64_key (f64_const 2 100)"
proof -
  show f: "f64_finite (f64_const 2 100)" using f64_finite_const [of 100 2] by simp
  obtain d where d: "f64_finite d" "f64_val d = of_int 1 * 2 powi (- 6)" using f64_dyadic [of 1 "- 6"] by auto
  have "f64_key d \<le> f64_key (f64_const 2 100)"
    using rnd_key_ge [OF d(1), of "2 / 100"] d(2) by (simp add: f64_const_props(1) power_int_minus)
  then show v: "1 / 2 ^ 6 \<le> f64_val (f64_const 2 100)"
    using d(2) by (simp add: power_int_minus flip: f64_val_le_iff)
  then show "0 < f64_key (f64_const 2 100)"
    using f64_val_less_iff [of f64_zero "f64_const 2 100"] by simp
qed

lemma cost_score_unit:
  assumes "sane_cost m"
  shows "f64_unit (cost_score m req)"
proof -
  have "f64_unit (f64_drop (f64_div (mr_cost_per_1k m) (f64_const 2 100)))"
    using assms f64_div_bounds [of "mr_cost_per_1k m" "f64_const 2 100" 6 1000000] const_2_100
    by (intro f64_unit_drop) (simp_all add: sane_cost_def)
  then show ?thesis by (simp add: cost_score_def f64_unit_constI f64_drop_def)
qed

lemma error_rate_times_five:
  assumes "f64_unit x"
  shows "f64_finite (f64_mul x (f64_of_int 5))" "0 \<le> f64_key (f64_mul x (f64_of_int 5))"
proof -
  have x: "0 \<le> f64_val x" "f64_val x \<le> 1" "f64_finite x" using assms by (simp_all add: f64_unit_val)
  have f: "f64_finite (f64_of_int 5)" "f64_val (f64_of_int 5) = 5" using f64_of_int_exact [of 5] by simp_all
  have k: "f64_key (f64_mul x (f64_of_int 5)) = rnd_key (f64_val x * 5)" using f64_mul_props(1) [OF x(3) f(1)] f(2) by simp
  show l: "0 \<le> f64_key (f64_mul x (f64_of_int 5))"
    using rnd_key_ge [of f64_zero "f64_val x * 5"] x by (simp add: k)
  have "f64_key (f64_mul x (f64_of_int 5)) \<le> f64_key (f64_of_int 5)"
    using rnd_key_le [OF f(1), of "f64_val x * 5"] x f(2) by (simp add: k)
  then show "f64_finite (f64_mul x (f64_of_int 5))" using f64_finite_between [OF f64_zero_props(3) f(1)] l by simp
qed

lemma health_score_unit:
  assumes "f64_unit (error_rate (sc_health s) (mr_model_id m))"
  shows "f64_unit (health_score s m)"
  using f64_unit_drop [OF error_rate_times_five [OF assms]] by (simp add: health_score_def f64_drop_def)

subsection \<open>The interface of the queue depth reporter\<close>

text \<open>
  \<open>QueueDepthReporter\<close>: what the queue score needs of it is a depth that is not negative
  and fits an \<open>int\<close>, in every state the provider's invariant admits.
\<close>

locale depth_reporter =
  fixes report :: "'q \<Rightarrow> string \<Rightarrow> int" and ok :: "'q \<Rightarrow> bool"
  assumes report_nonneg: "ok q \<Longrightarrow> 0 \<le> report q m"
    and report_bound: "ok q \<Longrightarrow> report q m \<le> 2 ^ 63"
begin

lemma load_finite:
  assumes "ok q"
  shows "f64_finite (f64_div (f64_of_int (report q m)) (f64_of_int 50))"
    and "0 \<le> f64_key (f64_div (f64_of_int (report q m)) (f64_of_int 50))"
proof -
  let ?d = "f64_of_int (report q m)"
  have d: "f64_finite ?d" "0 \<le> f64_key ?d"
    using f64_of_int_finite report_nonneg [OF assms] report_bound [OF assms] by blast+
  have f: "f64_finite (f64_of_int 50)" "f64_val (f64_of_int 50) = 50" using f64_of_int_exact [of 50] by simp_all
  have v: "0 \<le> f64_val ?d" using d(2) f64_val_le_iff [of f64_zero ?d] by simp
  have k: "f64_key (f64_div ?d (f64_of_int 50)) = rnd_key (f64_val ?d / 50)"
    using f64_div_props(1) [OF d(1) f(1)] f(2) by simp
  show l: "0 \<le> f64_key (f64_div ?d (f64_of_int 50))"
    using rnd_key_ge [of f64_zero "f64_val ?d / 50"] v by (simp add: k)
  have "f64_key (f64_div ?d (f64_of_int 50)) \<le> f64_key ?d"
    using rnd_key_le [OF d(1), of "f64_val ?d / 50"] v by (simp add: k)
  then show "f64_finite (f64_div ?d (f64_of_int 50))" using f64_finite_between [OF f64_zero_props(3) d(1)] l by simp
qed

lemma queue_score_drop:
  assumes "ok q" "sc_queues s = report q"
  shows "f64_key (queue_score s m)
    = f64_key (f64_drop (f64_div (f64_of_int (report q (mr_model_id m))) (f64_of_int 50)))"
proof (cases "report q (mr_model_id m) \<le> 0")
  case True
  then have z: "report q (mr_model_id m) = 0" using report_nonneg [OF assms(1)] by (simp add: order_antisym)
  have "f64_key (f64_div (f64_of_int 0) (f64_of_int 50)) = f64_key f64_zero"
    using rnd_key_val [of f64_zero] f64_of_int_exact [of 0] f64_of_int_exact [of 50]
    by (simp add: f64_div_props(1))
  then have "f64_val (f64_div (f64_of_int 0) (f64_of_int 50)) = 0" "f64_finite (f64_div (f64_of_int 0) (f64_of_int 50))"
    using f64_val_inject_key [of _ f64_zero] by (simp_all add: f64_finite_key)
  then show ?thesis using z assms(2) f64_drop_zero by (simp add: queue_score_def)
next
  case False
  then show ?thesis using assms(2) by (simp add: queue_score_def f64_drop_def)
qed

lemma queue_score_unit:
  assumes "ok q" "sc_queues s = report q"
  shows "f64_unit (queue_score s m)"
proof (cases "report q (mr_model_id m) \<le> 0")
  case True
  then show ?thesis using assms(2) by (simp add: queue_score_def)
next
  case False
  then show ?thesis
    using f64_unit_drop [OF load_finite [OF assms(1)]] assms(2) by (simp add: queue_score_def f64_drop_def)
qed

lemma queue_score_antimono:
  assumes "ok q" "ok q'" "sc_queues s = report q" "sc_queues s' = report q'"
    and "report q (mr_model_id m) \<le> report q' (mr_model_id m)"
  shows "f64_key (queue_score s' m) \<le> f64_key (queue_score s m)"
proof -
  have f: "f64_finite (f64_of_int 50)" "0 < f64_key (f64_of_int 50)"
    using f64_of_int_exact [of 50] f64_val_less_iff [of f64_zero "f64_of_int 50"] by simp_all
  have "f64_finite (f64_of_int (report q (mr_model_id m)))" "f64_finite (f64_of_int (report q' (mr_model_id m)))"
    using assms(1,2) report_nonneg report_bound by (blast intro: f64_of_int_finite(1))+
  then have "f64_key (f64_div (f64_of_int (report q (mr_model_id m))) (f64_of_int 50))
      \<le> f64_key (f64_div (f64_of_int (report q' (mr_model_id m))) (f64_of_int 50))"
    using f assms(5) by (intro f64_div_mono f64_of_int_mono)
  then show ?thesis
    unfolding queue_score_drop [OF assms(1,3)] queue_score_drop [OF assms(2,4)]
    using load_finite [OF assms(1)] load_finite [OF assms(2)] by (intro f64_drop_antimono)
qed

end

definition registry_ok :: "registry \<Rightarrow> bool" where
  "registry_ok r \<longleftrightarrow> (\<forall>m q. rg_queues r m = Some q \<longrightarrow> queue_inv q \<and> mq_max_depth q \<le> 2 ^ 63)"

interpretation noop: depth_reporter "\<lambda>u :: unit. noop_queue_depth" "\<lambda>u. True"
  by unfold_locales (simp_all add: noop_queue_depth_def)

interpretation scheduler_queues: depth_reporter "\<lambda>r m. int (queue_depth r m)" registry_ok
proof unfold_locales
  fix r m
  assume r: "registry_ok r"
  show "int (queue_depth r m) \<le> 2 ^ 63"
  proof (cases "rg_queues r m")
    case (Some q)
    then have "queue_inv q" "mq_max_depth q \<le> 2 ^ 63" using r by (simp_all add: registry_ok_def)
    then have "int (depth q) \<le> max 0 (mq_max_depth q)" "mq_max_depth q \<le> 2 ^ 63"
      unfolding queue_inv_def by blast+
    then have "int (depth q) \<le> 2 ^ 63" by (simp split: if_splits add: max_def)
    then show ?thesis using Some by (simp only: queue_depth_def option.case)
  qed (simp add: queue_depth_def)
qed simp

subsection \<open>The total\<close>

definition weights_ok :: "weights \<Rightarrow> bool" where
  "weights_ok w \<longleftrightarrow> (\<forall>x \<in> {wt_latency w, wt_cost w, wt_health w, wt_queue w, wt_policy w}. f64_finite x \<and> 0 \<le> f64_key x)
     \<and> f64_unit (f64_add (wt_latency w) (wt_cost w))
     \<and> f64_unit (f64_add (f64_add (wt_latency w) (wt_cost w)) (wt_health w))
     \<and> f64_unit (f64_add (f64_add (f64_add (wt_latency w) (wt_cost w)) (wt_health w)) (wt_queue w))
     \<and> f64_unit (f64_add (f64_add (f64_add (f64_add (wt_latency w) (wt_cost w)) (wt_health w)) (wt_queue w)) (wt_policy w))"

lemma weights_ok_modes:
  "weights_ok (percent_weights 50 10 25 10 5)" "weights_ok (percent_weights 10 50 20 10 10)"
  "weights_ok (percent_weights 25 25 25 15 10)"
  by code_simp+

lemma weights_ok_request: "weights_ok (request_weights req)"
  by (simp add: request_weights_def mode_weights_def weights_ok_modes Let_def)

lemma weighted_sum_step:
  assumes "f64_unit A" "f64_finite a" "0 \<le> f64_key a" "f64_key a \<le> f64_key A"
    and "f64_finite w" "0 \<le> f64_key w" "f64_unit x" "f64_unit (f64_add A w)"
  shows "f64_finite (f64_add a (f64_mul w x))" "0 \<le> f64_key (f64_add a (f64_mul w x))"
    "f64_key (f64_add a (f64_mul w x)) \<le> f64_key (f64_add A w)"
  using f64_add_bounds [of a "f64_mul w x" A w] f64_mul_unit [OF assms(5,6,7)] assms
  by (simp_all add: f64_unit_def)

lemma total_score_unit:
  assumes "weights_ok w" "f64_unit ls" "f64_unit cs" "f64_unit hs" "f64_unit qs" "f64_unit ps" "f64_unit rollout"
  shows "f64_unit (total_score w ls cs hs qs ps rollout)"
proof -
  note w = assms(1) [unfolded weights_ok_def]
  let ?l = "f64_mul (wt_latency w) ls"
  have l: "f64_finite ?l" "0 \<le> f64_key ?l" "f64_key ?l \<le> f64_key (wt_latency w)"
    using f64_mul_unit assms(2) w by simp_all
  let ?c = "f64_add ?l (f64_mul (wt_cost w) cs)"
  have c: "f64_finite ?c" "0 \<le> f64_key ?c" "f64_key ?c \<le> f64_key (f64_add (wt_latency w) (wt_cost w))"
    using f64_add_bounds [of ?l "f64_mul (wt_cost w) cs" "wt_latency w" "wt_cost w"]
      f64_mul_unit [OF _ _ assms(3), of "wt_cost w"] l w by (simp_all add: f64_unit_def)
  note h = weighted_sum_step [OF _ c _ _ assms(4), of "wt_health w"]
  note q = weighted_sum_step [OF _ h _ _ assms(5), of "wt_queue w"]
  note p = weighted_sum_step [OF _ q _ _ assms(6), of "wt_policy w"]
  show ?thesis
    using p w unfolding total_score_def by (intro f64_unit_mul [OF _ assms(7)]) (simp add: f64_unit_def)
qed

definition good_scorer :: "scorer \<Rightarrow> bool" where
  "good_scorer s \<longleftrightarrow> (\<forall>m. f64_unit (error_rate (sc_health s) (mr_model_id m)) \<and> f64_unit (queue_score s m))"

definition sane_weights :: "scoring_request \<Rightarrow> bool" where
  "sane_weights req \<longleftrightarrow> (\<forall>m v. sq_rollout_weights req m = Some v \<longrightarrow> f64_unit v)"

lemma rollout_of_unit: "sane_weights req \<Longrightarrow> f64_unit (rollout_of req m)"
  by (auto simp: rollout_of_def sane_weights_def Let_def split: option.split)

lemma score_one_unit:
  assumes "good_scorer s" "sane_weights req" "sane_cost m"
  shows "f64_unit (cs_total_score (score_one s (request_weights req) req m))"
proof -
  have "f64_unit (error_rate (sc_health s) (mr_model_id m))" "f64_unit (queue_score s m)"
    using assms(1) unfolding good_scorer_def by blast+
  then show ?thesis
    using total_score_unit [OF weights_ok_request latency_score_unit cost_score_unit [OF assms(3)]
        health_score_unit _ policy_score_unit rollout_of_unit [OF assms(2)]]
    by (simp add: score_one_def Let_def)
qed

subsection \<open>Filtering and ranking\<close>

lemma score_one_sel [simp]:
  "cs_model_id (score_one s w req m) = mr_model_id m"
  "cs_latency_score (score_one s w req m) = latency_score m req"
  "cs_cost_score (score_one s w req m) = cost_score m req"
  "cs_health_score (score_one s w req m) = health_score s m"
  "cs_queue_score (score_one s w req m) = queue_score s m"
  "cs_policy_score (score_one s w req m) = policy_score m req"
  "cs_rollout_pct (score_one s w req m) = rollout_of req (mr_model_id m)"
  "cs_executor_addr (score_one s w req m) = mr_executor_addr m"
  "cs_version (score_one s w req m) = mr_version m"
  by (simp_all add: score_one_def Let_def)

lemma score_one_total:
  "cs_total_score (score_one s w req m) = total_score w (latency_score m req) (cost_score m req)
     (health_score s m) (queue_score s m) (policy_score m req) (rollout_of req (mr_model_id m))"
  by (simp add: score_one_def Let_def)

definition eligible :: "scoring_request \<Rightarrow> model_record \<Rightarrow> bool" where
  "eligible req m \<longleftrightarrow> mr_enabled m \<and> sq_task req \<in> set (mr_tasks m)
     \<and> (sq_allowed_models req = [] \<or> map_of (sq_allowed_models req) (mr_model_id m) = Some True)"

lemma has_task_iff: "has_task task ts \<longleftrightarrow> task \<in> set ts"
  by (induction ts) auto

lemma score_loop_filter: "score_loop s w req ms = map (score_one s w req) (filter (eligible req) ms)"
  by (induction ms) (auto simp: eligible_def supports_task_def has_task_iff)

interpretation descending: strict_weak "\<lambda>a b. f64_lt (cs_total_score b) (cs_total_score a)"
    "{c. \<not> f64_is_nan (cs_total_score c)}"
  by unfold_locales (auto simp: f64_lt_def)

subsection \<open>Properties\<close>

datatype health_event = Success string f64 | Failure string

fun health_run :: "health_tracker \<Rightarrow> (health_event \<times> time) list \<Rightarrow> health_tracker option" where
  "health_run h [] = Some h"
| "health_run h ((Success m l, t) # es) =
     (case record_success h m l t of None \<Rightarrow> None | Some h \<Rightarrow> health_run h es)"
| "health_run h ((Failure m, t) # es) = health_run (record_failure h m t) es"

fun event_of :: "string \<Rightarrow> health_event \<times> time \<Rightarrow> (int32 \<times> f64) list" where
  "event_of m (Success k l, t) = (if k = m then [(1, l)] else [])"
| "event_of m (Failure k, t) = (if k = m then [(0, f64_zero)] else [])"

lemma health_run_of:
  assumes "tracker_of ev h"
  shows "\<exists>h'. health_run h es = Some h' \<and> tracker_of (\<lambda>m. ev m @ concat (map (event_of m) es)) h'"
  using assms
proof (induction h es arbitrary: ev rule: health_run.induct)
  case (1 h)
  then show ?case by simp
next
  case (2 h m l t es)
  obtain h1 where h1: "record_success h m l t = Some h1" "tracker_of (ev(m := ev m @ [(1, l)])) h1"
    using record_success_Some [OF 2(2)] by blast
  have "(\<lambda>k. (ev(m := ev m @ [(1, l)])) k @ concat (map (event_of k) es))
      = (\<lambda>k. ev k @ concat (map (event_of k) ((Success m l, t) # es)))" by auto
  then show ?case using 2(1) [OF h1] h1(1) by simp
next
  case (3 h m t es)
  have "(\<lambda>k. (ev(m := ev m @ [(0, f64_zero)])) k @ concat (map (event_of k) es))
      = (\<lambda>k. ev k @ concat (map (event_of k) ((Failure m, t) # es)))" by auto
  then show ?case using 3(1) [OF record_failure_of [OF 3(2), of m t]] by simp
qed

lemma length_events: "length (concat (map (event_of m) es)) \<le> length es"
proof (induction es)
  case (Cons e es)
  then show ?case by (cases e; cases "fst e") auto
qed simp

text \<open>C25. A model's error rate is the share of failures among its last hundred requests, as a
  rounded quotient between 0 and 1, and 0 for a model without requests; no sequence of
  successes and failures makes the tracker panic.\<close>

theorem error_rate_window:
  fixes m :: string
  assumes "length es < 2 ^ 63"
  defines "ev \<equiv> concat (map (event_of m) es)"
  shows "\<exists>h. health_run new_health_tracker es = Some h \<and> f64_unit (error_rate h m)
    \<and> error_rate h m = (if ev = [] then f64_zero
        else f64_div (f64_of_int (int (length (filter (\<lambda>e. fst e = 0) (window 100 ev)))))
               (f64_of_int (int (length (window 100 ev)))))"
proof -
  obtain h where h: "health_run new_health_tracker es = Some h" "tracker_of (\<lambda>m. concat (map (event_of m) es)) h"
    using health_run_of [OF tracker_of_new, of es] by auto
  have "length (concat (map (event_of m) es)) < 2 ^ 63" using length_events [of m es] assms(1) by linarith
  then show ?thesis
    using h error_rate_of [OF h(2)] error_rate_unit [OF h(2)] by (simp add: ev_def)
qed

theorem error_rate_window_witness:
  "\<exists>h. health_run new_health_tracker [(Failure ''m'', 0), (Success ''m'' (f64_of_int 9), 1), (Failure ''n'', 2)] = Some h
     \<and> error_rate h ''m'' = f64_div (f64_of_int 1) (f64_of_int 2)"
  using error_rate_window [of "[(Failure ''m'', 0), (Success ''m'' (f64_of_int 9), 1), (Failure ''n'', 2)]" "''m''"]
  by auto

lemma score_eq:
  "score s req ms = insertion_sort (\<lambda>a b. f64_lt (cs_total_score b) (cs_total_score a))
     (map (score_one s (request_weights req) req) (filter (eligible req) ms))"
  by (simp add: score_def sort_results_def score_loop_filter)

lemma set_score: "set (score s req ms) = score_one s (request_weights req) req ` {m \<in> set ms. eligible req m}"
  by (simp add: score_eq)

lemma score_sorted:
  assumes "good_scorer s" "sane_weights req" "\<forall>m \<in> set ms. sane_cost m"
  shows "sorted_wrt (\<lambda>a b. f64_le (cs_total_score b) (cs_total_score a)) (score s req ms)"
    and "\<forall>c \<in> set (score s req ms). f64_unit (cs_total_score c)"
proof -
  let ?l = "map (score_one s (request_weights req) req) (filter (eligible req) ms)"
  have unit: "\<forall>c \<in> set ?l. f64_unit (cs_total_score c)" using score_one_unit [OF assms(1,2)] assms(3) by auto
  then have num: "set ?l \<subseteq> {c. \<not> f64_is_nan (cs_total_score c)}" using f64_unit_not_nan by auto
  show u: "\<forall>c \<in> set (score s req ms). f64_unit (cs_total_score c)" using unit by (simp add: score_eq)
  have "sorted_wrt (\<lambda>a b. \<not> f64_lt (cs_total_score a) (cs_total_score b)) (score s req ms)"
    unfolding score_eq by (rule descending.sorted_insertion_sort [OF num])
  then show "sorted_wrt (\<lambda>a b. f64_le (cs_total_score b) (cs_total_score a)) (score s req ms)"
    by (rule sorted_wrt_mono_rel [rotated]) (use u f64_unit_not_nan f64_not_lt in blast)
qed

text \<open>The first of the ranking scores at least as high as every eligible candidate.\<close>

lemma score_first:
  assumes "good_scorer s" "sane_weights req" "\<forall>m \<in> set ms. sane_cost m" "score s req ms \<noteq> []"
  obtains m where "m \<in> set ms" "eligible req m" "hd (score s req ms) = score_one s (request_weights req) req m"
    and "\<And>m'. m' \<in> set ms \<Longrightarrow> eligible req m' \<Longrightarrow>
      f64_le (cs_total_score (score_one s (request_weights req) req m')) (cs_total_score (score_one s (request_weights req) req m))"
proof -
  have "hd (score s req ms) \<in> set (score s req ms)" using assms(4) by simp
  then obtain m where m: "m \<in> set ms" "eligible req m" "hd (score s req ms) = score_one s (request_weights req) req m"
    unfolding set_score by auto
  have "f64_le (cs_total_score c) (cs_total_score (hd (score s req ms)))" if "c \<in> set (score s req ms)" for c
  proof -
    obtain x xs where x: "score s req ms = x # xs" using assms(4) by (cases "score s req ms") simp_all
    have "f64_unit (cs_total_score x)" using score_sorted(2) [OF assms(1-3)] x by simp
    then have "f64_le (cs_total_score x) (cs_total_score x)" by (simp add: f64_le_def f64_unit_not_nan)
    then show ?thesis using that score_sorted(1) [OF assms(1-3)] x by auto
  qed
  then have "f64_le (cs_total_score (score_one s (request_weights req) req m')) (cs_total_score (score_one s (request_weights req) req m))"
    if "m' \<in> set ms" "eligible req m'" for m'
    using that by (auto simp: set_score m(3) [symmetric])
  with m that show ?thesis by blast
qed

text \<open>C18. The ranking: \<open>Score\<close> returns the candidates that are enabled, support the task and are
  allowed to the tenant, each once and nothing else; they are sorted by falling total score,
  candidates with equal totals stay in their order, and every total lies between 0 and 1.
  This needs finite, nonnegative costs (a million dollars per thousand tokens at most), error
  rates and queue scores between 0 and 1 (the trackers keep them there), and rollout weights
  between 0 and 1. The last is not a matter of course: the router does not check the share of
  a rollout it is sent, and a share outside 0 to 1 makes such a weight.\<close>

theorem score_ranks:
  assumes "good_scorer s" "sane_weights req" "\<forall>m \<in> set ms. sane_cost m"
  shows "mset (score s req ms) = mset (map (score_one s (request_weights req) req) (filter (eligible req) ms))
    \<and> sorted_wrt (\<lambda>a b. f64_le (cs_total_score b) (cs_total_score a)) (score s req ms)
    \<and> filter (\<lambda>c. f64_eq (cs_total_score c) v) (score s req ms)
        = map (score_one s (request_weights req) req)
            (filter (\<lambda>m. f64_eq (cs_total_score (score_one s (request_weights req) req m)) v)
              (filter (eligible req) ms))
    \<and> (\<forall>c \<in> set (score s req ms). f64_unit (cs_total_score c))"
proof -
  let ?l = "map (score_one s (request_weights req) req) (filter (eligible req) ms)"
  have eq: "score s req ms = insertion_sort (\<lambda>a b. f64_lt (cs_total_score b) (cs_total_score a)) ?l"
    by (rule score_eq)
  have num: "set ?l \<subseteq> {c. \<not> f64_is_nan (cs_total_score c)}"
    using score_one_unit [OF assms(1,2)] assms(3) f64_unit_not_nan by auto
  note srt = score_sorted(1) [OF assms] and u = score_sorted(2) [OF assms]
  have "filter (\<lambda>c. f64_eq (cs_total_score c) v) (score s req ms) = filter (\<lambda>c. f64_eq (cs_total_score c) v) ?l"
  proof (cases "\<exists>a \<in> set ?l. f64_eq (cs_total_score a) v")
    case False
    then show ?thesis by (auto simp: eq filter_empty_conv)
  next
    case True
    then obtain a where a: "a \<in> set ?l" "f64_eq (cs_total_score a) v" by blast
    have st: "filter (descending.equiv a) (score s req ms) = filter (descending.equiv a) ?l"
      unfolding eq using a(1) num by (intro descending.stable_insertion_sort) auto
    have "descending.equiv a c \<longleftrightarrow> f64_eq (cs_total_score c) v" if "\<not> f64_is_nan (cs_total_score c)" for c
      using a num that by (auto simp: f64_eq_def f64_lt_def)
    then have c: "filter (descending.equiv a) xs = filter (\<lambda>c. f64_eq (cs_total_score c) v) xs"
      if "set xs \<subseteq> {c. \<not> f64_is_nan (cs_total_score c)}" for xs
      using that by (intro filter_cong) auto
    have "set (score s req ms) \<subseteq> {c. \<not> f64_is_nan (cs_total_score c)}" using num by (simp only: eq set_insertion_sort)
    then show ?thesis using st c [of ?l] c [of "score s req ms"] num by simp
  qed
  then show ?thesis using srt u by (simp add: eq filter_map o_def)
qed

definition demo_model :: "string \<Rightarrow> string \<Rightarrow> model_record" where
  "demo_model mid tier = \<lparr>mr_model_id = mid, mr_version = ''v1'', mr_tier = tier, mr_tasks = [''chat''],
     mr_cost_per_1k = f64_zero, mr_avg_latency_ms = 100, mr_max_tokens = 4096, mr_executor_addr = ''e'',
     mr_enabled = True\<rparr>"

definition demo_scoring_request :: scoring_request where
  "demo_scoring_request = \<lparr>sq_task = ''chat'', sq_cost_budget = ''low'', sq_latency_target_ms = 0, sq_prompt_len = 10,
     sq_tenant_mode = [], sq_allowed_models = [], sq_rollout_weights = Map.empty\<rparr>"

definition demo_scorer :: scorer where
  "demo_scorer = new_scorer new_health_tracker None"

lemma demo_scorer_good: "good_scorer demo_scorer" "sane_weights demo_scoring_request" "sane_cost (demo_model i t)"
proof -
  have "f64_unit (error_rate (sc_health demo_scorer) k)" for k
    using error_rate_unit [OF tracker_of_new, of k] by (simp add: demo_scorer_def new_scorer_def)
  moreover have "f64_unit (queue_score demo_scorer m)" for m
    by (rule noop.queue_score_unit) (simp_all add: demo_scorer_def new_scorer_def)
  ultimately show "good_scorer demo_scorer" by (simp add: good_scorer_def)
qed (simp_all add: sane_weights_def demo_scoring_request_def sane_cost_def demo_model_def)

theorem score_ranks_witness:
  "length (score demo_scorer demo_scoring_request [demo_model ''l'' ''large'', demo_model ''s'' ''small'']) = 2
   \<and> good_scorer demo_scorer"
proof -
  have "mset (score demo_scorer demo_scoring_request [demo_model ''l'' ''large'', demo_model ''s'' ''small''])
      = mset (map (score_one demo_scorer (request_weights demo_scoring_request) demo_scoring_request)
          (filter (eligible demo_scoring_request) [demo_model ''l'' ''large'', demo_model ''s'' ''small'']))"
    using score_ranks [OF demo_scorer_good(1,2), of "[demo_model ''l'' ''large'', demo_model ''s'' ''small'']"]
      demo_scorer_good(3) by simp
  from arg_cong [OF this, of size] show ?thesis
    using demo_scorer_good(1) by (simp add: eligible_def demo_scoring_request_def demo_model_def)
qed

lemma total_score_mono:
  assumes "weights_ok w" "f64_unit ls" "f64_unit cs" "f64_unit hs" "f64_unit qs" "f64_unit ps" "f64_unit r"
    and "f64_unit ls'" "f64_unit cs'" "f64_unit hs'" "f64_unit qs'" "f64_unit ps'" "f64_unit r'"
    and "f64_key ls \<le> f64_key ls'" "f64_key cs \<le> f64_key cs'" "f64_key hs \<le> f64_key hs'"
    and "f64_key qs \<le> f64_key qs'" "f64_key ps \<le> f64_key ps'" "f64_key r \<le> f64_key r'"
  shows "f64_key (total_score w ls cs hs qs ps r) \<le> f64_key (total_score w ls' cs' hs' qs' ps' r')"
proof -
  let ?S = "\<lambda>a b c d e. f64_add (f64_add (f64_add (f64_add (f64_mul (wt_latency w) a) (f64_mul (wt_cost w) b))
      (f64_mul (wt_health w) c)) (f64_mul (wt_queue w) d)) (f64_mul (wt_policy w) e)"
  have one: "f64_key (f64_mul x f64_one) = f64_key x" if "f64_finite x" for x
    using that by (simp add: f64_mul_props(1) rnd_key_val)
  note w = assms(1) [unfolded weights_ok_def]
  have step: "f64_finite (f64_add a (f64_mul v x)) \<and> 0 \<le> f64_key (f64_add a (f64_mul v x))
      \<and> f64_key (f64_add a (f64_mul v x)) \<le> f64_key (f64_add A v)
      \<and> f64_finite (f64_add a' (f64_mul v x')) \<and> 0 \<le> f64_key (f64_add a' (f64_mul v x'))
      \<and> f64_key (f64_add a' (f64_mul v x')) \<le> f64_key (f64_add A v)
      \<and> f64_key (f64_add a (f64_mul v x)) \<le> f64_key (f64_add a' (f64_mul v x'))"
    if "f64_finite A" "f64_unit (f64_add A v)" "f64_finite v" "0 \<le> f64_key v" "f64_unit x" "f64_unit x'" "f64_key x \<le> f64_key x'"
      "f64_finite a \<and> 0 \<le> f64_key a \<and> f64_key a \<le> f64_key A \<and> f64_finite a' \<and> 0 \<le> f64_key a' \<and> f64_key a' \<le> f64_key A
        \<and> f64_key a \<le> f64_key a'" for A a a' v x x'
    using that f64_add_bounds [of a "f64_mul v x" A v] f64_add_bounds [of a' "f64_mul v x'" A v]
      f64_mul_unit [of v x] f64_mul_unit [of v x'] f64_mul_mono [of v x x']
      f64_add_mono [of a "f64_mul v x" a' "f64_mul v x'"]
    by (simp add: f64_unit_finite)
  note l = f64_mul_unit [of "wt_latency w" ls] f64_mul_unit [of "wt_latency w" ls'] f64_mul_mono [of "wt_latency w" ls ls']
  have s1: "f64_finite (f64_mul (wt_latency w) ls) \<and> 0 \<le> f64_key (f64_mul (wt_latency w) ls)
      \<and> f64_key (f64_mul (wt_latency w) ls) \<le> f64_key (wt_latency w)
      \<and> f64_finite (f64_mul (wt_latency w) ls') \<and> 0 \<le> f64_key (f64_mul (wt_latency w) ls')
      \<and> f64_key (f64_mul (wt_latency w) ls') \<le> f64_key (wt_latency w)
      \<and> f64_key (f64_mul (wt_latency w) ls) \<le> f64_key (f64_mul (wt_latency w) ls')"
    using l w assms by (simp add: f64_unit_finite)
  note s2 = step [OF _ _ _ _ assms(3,9,15) s1, of "wt_cost w"]
  note s3 = step [OF _ _ _ _ assms(4,10,16) s2, of "wt_health w"]
  note s4 = step [OF _ _ _ _ assms(5,11,17) s3, of "wt_queue w"]
  note s5 = step [OF _ _ _ _ assms(6,12,18) s4, of "wt_policy w"]
  have S: "f64_unit (?S ls cs hs qs ps)" "f64_unit (?S ls' cs' hs' qs' ps')"
    "f64_key (?S ls cs hs qs ps) \<le> f64_key (?S ls' cs' hs' qs' ps')"
    using s5 w by (simp_all add: f64_unit_def)
  have "f64_val (?S ls cs hs qs ps) * f64_val r \<le> f64_val (?S ls' cs' hs' qs' ps') * f64_val r'"
    using S assms(7,13,19) by (intro mult_mono) (simp_all add: f64_unit_val f64_val_le_iff)
  then show ?thesis
    unfolding total_score_def using S assms(7,13) by (simp add: f64_mul_props(1) f64_unit_finite rnd_key_mono)
qed

text \<open>The scores are monotone: a candidate that is not worse in any of the five dimensions and
  in its rollout weight never gets a lower total than the other, in any routing mode.\<close>

theorem score_dominance:
  assumes "good_scorer s" "sane_weights req" "sane_cost a" "sane_cost b"
  defines "A \<equiv> score_one s (request_weights req) req a" and "B \<equiv> score_one s (request_weights req) req b"
  assumes "f64_le (cs_latency_score A) (cs_latency_score B)" "f64_le (cs_cost_score A) (cs_cost_score B)"
    and "f64_le (cs_health_score A) (cs_health_score B)" "f64_le (cs_queue_score A) (cs_queue_score B)"
    and "f64_le (cs_policy_score A) (cs_policy_score B)" "f64_le (cs_rollout_pct A) (cs_rollout_pct B)"
  shows "f64_le (cs_total_score A) (cs_total_score B)"
proof -
  have e: "f64_unit (error_rate (sc_health s) (mr_model_id m))" "f64_unit (queue_score s m)" for m
    using assms(1) unfolding good_scorer_def by blast+
  have "f64_key (cs_total_score A) \<le> f64_key (cs_total_score B)"
    unfolding A_def B_def score_one_total
    by (intro total_score_mono weights_ok_request latency_score_unit policy_score_unit rollout_of_unit
        assms(2) cost_score_unit assms(3,4) health_score_unit e)
      (use assms(7-12) in \<open>simp_all add: A_def B_def f64_le_def\<close>)
  then show ?thesis
    using score_one_unit [OF assms(1,2,3)] score_one_unit [OF assms(1,2,4)]
    by (simp add: f64_le_def A_def B_def f64_unit_not_nan)
qed

lemma demo_low:
  "latency_score (demo_model i ''large'') demo_scoring_request = f64_const 3 10"
  "latency_score (demo_model i ''small'') demo_scoring_request = f64_one"
  "cost_score (demo_model i ''large'') demo_scoring_request = f64_zero"
  "cost_score (demo_model i ''small'') demo_scoring_request = f64_one"
  by (simp_all add: latency_score_def cost_score_def demo_model_def demo_scoring_request_def)

theorem score_dominance_witness:
  "f64_le (cs_total_score (score_one demo_scorer (request_weights demo_scoring_request) demo_scoring_request (demo_model ''l'' ''large'')))
     (cs_total_score (score_one demo_scorer (request_weights demo_scoring_request) demo_scoring_request (demo_model ''s'' ''small'')))"
proof -
  have c: "f64_le (f64_const 3 10) f64_one" "f64_le f64_zero f64_one" by code_simp+
  have r: "f64_le x x" if "f64_unit x" for x using that by (simp add: f64_le_def f64_unit_not_nan)
  have h: "health_score demo_scorer (demo_model i t) = health_score demo_scorer (demo_model i' t')" for i i' t t'
    by (simp add: health_score_def demo_scorer_def new_scorer_def error_rate_def new_health_tracker_def)
  have q: "queue_score demo_scorer m = f64_one" for m
    by (simp add: queue_score_def demo_scorer_def new_scorer_def noop_queue_depth_def)
  have p: "policy_score (demo_model i t) demo_scoring_request = policy_score (demo_model i' t') demo_scoring_request" for i i' t t'
    by (simp add: policy_score_def demo_model_def)
  have u: "f64_unit (health_score demo_scorer m)" for m
    using demo_scorer_good(1) health_score_unit unfolding good_scorer_def by blast
  have "f64_eq f64_zero f64_zero" by code_simp
  then have w: "rollout_of demo_scoring_request m = f64_one" for m
    by (simp add: rollout_of_def demo_scoring_request_def)
  show ?thesis
    by (rule score_dominance [OF demo_scorer_good(1,2,3,3)])
      (use c r u h [of "''l''" "''large''" "''s''" "''small''"] p [of "''l''" "''large''" "''s''" "''small''"]
          policy_score_unit in \<open>simp_all add: q w demo_low\<close>)
qed

text \<open>The rollout weights enter the ranking by \<open>rollout_of\<close> only.\<close>

lemma rollout_weights_frame [simp, frame]:
  "latency_score m (req\<lparr>sq_rollout_weights := W\<rparr>) = latency_score m req"
  "cost_score m (req\<lparr>sq_rollout_weights := W\<rparr>) = cost_score m req"
  "policy_score m (req\<lparr>sq_rollout_weights := W\<rparr>) = policy_score m req"
  "describe_reason m (req\<lparr>sq_rollout_weights := W\<rparr>) = describe_reason m req"
  "eligible (req\<lparr>sq_rollout_weights := W\<rparr>) = eligible req"
  "request_weights (req\<lparr>sq_rollout_weights := W\<rparr>) = request_weights req"
  by (simp_all add: latency_score_def cost_score_def policy_score_def describe_reason_def
      request_weights_def eligible_def fun_eq_iff)

lemma score_weights_cong:
  assumes "\<And>k. rollout_of (req\<lparr>sq_rollout_weights := W\<rparr>) k = rollout_of (req\<lparr>sq_rollout_weights := V\<rparr>) k"
  shows "score s (req\<lparr>sq_rollout_weights := W\<rparr>) ms = score s (req\<lparr>sq_rollout_weights := V\<rparr>) ms"
proof -
  have "score_one s w (req\<lparr>sq_rollout_weights := W\<rparr>) = score_one s w (req\<lparr>sq_rollout_weights := V\<rparr>)" for w
    by (rule ext) (simp only: score_one_def rollout_weights_frame assms)
  then show ?thesis by (simp add: score_def score_loop_filter)
qed

text \<open>A rollout weight of 0 does not take a model out of rotation, as the architecture
  decision on scoring has it: the ranking is the one that weight 1, or no weight, gives.\<close>

theorem rollout_zero_is_full:
  "score s (req\<lparr>sq_rollout_weights := W(m \<mapsto> f64_zero)\<rparr>) ms = score s (req\<lparr>sq_rollout_weights := W(m \<mapsto> f64_one)\<rparr>) ms
    \<and> score s (req\<lparr>sq_rollout_weights := W(m \<mapsto> f64_zero)\<rparr>) ms = score s (req\<lparr>sq_rollout_weights := W(m := None)\<rparr>) ms"
proof -
  have z: "f64_eq f64_zero f64_zero" "\<not> f64_eq f64_one f64_zero" by code_simp+
  have "rollout_of (req\<lparr>sq_rollout_weights := W(m \<mapsto> f64_zero)\<rparr>) k = rollout_of (req\<lparr>sq_rollout_weights := W(m \<mapsto> f64_one)\<rparr>) k" for k
    using z by (cases "k = m") (simp_all add: rollout_of_def)
  moreover have "rollout_of (req\<lparr>sq_rollout_weights := W(m \<mapsto> f64_zero)\<rparr>) k = rollout_of (req\<lparr>sq_rollout_weights := W(m := None)\<rparr>) k" for k
    using z by (cases "k = m") (simp_all add: rollout_of_def)
  ultimately show ?thesis by (intro conjI score_weights_cong)
qed

text \<open>The rollout percentage scales a score; it does not split traffic: a canary with its
  base's profile, health and queue, at any percentage whose complement is not smaller, is
  ranked behind the base on every request both are eligible for.\<close>

theorem canary_behind_base:
  assumes "good_scorer s" "sane_weights req" "sane_cost base" "eligible req base"
    and "canary = base\<lparr>mr_model_id := c\<rparr>" "eligible req canary"
    and "error_rate (sc_health s) c = error_rate (sc_health s) (mr_model_id base)"
    and "sc_queues s c = sc_queues s (mr_model_id base)"
    and "f64_le (rollout_of req c) (rollout_of req (mr_model_id base))"
  shows "map cs_model_id (score s req [base, canary]) = [mr_model_id base, c]"
proof -
  let ?A = "score_one s (request_weights req) req canary" and ?B = "score_one s (request_weights req) req base"
  have c: "sane_cost canary" "mr_model_id canary = c" using assms(3,5) by (simp_all add: sane_cost_def)
  have e: "latency_score canary req = latency_score base req" "cost_score canary req = cost_score base req"
    "health_score s canary = health_score s base" "queue_score s canary = queue_score s base"
    "policy_score canary req = policy_score base req"
    using assms(5,7,8) by (simp_all add: latency_score_def cost_score_def health_score_def
        queue_score_def policy_score_def)
  have u: "f64_unit (error_rate (sc_health s) (mr_model_id m))" "f64_unit (queue_score s m)" for m
    using assms(1) unfolding good_scorer_def by blast+
  have "f64_key (cs_total_score ?A) \<le> f64_key (cs_total_score ?B)"
    unfolding score_one_total e c(2)
    by (intro total_score_mono weights_ok_request latency_score_unit cost_score_unit policy_score_unit
        health_score_unit rollout_of_unit u assms(2,3) order_refl)
      (use assms(9) in \<open>simp add: f64_le_def\<close>)
  then have "\<not> f64_lt (cs_total_score ?B) (cs_total_score ?A)" by (simp add: f64_lt_def)
  then have "score s req [base, canary] = [?B, ?A]"
    using assms(4,6) by (simp add: score_def sort_results_def score_loop_filter insertion_sort_def sort_from.simps)
  then show ?thesis using c by simp
qed

definition demo_canary_request :: scoring_request where
  "demo_canary_request = demo_scoring_request\<lparr>sq_rollout_weights :=
     [''base'' \<mapsto> f64_const 9 10, ''canary'' \<mapsto> f64_const 1 10]\<rparr>"

theorem canary_behind_base_witness:
  "map cs_model_id (score demo_scorer demo_canary_request
      [demo_model ''base'' ''small'', (demo_model ''base'' ''small'')\<lparr>mr_model_id := ''canary''\<rparr>]) = [''base'', ''canary'']"
proof -
  have w: "sane_weights demo_canary_request"
    by (simp add: sane_weights_def demo_canary_request_def f64_unit_constI)
  have "\<not> f64_eq (f64_const 9 10) f64_zero" "\<not> f64_eq (f64_const 1 10) f64_zero"
    and le: "f64_le (f64_const 1 10) (f64_const 9 10)" by code_simp+
  then have r: "rollout_of demo_canary_request ''base'' = f64_const 9 10"
    "rollout_of demo_canary_request ''canary'' = f64_const 1 10"
    by (simp_all add: rollout_of_def demo_canary_request_def)
  have el: "eligible demo_canary_request (demo_model ''base'' ''small'')"
    "eligible demo_canary_request ((demo_model ''base'' ''small'')\<lparr>mr_model_id := ''canary''\<rparr>)"
    by (simp_all add: eligible_def demo_canary_request_def demo_scoring_request_def demo_model_def)
  have i: "mr_model_id (demo_model ''base'' ''small'') = ''base''" by (simp add: demo_model_def)
  show ?thesis
    using canary_behind_base [OF demo_scorer_good(1) w demo_scorer_good(3) el(1) refl el(2)] le r
    by (simp add: i) (simp add: demo_scorer_def new_scorer_def error_rate_def new_health_tracker_def noop_queue_depth_def)
qed

end
