(* ===== verification/TtlCache.thy ===== *)
theory TtlCache
  imports Prelude
begin

section \<open>Caches with a time to live\<close>

text \<open>
  The router caches tenant policies, the gateway the principals of API keys and the control
  plane quota configurations: a lookup that finds a live entry returns it, another asks the
  source and stores what it got. The locale states the contract of such a cache; its lemmas
  bound the staleness of an answer.
\<close>

text \<open>
  Reading through a cache: the lookup happens at \<open>now\<close>, \<open>src\<close> is what the source would
  answer, and \<open>t\<close> is the time at which that answer is stored.
\<close>

definition read_through ::
  "('s \<Rightarrow> 'k \<Rightarrow> time \<Rightarrow> 'v option) \<Rightarrow> ('s \<Rightarrow> 'k \<Rightarrow> 'v \<Rightarrow> time \<Rightarrow> 's) \<Rightarrow> 's \<Rightarrow> 'k \<Rightarrow> time \<Rightarrow> time \<Rightarrow> 'v option \<Rightarrow> 's \<times> 'v option" where
  "read_through lookup store s k now t src =
     (case lookup s k now of
        Some v \<Rightarrow> (s, Some v)
      | None \<Rightarrow> (case src of None \<Rightarrow> (s, None) | Some v \<Rightarrow> (store s k v t, Some v)))"

text \<open>What happens to a cache: it is read through, or an operation drops some of its entries.\<close>

datatype ('s, 'k, 'v) cache_op = Read 'k time time "'v option" | Drop "'s \<Rightarrow> 's"

fun cache_run ::
  "('s \<Rightarrow> 'k \<Rightarrow> time \<Rightarrow> 'v option) \<Rightarrow> ('s \<Rightarrow> 'k \<Rightarrow> 'v \<Rightarrow> time \<Rightarrow> 's) \<Rightarrow> 's \<Rightarrow> ('s, 'k, 'v) cache_op list \<Rightarrow> 's" where
  "cache_run lookup store s [] = s"
| "cache_run lookup store s (Read k now t src # rs) =
     cache_run lookup store (fst (read_through lookup store s k now t src)) rs"
| "cache_run lookup store s (Drop f # rs) = cache_run lookup store (f s) rs"

locale ttl_cache =
  fixes lookup :: "'s \<Rightarrow> 'k \<Rightarrow> time \<Rightarrow> 'v option"
    and store :: "'s \<Rightarrow> 'k \<Rightarrow> 'v \<Rightarrow> time \<Rightarrow> 's"
    and empty :: 's
    and live :: "time \<Rightarrow> time \<Rightarrow> bool"
    and keyed :: "'k \<Rightarrow> 'v \<Rightarrow> bool"
  assumes lookup_empty: "lookup empty k now = None"
    and lookup_store: "keyed k v \<Longrightarrow> lookup (store s k v t) k now = (if live t now then Some v else None)"
    and lookup_store_other: "keyed k v \<Longrightarrow> k' \<noteq> k \<Longrightarrow> lookup (store s k v t) k' now = lookup s k' now"
begin

text \<open>An operation that makes nothing appear, and the runs made of such operations.\<close>

definition drops :: "('s \<Rightarrow> 's) \<Rightarrow> bool" where
  "drops f \<longleftrightarrow> (\<forall>s k now v. lookup (f s) k now = Some v \<longrightarrow> lookup s k now = Some v)"

definition proper :: "('s, 'k, 'v) cache_op \<Rightarrow> bool" where
  "proper c \<longleftrightarrow> (case c of Read k now t src \<Rightarrow> (\<forall>v. src = Some v \<longrightarrow> keyed k v) | Drop f \<Rightarrow> drops f)"

lemma dropsD: "drops f \<Longrightarrow> lookup (f s) k now = Some v \<Longrightarrow> lookup s k now = Some v"
  unfolding drops_def by blast

text \<open>Everything the cache can return was stored, and still lives.\<close>

lemma run_sound:
  assumes "\<And>k now v. lookup s k now = Some v \<Longrightarrow> \<exists>n t. Read k n t (Some v) \<in> set old \<and> live t now"
    and "\<forall>c \<in> set rs. proper c"
    and "lookup (cache_run lookup store s rs) k now = Some v"
  shows "\<exists>n t. Read k n t (Some v) \<in> set (old @ rs) \<and> live t now"
  using assms
proof (induction rs arbitrary: s old)
  case Nil
  then show ?case by simp
next
  case (Cons r rs)
  show ?case
  proof (cases r)
    case (Drop f)
    then have "drops f" using Cons.prems(2) by (simp add: proper_def)
    then have "\<exists>n t. Read k n t (Some v) \<in> set old \<and> live t now" if "lookup (f s) k now = Some v" for k now v
      using Cons.prems(1) [OF dropsD] that by blast
    note IH = Cons.IH [OF this]
    show ?thesis using IH Cons.prems(2,3) by (auto simp: Drop)
  next
    case (Read k' n' t' src)
    let ?s = "fst (read_through lookup store s k' n' t' src)"
    have "\<exists>n t. Read k n t (Some v) \<in> set (old @ [r]) \<and> live t now" if "lookup ?s k now = Some v" for k now v
    proof (cases "?s = s")
      case True
      then show ?thesis using Cons.prems(1) [of k now v] that by auto
    next
      case False
      then obtain w where w: "src = Some w" "?s = store s k' w t'"
        by (auto simp: read_through_def split: option.splits)
      have key: "keyed k' w" using Cons.prems(2) Read w(1) by (simp add: proper_def)
      show ?thesis
      proof (cases "k = k'")
        case True
        then show ?thesis using that w Read by (auto simp: lookup_store [OF key] split: if_splits)
      next
        case False
        then show ?thesis using that w Cons.prems(1) [of k now v] by (auto simp: lookup_store_other [OF key])
      qed
    qed
    note IH = Cons.IH [OF this, simplified]
    show ?thesis using IH Cons.prems(2,3) by (simp add: Read)
  qed
qed

lemma staleness:
  assumes "\<forall>c \<in> set rs. proper c"
    and "snd (read_through lookup store (cache_run lookup store empty rs) k now t' src) = Some v"
  shows "src = Some v \<or> (\<exists>n t. Read k n t (Some v) \<in> set rs \<and> live t now)"
proof (cases "lookup (cache_run lookup store empty rs) k now")
  case None
  then show ?thesis using assms(2) by (auto simp: read_through_def split: option.splits)
next
  case (Some w)
  then have "w = v" using assms(2) by (simp add: read_through_def)
  then show ?thesis using run_sound [of empty "[]" rs k now v] Some lookup_empty assms(1) by simp
qed

lemma repeated_read:
  assumes "read_through lookup store s k n t (Some v) = (s', Some v)" "lookup s k n = None" "live t now" "keyed k v"
  shows "read_through lookup store s' k now t' src = (s', Some v)"
  using assms by (auto simp: read_through_def lookup_store)

end

end
