(* ===== verification/Policy.thy ===== *)
theory Policy
  imports UnitInterval TtlCache
begin

section \<open>Circuit breakers, tenant policies and rate limits\<close>

text \<open>
  \<open>services/router/internal/policy/policy.go\<close>. Every method runs under its object's mutex
  and is one function of the state and the time at which it runs; the counters of a breaker
  count calls and are natural numbers.
\<close>

subsection \<open>The circuit breaker\<close>

datatype cb_status = CbClosed | CbOpen | CbHalfOpen

record circuit_breaker =
  cb_state :: cb_status
  cb_failures :: nat
  cb_successes :: nat
  cb_threshold :: nat
  cb_success_req :: nat
  cb_timeout :: time
  cb_last_fail :: time
  cb_model_id :: string

text \<open>The zero time, which an unset \<open>lastFail\<close> holds, is long past: the breaker is closed then.\<close>

definition new_circuit_breaker :: "string \<Rightarrow> circuit_breaker" where
  "new_circuit_breaker modelID =
     \<lparr>cb_state = CbClosed, cb_failures = 0, cb_successes = 0, cb_threshold = 3, cb_success_req = 2,
      cb_timeout = 20 * second, cb_last_fail = 0, cb_model_id = modelID\<rparr>"

definition cb_allow :: "circuit_breaker \<Rightarrow> time \<Rightarrow> circuit_breaker \<times> bool" where
  "cb_allow cb now =
     (case cb_state cb of
        CbOpen \<Rightarrow>
          if cb_timeout cb < now - cb_last_fail cb
          then (cb\<lparr>cb_state := CbHalfOpen, cb_successes := 0\<rparr>, True)
          else (cb, False)
      | _ \<Rightarrow> (cb, True))"

definition cb_record_success :: "circuit_breaker \<Rightarrow> circuit_breaker" where
  "cb_record_success cb =
     (let cb = cb\<lparr>cb_failures := 0\<rparr>
      in if cb_state cb = CbHalfOpen
         then let cb = cb\<lparr>cb_successes := cb_successes cb + 1\<rparr>
              in if cb_success_req cb \<le> cb_successes cb then cb\<lparr>cb_state := CbClosed\<rparr> else cb
         else cb)"

definition cb_record_failure :: "circuit_breaker \<Rightarrow> time \<Rightarrow> circuit_breaker" where
  "cb_record_failure cb now =
     (let cb = cb\<lparr>cb_failures := cb_failures cb + 1, cb_successes := 0, cb_last_fail := now\<rparr>
      in if cb_state cb = CbHalfOpen \<or> cb_threshold cb \<le> cb_failures cb
         then cb\<lparr>cb_state := CbOpen\<rparr> else cb)"

definition state_string :: "circuit_breaker \<Rightarrow> string" where
  "state_string cb =
     (case cb_state cb of CbOpen \<Rightarrow> ''open'' | CbHalfOpen \<Rightarrow> ''half-open'' | CbClosed \<Rightarrow> ''closed'')"

subsection \<open>The breaker registry\<close>

type_synonym breakers = "string \<rightharpoonup> circuit_breaker"

definition new_breakers :: breakers where
  "new_breakers = Map.empty"

definition breaker_get :: "breakers \<Rightarrow> string \<Rightarrow> breakers \<times> circuit_breaker" where
  "breaker_get r modelID =
     (case r modelID of
        Some cb \<Rightarrow> (r, cb)
      | None \<Rightarrow> let cb = new_circuit_breaker modelID in (r(modelID \<mapsto> cb), cb))"

definition states :: "breakers \<Rightarrow> string \<rightharpoonup> string" where
  "states r = (\<lambda>m. map_option state_string (r m))"

text \<open>The calls through the pointer a lookup returns.\<close>

definition breaker_allow :: "breakers \<Rightarrow> string \<Rightarrow> time \<Rightarrow> breakers \<times> bool" where
  "breaker_allow r modelID now =
     (let (r, cb) = breaker_get r modelID; (cb, ok) = cb_allow cb now in (r(modelID \<mapsto> cb), ok))"

definition breaker_success :: "breakers \<Rightarrow> string \<Rightarrow> breakers" where
  "breaker_success r modelID =
     (let (r, cb) = breaker_get r modelID in r(modelID \<mapsto> cb_record_success cb))"

definition breaker_failure :: "breakers \<Rightarrow> string \<Rightarrow> time \<Rightarrow> breakers" where
  "breaker_failure r modelID now =
     (let (r, cb) = breaker_get r modelID in r(modelID \<mapsto> cb_record_failure cb now))"

interpretation breakers: lazy_registry "\<lambda>r. r" breaker_get "\<lambda>r. new_circuit_breaker"
  by unfold_locales (auto simp: breaker_get_def Let_def split: option.splits)

subsection \<open>Tenant policies\<close>

record tenant_policy =
  tp_tenant_id :: string
  tp_routing_mode :: string
  tp_allowed_models :: "(string \<times> bool) list"
  tp_rate_limit :: int64
  tp_burst_limit :: int64
  tp_enabled :: bool

record policy_entry =
  pe_policy :: tenant_policy
  pe_fetched_at :: time

type_synonym policy_store = "string \<rightharpoonup> policy_entry"

definition policy_ttl :: time where
  "policy_ttl = 30 * second"

definition new_policy_store :: policy_store where
  "new_policy_store = Map.empty"

definition policy_get :: "policy_store \<Rightarrow> string \<Rightarrow> time \<Rightarrow> tenant_policy option" where
  "policy_get s tenantID now =
     (case s tenantID of
        None \<Rightarrow> None
      | Some e \<Rightarrow> if policy_ttl < now - pe_fetched_at e then None else Some (pe_policy e))"

definition policy_set :: "policy_store \<Rightarrow> tenant_policy \<Rightarrow> time \<Rightarrow> policy_store" where
  "policy_set s p now = s(tp_tenant_id p \<mapsto> \<lparr>pe_policy = p, pe_fetched_at = now\<rparr>)"

definition default_policy :: "string \<Rightarrow> tenant_policy" where
  "default_policy tenantID =
     \<lparr>tp_tenant_id = tenantID, tp_routing_mode = ''balanced'', tp_allowed_models = [],
      tp_rate_limit = 50, tp_burst_limit = 100, tp_enabled = True\<rparr>"

subsection \<open>The rate limiter\<close>

record bucket =
  bk_tokens :: f64
  bk_max_burst :: f64
  bk_rate :: f64
  bk_last_fill :: time

type_synonym rate_limiter = "string \<rightharpoonup> bucket"

definition new_rate_limiter :: rate_limiter where
  "new_rate_limiter = Map.empty"

text \<open>\<open>Duration.Seconds\<close>.\<close>

definition seconds :: "time \<Rightarrow> f64" where
  "seconds d = f64_add (f64_of_int (go_div d second)) (f64_div (f64_of_int (go_mod d second)) (f64_of_int second))"

definition min64 :: "f64 \<Rightarrow> f64 \<Rightarrow> f64" where
  "min64 a b = (if f64_lt a b then a else b)"

definition bucket_allow :: "bucket \<Rightarrow> int64 \<Rightarrow> int64 \<Rightarrow> time \<Rightarrow> bucket \<times> bool" where
  "bucket_allow b rateRps burst now =
     (let b = b\<lparr>bk_rate := f64_of_int (sint rateRps), bk_max_burst := f64_of_int (sint burst)\<rparr>;
          elapsed = seconds (now - bk_last_fill b);
          b = b\<lparr>bk_tokens := min64 (bk_max_burst b) (f64_add (bk_tokens b) (f64_mul elapsed (bk_rate b))),
                bk_last_fill := now\<rparr>
      in if f64_le f64_one (bk_tokens b)
         then (b\<lparr>bk_tokens := f64_sub (bk_tokens b) f64_one\<rparr>, True)
         else (b, False))"

text \<open>
  For a new bucket the code reads the clock once for \<open>lastFill\<close> and again for \<open>now\<close>; one
  reading stands for both, and the lemmas on the token bucket show that an earlier first one
  makes no difference, since a full bucket gains nothing.
\<close>

definition limiter_allow :: "rate_limiter \<Rightarrow> string \<Rightarrow> int64 \<Rightarrow> int64 \<Rightarrow> time \<Rightarrow> rate_limiter \<times> bool" where
  "limiter_allow rl tenantID rateRps burst now =
     (let b = (case rl tenantID of
                 Some b \<Rightarrow> b
               | None \<Rightarrow> \<lparr>bk_tokens = f64_of_int (sint burst), bk_max_burst = f64_of_int (sint burst),
                          bk_rate = f64_of_int (sint rateRps), bk_last_fill = now\<rparr>);
          (b, ok) = bucket_allow b rateRps burst now
      in (rl(tenantID \<mapsto> b), ok))"

record reject_metrics =
  rm_rate_limited :: int64
  rm_cb_blocked :: int64
  rm_policy_denied :: int64

definition add_rate_limited :: "reject_metrics \<Rightarrow> reject_metrics" where
  "add_rate_limited m = m\<lparr>rm_rate_limited := rm_rate_limited m + 1\<rparr>"

definition add_cb_blocked :: "reject_metrics \<Rightarrow> reject_metrics" where
  "add_cb_blocked m = m\<lparr>rm_cb_blocked := rm_cb_blocked m + 1\<rparr>"

definition add_policy_denied :: "reject_metrics \<Rightarrow> reject_metrics" where
  "add_policy_denied m = m\<lparr>rm_policy_denied := rm_policy_denied m + 1\<rparr>"

interpretation policies: ttl_cache policy_get "\<lambda>s k p t. policy_set s p t" new_policy_store
    "\<lambda>t now. now - t \<le> policy_ttl" "\<lambda>k p. tp_tenant_id p = k"
  by unfold_locales (auto simp: policy_get_def policy_set_def new_policy_store_def not_less)

subsection \<open>The specification of a breaker\<close>

text \<open>
  The contract: a closed breaker counts consecutive failures and trips at three; an open one
  refuses until twenty seconds after the last failure it saw and then probes; a probing one
  closes at two consecutive successes and trips at the first failure.
\<close>

datatype breaker_spec = Closed nat | Open time | HalfOpen nat

datatype breaker_event = Ask | Succeeded | Failed

fun spec_step :: "breaker_spec \<Rightarrow> breaker_event \<times> time \<Rightarrow> breaker_spec" where
  "spec_step (Closed n) (Ask, now) = Closed n"
| "spec_step (Closed n) (Succeeded, now) = Closed 0"
| "spec_step (Closed n) (Failed, now) = (if n + 1 < 3 then Closed (n + 1) else Open now)"
| "spec_step (Open t) (Ask, now) = (if 20 * second < now - t then HalfOpen 0 else Open t)"
| "spec_step (Open t) (Succeeded, now) = Open t"
| "spec_step (Open t) (Failed, now) = Open now"
| "spec_step (HalfOpen n) (Ask, now) = HalfOpen n"
| "spec_step (HalfOpen n) (Succeeded, now) = (if n + 1 < 2 then HalfOpen (n + 1) else Closed 0)"
| "spec_step (HalfOpen n) (Failed, now) = Open now"

definition spec_answer :: "breaker_spec \<Rightarrow> time \<Rightarrow> bool" where
  "spec_answer s now = (case s of Open t \<Rightarrow> 20 * second < now - t | _ \<Rightarrow> True)"

definition breaker_abs :: "circuit_breaker \<Rightarrow> breaker_spec" where
  "breaker_abs cb =
     (case cb_state cb of
        CbClosed \<Rightarrow> Closed (cb_failures cb) | CbOpen \<Rightarrow> Open (cb_last_fail cb) | CbHalfOpen \<Rightarrow> HalfOpen (cb_successes cb))"

fun breaker_step :: "circuit_breaker \<Rightarrow> breaker_event \<times> time \<Rightarrow> circuit_breaker" where
  "breaker_step cb (Ask, now) = fst (cb_allow cb now)"
| "breaker_step cb (Succeeded, now) = cb_record_success cb"
| "breaker_step cb (Failed, now) = cb_record_failure cb now"

definition breaker_inv :: "circuit_breaker \<Rightarrow> bool" where
  "breaker_inv cb \<longleftrightarrow> cb_threshold cb = 3 \<and> cb_success_req cb = 2 \<and> cb_timeout cb = 20 * second
     \<and> (cb_state cb = CbClosed \<longrightarrow> cb_failures cb < 3) \<and> (cb_state cb = CbHalfOpen \<longrightarrow> cb_successes cb < 2)"

lemma breaker_inv_new [invariants]: "breaker_inv (new_circuit_breaker m)"
  by (simp add: breaker_inv_def new_circuit_breaker_def)

lemma breaker_abs_new [simp]: "breaker_abs (new_circuit_breaker m) = Closed 0"
  by (simp add: breaker_abs_def new_circuit_breaker_def)

lemmas breaker_defs = breaker_inv_def breaker_abs_def cb_allow_def cb_record_success_def cb_record_failure_def

lemma breaker_step_refines:
  assumes "breaker_inv cb"
  shows "breaker_inv (breaker_step cb ev) \<and> breaker_abs (breaker_step cb ev) = spec_step (breaker_abs cb) ev"
proof (cases ev)
  case (Pair k now)
  then show ?thesis
    using assms by (cases k; cases "cb_state cb") (auto simp: breaker_defs Let_def)
qed

lemma breaker_run_refines:
  assumes "breaker_inv cb"
  shows "breaker_inv (foldl breaker_step cb evs)
    \<and> breaker_abs (foldl breaker_step cb evs) = foldl spec_step (breaker_abs cb) evs"
  using assms
proof (induction evs arbitrary: cb)
  case (Cons ev evs)
  then show ?case using breaker_step_refines [OF Cons.prems, of ev] by simp
qed simp

lemma cb_allow_answer: "breaker_inv cb \<Longrightarrow> snd (cb_allow cb now) = spec_answer (breaker_abs cb) now"
  by (auto simp: breaker_defs spec_answer_def split: cb_status.split)

text \<open>C17. The breaker implements its specification: from creation on, after any sequence of
  requests, successes and failures at any times, its state is the abstract one and it answers
  a request the way the specification does; in particular it is closed only with fewer than
  three failures counted and probing only with fewer than two successes.\<close>

theorem breaker_refines_spec:
  "breaker_abs (foldl breaker_step (new_circuit_breaker m) evs) = foldl spec_step (Closed 0) evs
    \<and> snd (cb_allow (foldl breaker_step (new_circuit_breaker m) evs) now) = spec_answer (foldl spec_step (Closed 0) evs) now
    \<and> (case foldl spec_step (Closed 0) evs of Closed n \<Rightarrow> n < 3 | HalfOpen n \<Rightarrow> n < 2 | Open t \<Rightarrow> True)"
proof -
  let ?cb = "foldl breaker_step (new_circuit_breaker m) evs"
  have "breaker_inv ?cb" "breaker_abs ?cb = foldl spec_step (Closed 0) evs"
    using breaker_run_refines [OF breaker_inv_new, of m evs] by simp_all
  then show ?thesis
    using cb_allow_answer [of ?cb now]
    by (auto simp: breaker_inv_def breaker_abs_def split: breaker_spec.split cb_status.splits)
qed

text \<open>
  \<open>too_soon t evs\<close>: after a failure at \<open>t\<close>, every request of \<open>evs\<close> comes within twenty
  seconds of the last failure before it.
\<close>

fun too_soon :: "time \<Rightarrow> (breaker_event \<times> time) list \<Rightarrow> bool" where
  "too_soon t [] \<longleftrightarrow> True"
| "too_soon t ((Ask, now) # evs) \<longleftrightarrow> now \<le> t + 20 * second \<and> too_soon t evs"
| "too_soon t ((Succeeded, now) # evs) \<longleftrightarrow> too_soon t evs"
| "too_soon t ((Failed, now) # evs) \<longleftrightarrow> too_soon now evs"

definition last_failure :: "time \<Rightarrow> (breaker_event \<times> time) list \<Rightarrow> time" where
  "last_failure t evs = last (t # map snd (filter (\<lambda>(k, now). k = Failed) evs))"

lemma spec_blocks: "too_soon t evs \<Longrightarrow> foldl spec_step (Open t) evs = Open (last_failure t evs)"
  by (induction t evs rule: too_soon.induct) (simp_all add: last_failure_def)

text \<open>C28. A tripped breaker protects its model and lets it come back. As long as every request
  comes within twenty seconds of the last failure before it, the breaker stays open, whatever
  successes and failures of earlier calls come in late: each such request is refused, and the
  twenty seconds count from the last failure. The first request that comes later, at whatever
  time, is let through as a probe, and so are the requests behind it; then two successes
  close the breaker, and one failure opens it again and starts new twenty seconds.\<close>

theorem breaker_blocks_and_recovers:
  assumes "breaker_inv cb" "cb_state cb = CbOpen" "too_soon (cb_last_fail cb) evs"
  defines "p \<equiv> foldl breaker_step cb evs" and "t \<equiv> last_failure (cb_last_fail cb) evs"
  shows "cb_state p = CbOpen \<and> cb_last_fail p = t
    \<and> (\<forall>now. snd (cb_allow p now) = (t + 20 * second < now))
    \<and> (\<forall>now > t + 20 * second. \<forall>u.
         snd (cb_allow (fst (cb_allow p now)) u)
         \<and> cb_state (cb_record_success (fst (cb_allow (cb_record_success (fst (cb_allow p now))) u))) = CbClosed
         \<and> cb_state (cb_record_failure (fst (cb_allow p now)) u) = CbOpen
         \<and> cb_last_fail (cb_record_failure (fst (cb_allow p now)) u) = u)"
proof -
  have "breaker_abs cb = Open (cb_last_fail cb)" using assms(2) by (simp add: breaker_abs_def)
  then have p: "breaker_abs p = Open t" "breaker_inv p"
    using breaker_run_refines [OF assms(1), of evs] spec_blocks [OF assms(3)] by (simp_all add: p_def t_def)
  then have "cb_state p = CbOpen" "cb_last_fail p = t" "cb_timeout p = 20 * second" "cb_success_req p = 2"
    by (auto simp: breaker_abs_def breaker_inv_def split: cb_status.splits)
  then show ?thesis
    by (auto simp: cb_allow_def cb_record_success_def cb_record_failure_def Let_def)
qed

text \<open>The failures since the last success, requests aside.\<close>

definition streak :: "(breaker_event \<times> time) list \<Rightarrow> nat" where
  "streak evs = length (takeWhile (\<lambda>k. k = Failed) (rev (filter (\<lambda>k. k \<noteq> Ask) (map fst evs))))"

lemma streak_snoc [simp]:
  "streak [] = 0" "streak (evs @ [(Ask, now)]) = streak evs" "streak (evs @ [(Succeeded, now)]) = 0"
  "streak (evs @ [(Failed, now)]) = Suc (streak evs)"
  by (simp_all add: streak_def)

lemma all_prefixes_snoc:
  "(\<forall>k \<le> length (xs @ [x]). P (take k (xs @ [x]))) \<longleftrightarrow> (\<forall>k \<le> length xs. P (take k xs)) \<and> P (xs @ [x])"
  by (auto simp: le_Suc_eq)

lemma spec_closed_streak:
  assumes "\<forall>k \<le> length evs. streak (take k evs) < 3"
  shows "foldl spec_step (Closed 0) evs = Closed (streak evs)"
  using assms
proof (induction evs rule: rev_induct)
  case (snoc ev evs)
  obtain k now where e: "ev = (k, now)" by fastforce
  have "\<forall>k \<le> length evs. streak (take k evs) < 3" "streak (evs @ [ev]) < 3"
    using snoc.prems unfolding all_prefixes_snoc [of _ _ "\<lambda>es. streak es < 3"] by blast+
  then show ?case using snoc.IH by (cases k) (simp_all add: e)
qed simp

lemma spec_closed_prefixes:
  "(\<forall>k \<le> length evs. \<exists>n. foldl spec_step (Closed 0) (take k evs) = Closed n)
    \<longleftrightarrow> (\<forall>k \<le> length evs. streak (take k evs) < 3)"
proof (induction evs rule: rev_induct)
  case (snoc ev evs)
  let ?closed = "\<lambda>es. \<exists>n. foldl spec_step (Closed 0) es = Closed n"
  have "?closed (evs @ [ev]) \<longleftrightarrow> streak (evs @ [ev]) < 3" if p: "\<forall>k \<le> length evs. streak (take k evs) < 3"
  proof -
    obtain k now where e: "ev = (k, now)" by fastforce
    have "foldl spec_step (Closed 0) (evs @ [ev]) = spec_step (Closed (streak evs)) ev"
      using spec_closed_streak [OF p] by simp
    moreover have "streak evs < 3" using p [rule_format, of "length evs"] by simp
    ultimately show ?thesis by (cases k) (simp_all add: e)
  qed
  then show ?case unfolding all_prefixes_snoc [of _ _ ?closed] all_prefixes_snoc [of _ _ "\<lambda>es. streak es < 3"]
    using snoc.IH by blast
qed simp

text \<open>C27. The trip condition: a breaker is closed all along a sequence of events exactly if no
  three failures follow one another without a success in between; requests do not matter.\<close>

theorem breaker_trips_iff:
  "(\<forall>k \<le> length evs. cb_state (foldl breaker_step (new_circuit_breaker m) (take k evs)) = CbClosed)
    \<longleftrightarrow> (\<forall>k \<le> length evs. streak (take k evs) < 3)"
proof -
  have c: "cb_state cb = CbClosed \<longleftrightarrow> (\<exists>n. breaker_abs cb = Closed n)" for cb
    by (cases "cb_state cb") (simp_all add: breaker_abs_def)
  have "breaker_abs (foldl breaker_step (new_circuit_breaker m) es) = foldl spec_step (Closed 0) es" for es
    using breaker_run_refines [OF breaker_inv_new, of m es] by simp
  then show ?thesis unfolding c spec_closed_prefixes [symmetric] by simp
qed

theorem breaker_trips_iff_witness:
  "cb_state (foldl breaker_step (new_circuit_breaker ''m'') [(Failed, 1), (Failed, 2), (Ask, 3), (Succeeded, 4)]) = CbClosed"
proof -
  have "\<forall>k \<le> length [(Failed, 1 :: time), (Failed, 2), (Ask, 3), (Succeeded, 4)].
      streak (take k [(Failed, 1), (Failed, 2), (Ask, 3), (Succeeded, 4)]) < 3"
    by (auto simp: streak_def le_Suc_eq)
  then have "\<forall>k \<le> length [(Failed, 1 :: time), (Failed, 2), (Ask, 3), (Succeeded, 4)].
      cb_state (foldl breaker_step (new_circuit_breaker ''m'') (take k [(Failed, 1), (Failed, 2), (Ask, 3), (Succeeded, 4)])) = CbClosed"
    by (simp only: breaker_trips_iff)
  from this [rule_format, of 4] show ?thesis by simp
qed

theorem breaker_blocks_and_recovers_witness:
  "\<not> snd (cb_allow (foldl breaker_step ((new_circuit_breaker ''m'')\<lparr>cb_state := CbOpen, cb_last_fail := 7\<rparr>)
       [(Failed, 9), (Ask, 20 * second + 9), (Succeeded, 30 * second)]) (20 * second + 9))
   \<and> snd (cb_allow (foldl breaker_step ((new_circuit_breaker ''m'')\<lparr>cb_state := CbOpen, cb_last_fail := 7\<rparr>)
       [(Failed, 9), (Ask, 20 * second + 9), (Succeeded, 30 * second)]) (50 * second))"
  using breaker_blocks_and_recovers [of "(new_circuit_breaker ''m'')\<lparr>cb_state := CbOpen, cb_last_fail := 7\<rparr>"
      "[(Failed, 9), (Ask, 20 * second + 9), (Succeeded, 30 * second)]"]
  by (simp add: breaker_inv_def new_circuit_breaker_def last_failure_def)

subsection \<open>Registry and policy cache\<close>

text \<open>Breakers are independent: the outcome of a model's request changes the breaker of no
  other model, and every model starts with a closed one.\<close>

theorem breakers_independent:
  assumes "m \<noteq> k"
  shows "snd (breaker_get (breaker_failure r m now) k) = snd (breaker_get r k)
    \<and> snd (breaker_get (breaker_success r m) k) = snd (breaker_get r k)
    \<and> snd (breaker_get (fst (breaker_allow r m now)) k) = snd (breaker_get r k)
    \<and> snd (breaker_allow new_breakers k now)"
proof -
  have o: "fst (breaker_get r m) k = r k" using breakers.find_get_other [of k m r] assms by simp
  have "snd (breaker_get ((fst (breaker_get r m))(m \<mapsto> c)) k) = snd (breaker_get r k)" for c
    using o assms by (simp add: breakers.get_value)
  then show ?thesis
    by (simp add: breaker_failure_def breaker_success_def breaker_allow_def case_prod_unfold Let_def)
      (simp add: breaker_get_def new_breakers_def new_circuit_breaker_def cb_allow_def Let_def)
qed

theorem breakers_independent_witness:
  "snd (breaker_get (breaker_failure new_breakers ''a'' 1) ''b'') = snd (breaker_get new_breakers ''b'')"
  using breakers_independent [of "''a''" "''b''" new_breakers 1] by simp

text \<open>A tenant's policy is never staler than thirty seconds: what the router works with after
  any history of reads through the cache is what the store just returned for the tenant, or
  what it returned for the same tenant at most thirty seconds ago.\<close>

theorem policy_staleness:
  assumes "\<forall>(k, n, t, src) \<in> set rs. \<forall>p. src = Some p \<longrightarrow> tp_tenant_id p = k"
    and "snd (read_through policy_get (\<lambda>s k p t. policy_set s p t)
          (cache_run policy_get (\<lambda>s k p t. policy_set s p t) new_policy_store (map (\<lambda>(k, n, t, src). Read k n t src) rs))
          tenant now t' src) = Some p"
  shows "src = Some p \<or> (\<exists>n t. (tenant, n, t, Some p) \<in> set rs \<and> now - t \<le> 30000000000)"
proof -
  have "\<forall>c \<in> set (map (\<lambda>(k, n, t, src). Read k n t src) rs). policies.proper c"
    using assms(1) by (auto simp: policies.proper_def)
  from policies.staleness [OF this assms(2)] show ?thesis by (auto simp: policy_ttl_def)
qed

theorem policy_staleness_witness:
  "snd (read_through policy_get (\<lambda>s k p t. policy_set s p t)
     (cache_run policy_get (\<lambda>s k p t. policy_set s p t) new_policy_store [Read ''t'' 5 5 (Some (default_policy ''t''))])
     ''t'' 6 6 None)
   = Some (default_policy ''t'') \<and> (6::time) - 5 \<le> 30000000000"
proof -
  have "snd (read_through policy_get (\<lambda>s k p t. policy_set s p t)
     (cache_run policy_get (\<lambda>s k p t. policy_set s p t) new_policy_store [Read ''t'' 5 5 (Some (default_policy ''t''))])
     ''t'' 6 6 None) = Some (default_policy ''t'')"
    by (simp add: read_through_def policy_get_def policy_set_def new_policy_store_def default_policy_def policy_ttl_def)
  then show ?thesis
    using policy_staleness [of "[(''t'', 5, 5, Some (default_policy ''t''))]" "''t''" 6 6 None "default_policy ''t''"]
    by (simp add: default_policy_def)
qed

subsection \<open>The token bucket\<close>

lemma min64_key:
  assumes "\<not> f64_is_nan a" "\<not> f64_is_nan b"
  shows "f64_key (min64 a b) = min (f64_key a) (f64_key b)"
  using assms by (simp add: min64_def f64_lt_def)

lemma seconds_zero: "f64_key (seconds 0) = 0" "f64_finite (seconds 0)"
proof -
  have z: "f64_val (f64_of_int 0) = 0" "f64_finite (f64_of_int 0)" using f64_of_int_exact [of 0] by simp_all
  have s: "f64_finite (f64_of_int second)" "f64_val (f64_of_int second) \<noteq> 0"
    using f64_of_int_exact [of second] by simp_all
  have r: "rnd_key 0 = 0" using rnd_key_val [of f64_zero] by simp
  have d: "f64_key (f64_div (f64_of_int 0) (f64_of_int second)) = 0"
    using f64_div_props(1) [OF z(2) s] z(1) r by simp
  then have d': "f64_finite (f64_div (f64_of_int 0) (f64_of_int second))" "f64_val (f64_div (f64_of_int 0) (f64_of_int second)) = 0"
    using f64_val_inject_key [of _ f64_zero] by (simp_all add: f64_finite_key inf_mag_pos)
  show k: "f64_key (seconds 0) = 0"
    using f64_add_props(1) [OF z(2) d'(1)] z(1) d'(2) r by (simp add: seconds_def)
  then show "f64_finite (seconds 0)" by (simp add: f64_finite_key inf_mag_pos)
qed

text \<open>\<open>tokens_are n b\<close>: the bucket holds exactly \<open>n\<close> tokens.\<close>

definition tokens_are :: "int \<Rightarrow> bucket \<Rightarrow> bool" where
  "tokens_are n b \<longleftrightarrow> f64_key (bk_tokens b) = f64_key (f64_of_int n)"

lemma int_tokens:
  assumes "0 \<le> n" "n < 2 ^ 53" "f64_key x = f64_key (f64_of_int n)"
  shows "f64_finite x" "f64_val x = of_int n" "\<not> f64_is_nan x"
proof -
  have n: "f64_finite (f64_of_int n)" "f64_val (f64_of_int n) = of_int n" using f64_of_int_exact [of n] assms by simp_all
  show f: "f64_finite x" using n(1) assms(3) by (simp add: f64_finite_key)
  show "f64_val x = of_int n" using f64_val_inject_key [OF assms(3)] n(2) by simp
  show "\<not> f64_is_nan x" using f by (simp add: f64_finite_def f64_is_nan_def)
qed

lemma bucket_allow_now:
  assumes "tokens_are n b" "0 \<le> n" "n \<le> sint burst" "sint burst < 2 ^ 53" "bk_last_fill b = now" "0 \<le> sint rate"
  shows "snd (bucket_allow b rate burst now) = (0 < n)" "bk_last_fill (fst (bucket_allow b rate burst now)) = now"
    and "tokens_are (if 0 < n then n - 1 else n) (fst (bucket_allow b rate burst now))"
proof -
  have n: "f64_finite (bk_tokens b)" "f64_val (bk_tokens b) = of_int n" "\<not> f64_is_nan (bk_tokens b)"
    using int_tokens [of n "bk_tokens b"] assms(1-4) by (simp_all add: tokens_are_def)
  have nk: "f64_key (bk_tokens b) = f64_key (f64_of_int n)" using assms(1) by (simp add: tokens_are_def)
  let ?r = "f64_of_int (sint rate)" and ?B = "f64_of_int (sint burst)"
  have r: "f64_finite ?r" using f64_of_int_finite(1) [OF assms(6)] sint_bounds64(2) [of rate] by simp
  have z: "f64_val (seconds 0) = 0" using f64_val_inject_key [of "seconds 0" f64_zero] seconds_zero(1) by simp
  have "rnd_key 0 = 0" using rnd_key_val [of f64_zero] by simp
  then have e: "f64_key (f64_mul (seconds 0) ?r) = 0"
    using f64_mul_props(1) [OF seconds_zero(2) r] z by simp
  then have e': "f64_finite (f64_mul (seconds 0) ?r)" "f64_val (f64_mul (seconds 0) ?r) = 0"
    using f64_val_inject_key [of _ f64_zero] by (simp_all add: f64_finite_key inf_mag_pos)
  let ?t = "f64_add (bk_tokens b) (f64_mul (seconds 0) ?r)"
  have t: "f64_key ?t = f64_key (f64_of_int n)" "\<not> f64_is_nan ?t"
    using f64_add_props [OF n(1) e'(1)] n(2) e'(2) rnd_key_val [OF n(1)] nk by simp_all
  have B: "f64_key (f64_of_int n) \<le> f64_key ?B" "\<not> f64_is_nan ?B" using f64_of_int_mono [OF assms(3)] f64_of_int_props by simp_all
  define m where "m = min64 ?B ?t"
  have m: "f64_key m = f64_key (f64_of_int n)" using min64_key [OF B(2) t(2)] t(1) B(1) by (simp add: m_def)
  note mi = int_tokens [OF assms(2) _ m]
  have le: "f64_le f64_one m \<longleftrightarrow> 0 < n"
    using mi assms(3,4) f64_le_finite [of f64_one m] by auto
  have sub: "f64_key (f64_sub m f64_one) = f64_key (f64_of_int (n - 1))" if "0 < n"
  proof -
    have "f64_key (f64_sub m f64_one) = rnd_key (of_int (n - 1))"
      using f64_sub_props(1) [of m f64_one] mi assms(3,4) by simp
    then show ?thesis by (simp only: f64_of_int_props(1))
  qed
  have eq: "bucket_allow b rate burst now =
     (if f64_le f64_one m
      then (b\<lparr>bk_rate := ?r, bk_max_burst := ?B, bk_tokens := f64_sub m f64_one, bk_last_fill := now\<rparr>, True)
      else (b\<lparr>bk_rate := ?r, bk_max_burst := ?B, bk_tokens := m, bk_last_fill := now\<rparr>, False))"
    by (simp add: bucket_allow_def Let_def assms(5) m_def)
  show "snd (bucket_allow b rate burst now) = (0 < n)" "bk_last_fill (fst (bucket_allow b rate burst now)) = now"
    "tokens_are (if 0 < n then n - 1 else n) (fst (bucket_allow b rate burst now))"
    using le sub m by (simp_all add: eq tokens_are_def)
qed

fun bucket_run :: "nat \<Rightarrow> bucket \<Rightarrow> int64 \<Rightarrow> int64 \<Rightarrow> time \<Rightarrow> bool list \<times> bucket" where
  "bucket_run 0 b rate burst now = ([], b)"
| "bucket_run (Suc k) b rate burst now =
     (let (b, ok) = bucket_allow b rate burst now; (oks, b) = bucket_run k b rate burst now in (ok # oks, b))"

lemma bucket_run_now:
  assumes "tokens_are n b" "0 \<le> n" "n \<le> sint burst" "sint burst < 2 ^ 53" "bk_last_fill b = now" "0 \<le> sint rate"
  shows "fst (bucket_run k b rate burst now) = replicate (min k (nat n)) True @ replicate (k - nat n) False"
  using assms
proof (induction k arbitrary: b n)
  case (Suc k)
  note s = bucket_allow_now [OF Suc.prems]
  have "fst (bucket_run k (fst (bucket_allow b rate burst now)) rate burst now)
      = replicate (min k (nat (if 0 < n then n - 1 else n))) True @ replicate (k - nat (if 0 < n then n - 1 else n)) False"
    using Suc.prems by (intro Suc.IH [OF s(3) _ _ _ s(2)]) auto
  moreover have "nat n = Suc (nat (n - 1))" if "0 < n" using that by simp
  ultimately show ?case using s(1) Suc.prems(2) by (cases "n = 0") (auto simp: case_prod_unfold Let_def)
qed simp



lemma seconds_small:
  assumes "0 \<le> d" "d < 2 ^ 63"
  shows "f64_small 64 (seconds d)"
proof -
  have "d div second \<le> d" using assms(1) by linarith
  then have "f64_small 63 (f64_of_int (d div second))"
    using assms by (intro f64_small_int) simp_all
  moreover have "f64_small 63 (f64_div (f64_of_int (d mod second)) (f64_of_int second))"
    by (rule f64_small_mono [OF f64_small_unit [OF f64_unit_ratio]]) (simp_all add: order_less_imp_le)
  ultimately have "f64_small (Suc 63) (f64_add (f64_of_int (d div second)) (f64_div (f64_of_int (d mod second)) (f64_of_int second)))"
    by (rule f64_small_add) simp
  then show ?thesis using assms(1) by (simp add: seconds_def)
qed

definition bucket_inv :: "bucket \<Rightarrow> bool" where
  "bucket_inv b \<longleftrightarrow> f64_small 100 (bk_tokens b)"

text \<open>The bucket a request finds: the tenant's, or a full one made at the instant \<open>t0\<close>.\<close>

definition found_bucket :: "rate_limiter \<Rightarrow> string \<Rightarrow> int64 \<Rightarrow> int64 \<Rightarrow> time \<Rightarrow> bucket" where
  "found_bucket rl tenant rate burst t0 =
     (case rl tenant of
        Some b \<Rightarrow> b
      | None \<Rightarrow> \<lparr>bk_tokens = f64_of_int (sint burst), bk_max_burst = f64_of_int (sint burst),
                 bk_rate = f64_of_int (sint rate), bk_last_fill = t0\<rparr>)"

lemma limiter_allow_eq:
  "limiter_allow rl tenant rate burst now =
     (rl(tenant \<mapsto> fst (bucket_allow (found_bucket rl tenant rate burst now) rate burst now)),
      snd (bucket_allow (found_bucket rl tenant rate burst now) rate burst now))"
  by (simp add: limiter_allow_def found_bucket_def case_prod_unfold Let_def split: option.split)

lemma small_not_nan: "f64_small k x \<Longrightarrow> \<not> f64_is_nan x"
  by (auto simp: f64_small_def f64_finite_def f64_is_nan_def)

text \<open>The refilled content: between the old one, capped at the burst limit, and that limit.\<close>

lemma refill_bounds:
  fixes b :: bucket and rate burst :: int64
  assumes "bucket_inv b" "0 \<le> sint rate" "0 \<le> sint burst" "bk_last_fill b \<le> now" "now - bk_last_fill b < 2 ^ 63"
  defines "B \<equiv> f64_of_int (sint burst)"
  defines "m \<equiv> min64 B (f64_add (bk_tokens b) (f64_mul (seconds (now - bk_last_fill b)) (f64_of_int (sint rate))))"
  shows "f64_small 63 m" "f64_val m \<le> f64_val B" "min (f64_val B) (f64_val (bk_tokens b)) \<le> f64_val m"
    and "f64_small 63 B"
proof -
  let ?r = "f64_of_int (sint rate)" and ?e = "seconds (now - bk_last_fill b)"
  show B: "f64_small 63 B"
    using assms(3) sint_bounds64(2) [of burst] by (auto simp: B_def intro!: f64_small_int)
  have r: "f64_small 63 ?r" using assms(2) sint_bounds64(2) [of rate] by (auto intro!: f64_small_int)
  have er: "f64_small (64 + 63) (f64_mul ?e ?r)"
    using f64_small_mul [OF seconds_small r] assms(4,5) by simp
  have tk: "f64_small 127 (bk_tokens b)" using assms(1) f64_small_mono by (simp add: bucket_inv_def)
  let ?t = "f64_add (bk_tokens b) (f64_mul ?e ?r)"
  have t: "f64_small 128 ?t" using er tk f64_small_add [of 127 "bk_tokens b" "f64_mul ?e ?r"] by simp
  have "rnd_key (f64_val (bk_tokens b)) \<le> f64_key ?t"
    using tk er by (simp add: f64_small_def f64_add_props(1) rnd_key_mono)
  then have up: "f64_key (bk_tokens b) \<le> f64_key ?t" using tk rnd_key_val by (simp add: f64_small_def)
  have m: "f64_key m = min (f64_key B) (f64_key ?t)"
    using min64_key [OF small_not_nan [OF B] small_not_nan [OF t]] by (simp add: m_def)
  have "f64_key f64_zero \<le> f64_key ?t" "f64_key f64_zero \<le> f64_key B"
    using B t f64_val_le_iff [of f64_zero ?t] f64_val_le_iff [of f64_zero B] by (simp_all add: f64_small_def)
  then have m0: "0 \<le> f64_key m" "f64_key m \<le> f64_key B" by (simp_all add: m)
  have Bf: "f64_finite B" "f64_val B \<le> 2 ^ 63" using B by (simp_all add: f64_small_def)
  have "f64_finite m" using f64_finite_between [OF f64_zero_props(3) Bf(1), of m] m0 by simp
  then show "f64_small 63 m"
    using m0 Bf(2) f64_val_le_iff [of f64_zero m] f64_val_le_iff [of m B] by (simp add: f64_small_def)
  show "f64_val m \<le> f64_val B" using m0(2) by (simp add: f64_val_le_iff)
  show "min (f64_val B) (f64_val (bk_tokens b)) \<le> f64_val m"
    using up m f64_val_le_iff [of B m] f64_val_le_iff [of "bk_tokens b" m] by (auto simp: min_def split: if_splits)
qed

text \<open>C26. What a request does to its tenant's bucket, when rate and burst limit are not
  negative and the clock has neither gone back since the last request nor forward by 292
  years. The bucket it finds is the tenant's or, for a first
  request, a full one (created at any earlier instant: waiting fills a full bucket no
  further). It is refilled to at least what it held and to at most the current burst limit,
  so that an idle tenant gains at most one burst. A request is granted exactly when one whole
  token is there and takes just that one; a refused request spends nothing: the bucket keeps
  what it was refilled to, which is less than a token and, the burst limit apart, not less
  than before. The content is never negative and never above the burst limit, so the same
  holds for the next request; and no other tenant's bucket is touched.\<close>

theorem bucket_bounds:
  fixes rl :: rate_limiter and rate burst :: int64 and now :: time
  assumes "\<forall>b. rl tenant = Some b \<longrightarrow> bucket_inv b" "0 \<le> sint rate" "0 \<le> sint burst"
  defines "b \<equiv> found_bucket rl tenant rate burst now"
  assumes "bk_last_fill b \<le> now" "now - bk_last_fill b < 2 ^ 63" "other \<noteq> tenant"
  shows "\<exists>b' t. fst (limiter_allow rl tenant rate burst now) tenant = Some b' \<and> bucket_inv b'
    \<and> min (f64_val (f64_of_int (sint burst))) (f64_val (bk_tokens b)) \<le> f64_val t
    \<and> f64_val t \<le> f64_val (f64_of_int (sint burst))
    \<and> snd (limiter_allow rl tenant rate burst now) = (1 \<le> f64_val t)
    \<and> bk_tokens b' = (if 1 \<le> f64_val t then f64_sub t f64_one else t)
    \<and> 0 \<le> f64_val (bk_tokens b') \<and> f64_val (bk_tokens b') \<le> f64_val (f64_of_int (sint burst))
    \<and> (\<forall>t0. rl tenant = None \<and> t0 \<le> now \<and> now - t0 < 2 ^ 63 \<longrightarrow>
         f64_val t = f64_val (f64_of_int (sint burst))
         \<and> snd (bucket_allow (found_bucket rl tenant rate burst t0) rate burst now) = (1 \<le> f64_val t)
         \<and> f64_val (bk_tokens (fst (bucket_allow (found_bucket rl tenant rate burst t0) rate burst now)))
             = f64_val (bk_tokens b'))
    \<and> fst (limiter_allow rl tenant rate burst now) other = rl other"
proof -
  let ?B = "f64_of_int (sint burst)" and ?r = "f64_of_int (sint rate)"
  define fill where "fill b = min64 ?B (f64_add (bk_tokens b) (f64_mul (seconds (now - bk_last_fill b)) ?r))" for b :: bucket
  have B: "f64_small 63 ?B" using assms(3) sint_bounds64(2) [of burst] by (auto intro!: f64_small_int)
  have inv: "bucket_inv (found_bucket rl tenant rate burst t0)" for t0
    using assms(1) f64_small_mono [OF B] by (auto simp: found_bucket_def bucket_inv_def split: option.split)
  have step: "snd (bucket_allow c rate burst now) = (1 \<le> f64_val (fill c))"
      "bk_tokens (fst (bucket_allow c rate burst now))
        = (if 1 \<le> f64_val (fill c) then f64_sub (fill c) f64_one else fill c)"
    if "f64_small 63 (fill c)" for c
    using that f64_le_finite [of f64_one "fill c"] by (simp_all add: bucket_allow_def Let_def fill_def f64_small_def)
  note t = refill_bounds [OF inv [of now, folded b_def] assms(2,3,5,6), folded fill_def]
  have sub: "0 \<le> f64_val (f64_sub (fill b) f64_one) \<and> f64_val (f64_sub (fill b) f64_one) \<le> f64_val ?B
      \<and> f64_small 63 (f64_sub (fill b) f64_one)" if "1 \<le> f64_val (fill b)"
  proof -
    have k: "f64_key (f64_sub (fill b) f64_one) = rnd_key (f64_val (fill b) - 1)"
      using f64_sub_props(1) [of "fill b" f64_one] t(1) by (simp add: f64_small_def)
    then have s: "f64_small 63 (f64_sub (fill b) f64_one)"
      using that t(1) by (intro rnd_small [OF k]) (simp_all add: f64_small_def)
    have "f64_key (f64_sub (fill b) f64_one) \<le> f64_key ?B"
      using rnd_key_le [of ?B "f64_val (fill b) - 1"] t(2,4) by (simp add: k f64_small_def)
    then show ?thesis using s by (simp add: f64_val_le_iff f64_small_def)
  qed
  have full: "f64_val (fill (found_bucket rl tenant rate burst t0)) = f64_val ?B
      \<and> f64_small 63 (fill (found_bucket rl tenant rate burst t0))"
    if n: "rl tenant = None" "t0 \<le> now" "now - t0 < 2 ^ 63" for t0
  proof -
    have "bk_last_fill (found_bucket rl tenant rate burst t0) = t0" "bk_tokens (found_bucket rl tenant rate burst t0) = ?B"
      using n(1) by (simp_all add: found_bucket_def)
    then show ?thesis
      using refill_bounds [OF inv [of t0] assms(2,3), of now, folded fill_def] n(2,3) by auto
  qed
  have same: "f64_val (f64_sub x f64_one) = f64_val (f64_sub y f64_one)"
    if "f64_val x = f64_val y" "f64_small 63 x" "f64_small 63 y" for x y
    using that f64_val_inject_key [of "f64_sub x f64_one" "f64_sub y f64_one"]
      f64_sub_props(1) [of x f64_one] f64_sub_props(1) [of y f64_one] by (simp add: f64_small_def)
  have nf: "fst (limiter_allow rl tenant rate burst now) tenant = Some (fst (bucket_allow b rate burst now))"
      "snd (limiter_allow rl tenant rate burst now) = snd (bucket_allow b rate burst now)"
      "fst (limiter_allow rl tenant rate burst now) other = rl other"
    using assms(7) by (simp_all add: limiter_allow_eq b_def)
  have "bucket_inv (fst (bucket_allow b rate burst now))"
    using step(2) [OF t(1)] t(1) sub f64_small_mono by (auto simp: bucket_inv_def)
  moreover have "0 \<le> f64_val (bk_tokens (fst (bucket_allow b rate burst now)))
      \<and> f64_val (bk_tokens (fst (bucket_allow b rate burst now))) \<le> f64_val ?B"
    using step(2) [OF t(1)] t sub by (simp add: f64_small_def)
  moreover have "f64_val (fill b) = f64_val ?B
       \<and> snd (bucket_allow (found_bucket rl tenant rate burst t0) rate burst now) = (1 \<le> f64_val (fill b))
       \<and> f64_val (bk_tokens (fst (bucket_allow (found_bucket rl tenant rate burst t0) rate burst now)))
           = f64_val (bk_tokens (fst (bucket_allow b rate burst now)))"
    if n: "rl tenant = None \<and> t0 \<le> now \<and> now - t0 < 2 ^ 63" for t0
  proof -
    have b: "f64_val (fill b) = f64_val ?B" using full [of now] n by (simp add: b_def)
    have f: "f64_val (fill (found_bucket rl tenant rate burst t0)) = f64_val ?B"
      "f64_small 63 (fill (found_bucket rl tenant rate burst t0))" using full [of t0] n by simp_all
    show ?thesis using b f step [OF f(2)] step [OF t(1)] same [OF _ f(2) t(1)] by simp
  qed
  ultimately show ?thesis
    using nf step [OF t(1)] t(2,3) by (intro exI [of _ "fst (bucket_allow b rate burst now)"] exI [of _ "fill b"] conjI allI) auto
qed

lemma const_half: "f64_finite (f64_const 1 2)" "f64_val (f64_const 1 2) = 1 / 2"
proof -
  have c: "f64_const 1 2 = F64 0x3FE0000000000000" by code_simp
  have v: "f64_ssig (F64 0x3FE0000000000000) = 4503599627370496" "f64_exp (f64_mag (F64 0x3FE0000000000000)) = - 53"
    by code_simp+
  have p: "(2::real) powi (- 53) = 1 / 2 ^ 53" by (simp only: power_int_minus inverse_eq_divide) simp
  show "f64_val (f64_const 1 2) = 1 / 2"
    by (simp only: c f64_val_ssig v p of_int_numeral) simp
  show "f64_finite (f64_const 1 2)" by (simp add: c f64_finite_def f64_mag_def f64_inf_mag_def)
qed

theorem bucket_bounds_witness:
  "\<exists>b'. fst (limiter_allow [''t'' \<mapsto> \<lparr>bk_tokens = f64_const 1 2, bk_max_burst = f64_one, bk_rate = f64_one, bk_last_fill = 0\<rparr>]
       ''t'' 50 7 5) ''t'' = Some b' \<and> 0 \<le> f64_val (bk_tokens b') \<and> f64_val (bk_tokens b') \<le> 7"
proof -
  let ?b = "\<lparr>bk_tokens = f64_const 1 2, bk_max_burst = f64_one, bk_rate = f64_one, bk_last_fill = 0\<rparr>"
  have "bucket_inv ?b" by (simp add: bucket_inv_def f64_small_def const_half)
  moreover have "f64_val (f64_of_int 7) = 7" using f64_of_int_exact [of 7] by simp
  ultimately show ?thesis
    using bucket_bounds [of "[''t'' \<mapsto> ?b]" "''t''" 50 7 5 "''u''"] by (auto simp: found_bucket_def)
qed

end
