(* ===== verification/Repo.thy ===== *)
theory Repo
  imports Scoring Policy "HOL-Library.AList" "HOL-Library.List_Lexorder" "HOL-Library.Char_ord"
begin

section \<open>The router's store\<close>

text \<open>
  \<open>services/router/internal/repo/store.go\<close>. A table is the list of its rows, or missing before
  the first \<open>migrate\<close>; the statements are written out on the rows and their outcomes are
  arguments. The pool of the store has one connection (\<open>SetMaxOpenConns(1)\<close>), and a query
  holds it until its rows are closed: \<open>conns\<close> is the number of connections that are free,
  and an operation that waits for one that nobody will release is \<open>None\<close>. The operations
  without \<open>conns\<close> run one statement and release their connection at once: they are described
  from the moment they have it, and what is proved of their callers is about calls that get
  that far. SQLite's aggregates over floats and the parsing of JSON are arguments.
\<close>

record repo_model_row =
  pm_model_id :: string
  pm_version :: string
  pm_name :: string
  pm_tier :: string
  pm_cost_per_1k :: f64
  pm_avg_latency_ms :: int64
  pm_max_tokens :: int64
  pm_executor_addr :: string
  pm_enabled :: int

record repo_rollout_row =
  pr_rollout_id :: string
  pr_base :: string
  pr_canary :: string
  pr_pct :: f64
  pr_auto :: int
  pr_max_p99_ratio :: f64
  pr_max_error_rate :: f64
  pr_enabled :: int
  pr_rollback_reason :: "string option"

record repo_tenant_row =
  pt_tenant_id :: string
  pt_name :: string
  pt_routing_mode :: string
  pt_allowed_models :: string
  pt_rate_limit_rps :: int64
  pt_burst_limit :: int64
  pt_enabled :: int

record log_entry =
  le_request_id :: string
  le_trace_id :: string
  le_tenant_id :: string
  le_task_type :: string
  le_model_id :: string
  le_tokens_input :: int32
  le_tokens_output :: int32
  le_latency_ms :: f64
  le_queue_wait_ms :: f64
  le_cost_usd :: f64
  le_cached :: bool
  le_fallback_used :: bool
  le_is_canary :: bool
  le_routing_mode :: string

record repo_file =
  fi_models :: "repo_model_row list option"
  fi_capabilities :: "(string \<times> string) list option"
  fi_rollouts :: "repo_rollout_row list option"
  fi_tenants :: "repo_tenant_row list option"
  fi_request_log :: "(string \<times> log_entry) list option"

record repo_store =
  st_models :: "repo_model_row list"
  st_capabilities :: "(string \<times> string) list"
  st_rollouts :: "repo_rollout_row list"
  st_tenants :: "repo_tenant_row list"
  st_request_log :: "(string \<times> log_entry) list"

subsection \<open>Opening and seeding\<close>

definition store_pool :: nat where
  "store_pool = 1"

text \<open>\<open>CREATE TABLE IF NOT EXISTS\<close> for each table.\<close>

definition migrate :: "err option \<Rightarrow> repo_file \<Rightarrow> repo_store result" where
  "migrate fails f =
    (case fails of Some e \<Rightarrow> Inl e
     | None \<Rightarrow> Inr \<lparr>
         st_models = (case fi_models f of None \<Rightarrow> [] | Some rows \<Rightarrow> rows),
         st_capabilities = (case fi_capabilities f of None \<Rightarrow> [] | Some rows \<Rightarrow> rows),
         st_rollouts = (case fi_rollouts f of None \<Rightarrow> [] | Some rows \<Rightarrow> rows),
         st_tenants = (case fi_tenants f of None \<Rightarrow> [] | Some rows \<Rightarrow> rows),
         st_request_log = (case fi_request_log f of None \<Rightarrow> [] | Some rows \<Rightarrow> rows)\<rparr>)"

definition open_store :: "err option \<Rightarrow> err option \<Rightarrow> repo_file \<Rightarrow> repo_store result" where
  "open_store open_fails migrate_fails f =
    (case open_fails of Some e \<Rightarrow> Inl e | None \<Rightarrow> migrate migrate_fails f)"

text \<open>The rows of \<open>Seed\<close>; the columns it does not name get the defaults of the schema.\<close>

definition seed_model :: "string \<Rightarrow> string \<Rightarrow> string \<Rightarrow> string \<Rightarrow> f64 \<Rightarrow> int64 \<Rightarrow> int64 \<Rightarrow> repo_model_row" where
  "seed_model mid name tier addr cost lat max_tokens =
    \<lparr>pm_model_id = mid, pm_version = ''v1'', pm_name = name, pm_tier = tier, pm_cost_per_1k = cost, pm_avg_latency_ms = lat,
     pm_max_tokens = max_tokens, pm_executor_addr = addr, pm_enabled = 1\<rparr>"

definition seed_models :: "string \<Rightarrow> repo_model_row list" where
  "seed_models addr =
    [seed_model ''gpt-small'' ''GPT Small'' ''small'' addr (f64_const 2 10000) 200 4096,
     seed_model ''gpt-medium'' ''GPT Medium'' ''medium'' addr (f64_const 2 1000) 500 8192,
     seed_model ''gpt-large'' ''GPT Large'' ''large'' addr (f64_const 2 100) 1200 32768,
     seed_model ''embed-v2'' ''Embed v2'' ''small'' addr (f64_const 1 10000) 50 8192,
     seed_model ''rerank-v1'' ''Rerank v1'' ''small'' addr (f64_const 2 10000) 100 4096]"

definition seed_capabilities :: "(string \<times> string) list" where
  "seed_capabilities =
    [(''gpt-small'', ''chat''), (''gpt-small'', ''summarize''), (''gpt-small'', ''classify''), (''gpt-small'', ''moderate''),
     (''gpt-medium'', ''chat''), (''gpt-medium'', ''summarize''), (''gpt-medium'', ''classify''), (''gpt-medium'', ''moderate''),
     (''gpt-large'', ''chat''), (''gpt-large'', ''summarize''),
     (''embed-v2'', ''embed''), (''rerank-v1'', ''rerank'')]"

definition seed_tenants :: "repo_tenant_row list" where
  "seed_tenants =
    [\<lparr>pt_tenant_id = ''tenant-default'', pt_name = ''Default'', pt_routing_mode = ''balanced'', pt_allowed_models = ''[]'',
      pt_rate_limit_rps = 50, pt_burst_limit = 100, pt_enabled = 1\<rparr>,
     \<lparr>pt_tenant_id = ''tenant-premium'', pt_name = ''Premium'', pt_routing_mode = ''latency_optimized'', pt_allowed_models = ''[]'',
      pt_rate_limit_rps = 200, pt_burst_limit = 500, pt_enabled = 1\<rparr>,
     \<lparr>pt_tenant_id = ''tenant-economy'', pt_name = ''Economy'', pt_routing_mode = ''cost_optimized'', pt_allowed_models = ''[]'',
      pt_rate_limit_rps = 20, pt_burst_limit = 40, pt_enabled = 1\<rparr>]"

text \<open>\<open>INSERT OR IGNORE\<close> keeps the row that has the key.\<close>

definition insert_or_ignore :: "('r \<Rightarrow> 'k) \<Rightarrow> 'r \<Rightarrow> 'r list \<Rightarrow> 'r list" where
  "insert_or_ignore key row rows = (if key row \<in> key ` set rows then rows else rows @ [row])"

fun seed_model_rows :: "(string \<Rightarrow> err option) \<Rightarrow> repo_model_row list \<Rightarrow> repo_store \<Rightarrow> repo_store \<times> err option" where
  "seed_model_rows fails [] s = (s, None)"
| "seed_model_rows fails (r # rs) s =
     (case fails (pm_model_id r) of
        Some e \<Rightarrow> (s, Some e)
      | None \<Rightarrow> seed_model_rows fails rs (s\<lparr>st_models := insert_or_ignore pm_model_id r (st_models s)\<rparr>))"

text \<open>A count that fails leaves \<open>n\<close> zero. \<open>order\<close> is the order of the iteration over the map of
  capabilities.\<close>

definition seed :: "bool \<Rightarrow> (string \<Rightarrow> err option) \<Rightarrow> (string \<times> string \<Rightarrow> bool) \<Rightarrow> bool \<Rightarrow> (string \<times> string) list \<Rightarrow>
    string \<Rightarrow> repo_store \<Rightarrow> repo_store \<times> err option" where
  "seed count_works fails caps_work tenants_work order addr s =
    (let n = (if count_works then length (st_models s) else 0)
     in if n > 0 then (s, None)
        else (case seed_model_rows fails (seed_models addr) s of
            (s, Some e) \<Rightarrow> (s, Some e)
          | (s, None) \<Rightarrow>
              let s = s\<lparr>st_capabilities := foldl (\<lambda>caps c. if caps_work c then insert_or_ignore id c caps else caps)
                        (st_capabilities s) order\<rparr>;
                  s = (if tenants_work
                       then s\<lparr>st_tenants := foldl (\<lambda>ts t. insert_or_ignore pt_tenant_id t ts) (st_tenants s) seed_tenants\<rparr> else s)
              in (s, None)))"

subsection \<open>Models\<close>

text \<open>
  \<open>None\<close> is a call that gives no result: it waits for a connection for ever, or the query failed
  and closing its nil rows panics. An error in the middle of an iteration over rows is not
  modelled.
\<close>

definition load_tasks :: "nat \<Rightarrow> repo_store \<Rightarrow> bool \<Rightarrow> string \<Rightarrow> string list option" where
  "load_tasks conns s works mid =
    (if conns = 0 then None
     else if \<not> works then None
     else Some (map snd (filter (\<lambda>(m, _). m = mid) (st_capabilities s))))"

definition repo_model_of :: "repo_model_row \<Rightarrow> string list \<Rightarrow> model_record" where
  "repo_model_of r tasks = \<lparr>mr_model_id = pm_model_id r, mr_version = pm_version r, mr_tier = pm_tier r, mr_tasks = tasks,
     mr_cost_per_1k = pm_cost_per_1k r, mr_avg_latency_ms = pm_avg_latency_ms r, mr_max_tokens = pm_max_tokens r,
     mr_executor_addr = pm_executor_addr r, mr_enabled = True\<rparr>"

fun load_models_loop :: "nat \<Rightarrow> repo_store \<Rightarrow> (string \<Rightarrow> bool) \<Rightarrow> repo_model_row list \<Rightarrow> model_record list \<Rightarrow> model_record list option" where
  "load_models_loop conns s works [] out = Some out"
| "load_models_loop conns s works (r # rows) out =
     (case load_tasks conns s (works (pm_model_id r)) (pm_model_id r) of
        None \<Rightarrow> None
      | Some tasks \<Rightarrow> load_models_loop conns s works rows (out @ [repo_model_of r tasks]))"

text \<open>The rows come in the order of the ids; they hold their connection during the loop.\<close>

definition load_models :: "nat \<Rightarrow> repo_store \<Rightarrow> err option \<Rightarrow> (string \<Rightarrow> bool) \<Rightarrow> model_record list result option" where
  "load_models conns s fails works =
    (if conns = 0 then None
     else case fails of Some e \<Rightarrow> Some (Inl e)
     | None \<Rightarrow> map_option Inr (load_models_loop (conns - 1) s works
         (sort_key pm_model_id (filter (\<lambda>r. pm_enabled r = 1) (st_models s))) []))"

subsection \<open>Rollouts\<close>

record repo_rollout =
  cf_rollout_id :: string
  cf_base :: string
  cf_canary :: string
  cf_pct :: f64
  cf_auto :: bool
  cf_max_p99_ratio :: f64
  cf_max_error_rate :: f64
  cf_enabled :: bool

definition repo_b2i :: "bool \<Rightarrow> int" where
  "repo_b2i b = (if b then 1 else 0)"

text \<open>The scan into a \<open>bool\<close> accepts 0 and 1, and leaves false otherwise; its error is ignored.\<close>

definition repo_rollout_of :: "repo_rollout_row \<Rightarrow> repo_rollout" where
  "repo_rollout_of r = \<lparr>cf_rollout_id = pr_rollout_id r, cf_base = pr_base r, cf_canary = pr_canary r, cf_pct = pr_pct r,
     cf_auto = (pr_auto r = 1), cf_max_p99_ratio = pr_max_p99_ratio r, cf_max_error_rate = pr_max_error_rate r,
     cf_enabled = (pr_enabled r = 1)\<rparr>"

text \<open>The statement has no \<open>ORDER BY\<close>: its outcome is an error, or the order in which SQLite
  returns the rows of the table.\<close>

type_synonym rollout_scan = "(repo_rollout_row list \<Rightarrow> repo_rollout_row list) result"

definition load_rollouts :: "repo_store \<Rightarrow> rollout_scan \<Rightarrow> repo_rollout list result" where
  "load_rollouts s outcome =
    (case outcome of Inl e \<Rightarrow> Inl e | Inr scan \<Rightarrow> Inr (map repo_rollout_of (scan (st_rollouts s))))"

definition upsert_rollout :: "repo_store \<Rightarrow> err option \<Rightarrow> repo_rollout \<Rightarrow> repo_store \<times> err option" where
  "upsert_rollout s fails r =
    (case fails of Some e \<Rightarrow> (s, Some e)
     | None \<Rightarrow>
        let row = \<lparr>pr_rollout_id = cf_rollout_id r, pr_base = cf_base r, pr_canary = cf_canary r, pr_pct = cf_pct r,
              pr_auto = repo_b2i (cf_auto r), pr_max_p99_ratio = cf_max_p99_ratio r, pr_max_error_rate = cf_max_error_rate r,
              pr_enabled = repo_b2i (cf_enabled r), pr_rollback_reason = None\<rparr>
        in (s\<lparr>st_rollouts := filter (\<lambda>x. pr_rollout_id x \<noteq> cf_rollout_id r) (st_rollouts s) @ [row]\<rparr>, None))"

definition rollback_rollout :: "repo_store \<Rightarrow> err option \<Rightarrow> string \<Rightarrow> string \<Rightarrow> repo_store \<times> err option" where
  "rollback_rollout s fails rid reason =
    (case fails of Some e \<Rightarrow> (s, Some e)
     | None \<Rightarrow> (s\<lparr>st_rollouts := map (\<lambda>r. if pr_rollout_id r = rid
           then r\<lparr>pr_enabled := 0, pr_rollback_reason := Some reason\<rparr> else r) (st_rollouts s)\<rparr>, None))"

subsection \<open>Tenants\<close>

text \<open>\<open>unmarshal\<close> is \<open>json.Unmarshal\<close> into a slice of strings; \<open>None\<close> is an error.\<close>

definition allowed_models :: "(string \<Rightarrow> string list option) \<Rightarrow> string \<Rightarrow> (string \<times> bool) list" where
  "allowed_models unmarshal json =
    (case unmarshal json of
       Some allowed \<Rightarrow> if length allowed > 0 then foldl (\<lambda>m k. AList.update k True m) [] allowed else []
     | None \<Rightarrow> [])"

definition load_tenant_policy ::
  "(string \<Rightarrow> string list option) \<Rightarrow> repo_store \<Rightarrow> err option \<Rightarrow> string \<Rightarrow> tenant_policy result" where
  "load_tenant_policy unmarshal s fails tenant =
    (case fails of Some e \<Rightarrow> Inl e
     | None \<Rightarrow> (case find (\<lambda>r. pt_tenant_id r = tenant) (st_tenants s) of
         None \<Rightarrow> Inr (default_policy tenant)
       | Some r \<Rightarrow> Inr \<lparr>tp_tenant_id = pt_tenant_id r, tp_routing_mode = pt_routing_mode r,
           tp_allowed_models = allowed_models unmarshal (pt_allowed_models r),
           tp_rate_limit = pt_rate_limit_rps r, tp_burst_limit = pt_burst_limit r, tp_enabled = (pt_enabled r = 1)\<rparr>))"

subsection \<open>The audit log\<close>

text \<open>A row holds the entry and the \<open>created_at\<close> that the schema's default gives it.\<close>

definition log_request :: "repo_store \<Rightarrow> bool \<Rightarrow> string \<Rightarrow> log_entry \<Rightarrow> repo_store" where
  "log_request s works created e = (if works then s\<lparr>st_request_log := st_request_log s @ [(created, e)]\<rparr> else s)"

record window_stats =
  ws_requests :: int
  ws_avg_latency_ms :: f64
  ws_total_cost_usd :: f64
  ws_tokens_out :: int
  ws_cache_hits :: int
  ws_fallbacks :: int
  ws_window :: time

text \<open>\<open>round\<close> truncates \<open>v * 10 ^ places + 0.5\<close> to an integer.\<close>

definition round_f64 :: "f64 \<Rightarrow> nat \<Rightarrow> f64" where
  "round_f64 v places =
    (let p = foldl (\<lambda>p _. f64_mul p (f64_of_int 10)) f64_one [0..<places]
     in f64_div (f64_of_int (sint (f64_to_int64 (f64_add (f64_mul v p) (f64_const 5 10))))) p)"

text \<open>\<open>avg\<close> and \<open>sum_of\<close> are SQLite's aggregates; \<open>cutoff\<close> is the formatted time. A query that
  fails leaves every variable zero.\<close>

definition repo_window_stats ::
  "(f64 list \<Rightarrow> f64) \<Rightarrow> (f64 list \<Rightarrow> f64) \<Rightarrow> repo_store \<Rightarrow> bool \<Rightarrow> string \<Rightarrow> time \<Rightarrow> window_stats" where
  "repo_window_stats avg sum_of s works cutoff d =
    (let rows = (if works then map snd (filter (\<lambda>(created, _). cutoff \<le> created) (st_request_log s)) else [])
     in \<lparr>ws_requests = int (length rows),
         ws_avg_latency_ms = round_f64 (if rows = [] then f64_zero else avg (map le_latency_ms rows)) 2,
         ws_total_cost_usd = round_f64 (if rows = [] then f64_zero else sum_of (map le_cost_usd rows)) 8,
         ws_tokens_out = sum_list (map (sint \<circ> le_tokens_output) rows),
         ws_cache_hits = sum_list (map (repo_b2i \<circ> le_cached) rows),
         ws_fallbacks = sum_list (map (repo_b2i \<circ> le_fallback_used) rows),
         ws_window = d\<rparr>)"

subsection \<open>Loading\<close>

lemma load_models_loop_eq:
  "load_models_loop conns s works rows out =
    (if rows = [] then Some out
     else if conns = 0 \<or> (\<exists>r \<in> set rows. \<not> works (pm_model_id r)) then None
     else Some (out @ map (\<lambda>r. repo_model_of r (map snd (filter (\<lambda>(m, _). m = pm_model_id r) (st_capabilities s)))) rows))"
  by (induction rows arbitrary: out) (auto simp: load_tasks_def)

lemma sort_key_Nil_iff: "sort_key f rows = [] \<longleftrightarrow> rows = []"
  by (metis set_empty set_sort)

text \<open>The store that a fresh database becomes once it is opened and seeded.\<close>

definition fresh_store :: repo_store where
  "fresh_store = \<lparr>st_models = [], st_capabilities = [], st_rollouts = [], st_tenants = [], st_request_log = []\<rparr>"

definition seeded :: "string \<Rightarrow> repo_store" where
  "seeded addr = fst (seed True (\<lambda>_. None) (\<lambda>_. True) True seed_capabilities addr fresh_store)"

lemma seeded_models: "st_models (seeded addr) = seed_models addr"
  by (simp add: seeded_def seed_def seed_models_def seed_model_def insert_or_ignore_def fresh_store_def Let_def)

text \<open>The router cannot start: on the one connection of its pool, \<open>LoadModels\<close> waits for ever for a
  second one as soon as a model is enabled, because the rows it is reading hold the first; so it does
  in the store that \<open>Seed\<close> has just filled. With two free connections it returns exactly the enabled
  models, each with its tasks.\<close>

theorem load_models_deadlock:
  "(load_models store_pool s None works = None \<longleftrightarrow> (\<exists>r \<in> set (st_models s). pm_enabled r = 1)) \<and>
   load_models store_pool (seeded addr) None works = None \<and>
   (2 \<le> conns \<and> (\<forall>mid. works mid) \<longrightarrow> (\<exists>ms. load_models conns s None works = Some (Inr ms) \<and>
      set ms = {repo_model_of r (map snd (filter (\<lambda>(m, _). m = pm_model_id r) (st_capabilities s))) |r.
        r \<in> set (st_models s) \<and> pm_enabled r = 1}))"
proof -
  have one: "load_models store_pool s None works = None \<longleftrightarrow> (\<exists>r \<in> set (st_models s). pm_enabled r = 1)" for s
    by (simp add: load_models_def store_pool_def load_models_loop_eq sort_key_Nil_iff filter_empty_conv)
  moreover have "\<exists>r \<in> set (st_models (seeded addr)). pm_enabled r = 1"
    by (simp add: seeded_models seed_models_def seed_model_def)
  moreover have "\<exists>ms. load_models conns s None works = Some (Inr ms) \<and>
      set ms = {repo_model_of r (map snd (filter (\<lambda>(m, _). m = pm_model_id r) (st_capabilities s))) |r.
        r \<in> set (st_models s) \<and> pm_enabled r = 1}" if "2 \<le> conns" "\<forall>mid. works mid"
    using that by (auto simp: load_models_def load_models_loop_eq sort_key_Nil_iff filter_empty_conv)
  ultimately show ?thesis by blast
qed

theorem load_models_deadlock_witness:
  "load_models store_pool (seeded ''e:1'') None (\<lambda>_. True) = None \<and>
   (\<exists>ms. load_models 2 (seeded ''e:1'') None (\<lambda>_. True) = Some (Inr ms))"
  using load_models_deadlock [of "seeded ''e:1''" "\<lambda>_. True" "''e:1''" 2] by auto

end
