(* ===== verification/Middleware.thy ===== *)
theory Middleware
  imports Prelude UnitInterval
begin

section \<open>Interceptors\<close>

text \<open>
  \<open>services/router/internal/middleware/middleware.go\<close>. A handler takes a context and a
  request and returns a response or an error, or panics; it may change the state of the
  server. An interceptor takes the method's name (of \<open>UnaryServerInfo\<close>) and a handler and
  gives a handler. The random bytes of \<open>newID\<close> and the time a call takes are arguments.
\<close>

datatype 'a outcome = Done "'a result" | Panicked string

text \<open>What the interceptors read of a context and put into it.\<close>

record call_ctx =
  cx_incoming :: "(string \<rightharpoonup> string list) option"
  cx_request_id :: "string option"
  cx_trace_id :: "string option"
  cx_outgoing :: "(string \<times> string) list"
  cx_done :: bool

record interceptor_metrics =
  im_total_calls :: int64
  im_error_calls :: int64
  im_total_latency_ms :: int64

record log_line =
  ll_method :: string
  ll_code :: code
  ll_latency_ms :: int
  ll_request_id :: string
  ll_trace_id :: string

record 's grpc_server =
  gs_inner :: 's
  gs_log :: "log_line list"
  gs_metrics :: interceptor_metrics

type_synonym ('q, 's, 'a) unary_handler = "call_ctx \<Rightarrow> 'q \<Rightarrow> 's grpc_server \<Rightarrow> 's grpc_server \<times> 'a outcome"
type_synonym ('q, 's, 'a) interceptor = "string \<Rightarrow> ('q, 's, 'a) unary_handler \<Rightarrow> ('q, 's, 'a) unary_handler"

subsection \<open>Contexts and metrics\<close>

definition request_id_from_context :: "call_ctx \<Rightarrow> string" where
  "request_id_from_context ctx = (case cx_request_id ctx of Some v \<Rightarrow> v | None \<Rightarrow> [])"

definition trace_id_from_context :: "call_ctx \<Rightarrow> string" where
  "trace_id_from_context ctx = (case cx_trace_id ctx of Some v \<Rightarrow> v | None \<Rightarrow> [])"

definition record_call :: "interceptor_metrics \<Rightarrow> int64 \<Rightarrow> bool \<Rightarrow> interceptor_metrics" where
  "record_call m latency_ms is_err =
    (let m = m\<lparr>im_total_calls := im_total_calls m + 1\<rparr>;
         m = m\<lparr>im_total_latency_ms := im_total_latency_ms m + latency_ms\<rparr>
     in if is_err then m\<lparr>im_error_calls := im_error_calls m + 1\<rparr> else m)"

definition interceptor_avg_latency :: "interceptor_metrics \<Rightarrow> f64" where
  "interceptor_avg_latency m =
    (let calls = im_total_calls m
     in if calls = 0 then f64_zero
        else f64_div (f64_of_int (sint (im_total_latency_ms m))) (f64_of_int (sint calls)))"

definition interceptor_error_rate :: "interceptor_metrics \<Rightarrow> f64" where
  "interceptor_error_rate m =
    (let calls = im_total_calls m
     in if calls = 0 then f64_zero
        else f64_div (f64_of_int (sint (im_error_calls m))) (f64_of_int (sint calls)))"

definition md_value :: "call_ctx \<Rightarrow> string \<Rightarrow> string" where
  "md_value ctx key =
    (case cx_incoming ctx of None \<Rightarrow> []
     | Some md \<Rightarrow> (case md key of None \<Rightarrow> [] | Some [] \<Rightarrow> [] | Some (v # _) \<Rightarrow> v))"

definition random_id :: "8 word list \<Rightarrow> string" where
  "random_id b = concat (map (\<lambda>x. byte_hex (unat x)) b)"

subsection \<open>The interceptors\<close>

definition recovery :: "('q, 's, 'a) interceptor" where
  "recovery method handler ctx req s =
    (case handler ctx req s of
       (s', Panicked r) \<Rightarrow> (s', Done (Inl (Status Internal (''internal server error: '' @ r))))
     | (s', Done r) \<Rightarrow> (s', Done r))"

definition with_request_id :: "8 word list \<Rightarrow> 8 word list \<Rightarrow> ('q, 's, 'a) interceptor" where
  "with_request_id rnd1 rnd2 method handler ctx req s =
    (let request_id = md_value ctx ''x-request-id'';
         request_id = (if request_id = [] then random_id rnd1 else request_id);
         trace_id = md_value ctx ''x-trace-id'';
         trace_id = (if trace_id = [] then random_id rnd2 else trace_id);
         ctx = ctx\<lparr>cx_request_id := Some request_id\<rparr>;
         ctx = ctx\<lparr>cx_trace_id := Some trace_id\<rparr>;
         ctx = ctx\<lparr>cx_outgoing := cx_outgoing ctx @ [(''x-request-id'', request_id), (''x-trace-id'', trace_id)]\<rparr>
     in handler ctx req s)"

text \<open>\<open>status.FromError\<close> knows the errors that are statuses.\<close>

definition code_of :: "'a result \<Rightarrow> code" where
  "code_of r = (case r of Inr _ \<Rightarrow> OK | Inl (Status c _) \<Rightarrow> c | Inl (Plain _) \<Rightarrow> Internal)"

definition logging :: "time \<Rightarrow> ('q, 's, 'a) interceptor" where
  "logging elapsed method handler ctx req s =
    (case handler ctx req s of
       (s', Panicked p) \<Rightarrow> (s', Panicked p)
     | (s', Done r) \<Rightarrow>
         (s'\<lparr>gs_log := gs_log s' @ [\<lparr>ll_method = method, ll_code = code_of r, ll_latency_ms = to_millis elapsed,
              ll_request_id = request_id_from_context ctx, ll_trace_id = trace_id_from_context ctx\<rparr>]\<rparr>, Done r))"

definition is_error :: "'a result \<Rightarrow> bool" where
  "is_error r = (case r of Inl _ \<Rightarrow> True | Inr _ \<Rightarrow> False)"

definition with_metrics :: "time \<Rightarrow> ('q, 's, 'a) interceptor" where
  "with_metrics elapsed method handler ctx req s =
    (case handler ctx req s of
       (s', Panicked p) \<Rightarrow> (s', Panicked p)
     | (s', Done r) \<Rightarrow>
         (s'\<lparr>gs_metrics := record_call (gs_metrics s') (word_of_int (to_millis elapsed)) (is_error r)\<rparr>, Done r))"

definition deadline_check :: "('q, 's, 'a) interceptor" where
  "deadline_check method handler ctx req s =
    (if cx_done ctx
     then (s, Done (Inl (Status DeadlineExceeded (''request deadline already expired before reaching '' @ method))))
     else handler ctx req s)"

text \<open>\<open>Chain\<close> wraps the handler from the last interceptor to the first.\<close>

definition chain :: "('q, 's, 'a) interceptor list \<Rightarrow> ('q, 's, 'a) interceptor" where
  "chain interceptors method handler ctx req s =
    (let build = foldl (\<lambda>next ic. ic method next) handler (rev interceptors)
     in build ctx req s)"

subsection \<open>What a chain does\<close>

lemma chain_simps [simp]:
  "chain [] method h = h"
  "chain (ic # ics) method h = ic method (chain ics method h)"
proof -
  have eq: "chain ics method h = foldl (\<lambda>next ic. ic method next) h (rev ics)" for ics
    by (simp add: chain_def fun_eq_iff)
  show "chain [] method h = h" "chain (ic # ics) method h = ic method (chain ics method h)"
    by (simp_all add: eq)
qed

lemma chain_append: "chain (xs @ ys) method h = chain xs method (chain ys method h)"
  by (induction xs) simp_all

text \<open>Behind \<open>Recovery\<close> no panic is left.\<close>

lemma recovery_done: "\<exists>s' r. recovery method h ctx req s = (s', Done r)"
  by (auto simp: recovery_def split: prod.split outcome.split)

text \<open>The interceptors of the router, in the order of \<open>main\<close>, and the counters they keep.\<close>

definition router_interceptors :: "8 word list \<Rightarrow> 8 word list \<Rightarrow> time \<Rightarrow> time \<Rightarrow> ('q, 's, 'a) interceptor list" where
  "router_interceptors rnd1 rnd2 elapsed1 elapsed2 =
    [recovery, with_request_id rnd1 rnd2, logging elapsed1, with_metrics elapsed2, deadline_check]"

definition counters_inv :: "interceptor_metrics \<Rightarrow> bool" where
  "counters_inv m \<longleftrightarrow> 0 \<le> sint (im_error_calls m) \<and> sint (im_error_calls m) \<le> sint (im_total_calls m)"

lemma sint_Suc:
  assumes "sint w < 2 ^ 63 - 1"
  shows "sint (w + 1 :: int64) = sint w + 1"
proof -
  have w: "w + 1 = (word_of_int (sint w + 1) :: int64)" by simp
  show ?thesis unfolding w using assms sint_bounds64(1) [of w] by (intro sint_word_of_int) simp_all
qed

lemma record_call_inv:
  assumes "counters_inv m" "sint (im_total_calls m) < 2 ^ 53"
  shows "counters_inv (record_call m latency err)"
    and "sint (im_total_calls (record_call m latency err)) = sint (im_total_calls m) + 1"
  using assms sint_Suc [of "im_total_calls m"] sint_Suc [of "im_error_calls m"]
  by (simp_all add: counters_inv_def record_call_def Let_def)

lemma interceptor_error_rate_unit:
  assumes "counters_inv m" "sint (im_total_calls m) < 2 ^ 53"
  shows "f64_unit (interceptor_error_rate m)"
proof (cases "im_total_calls m = 0")
  case False
  then have "sint (im_total_calls m) \<noteq> 0" by (metis word_of_sint word_of_int_0)
  then have "0 < sint (im_total_calls m)" using assms(1) by (simp add: counters_inv_def)
  then show ?thesis
    using assms False by (simp add: interceptor_error_rate_def f64_unit_ratio counters_inv_def)
qed (simp add: interceptor_error_rate_def)

lemma router_chain_eq:
  fixes h :: "('q, 's, 'a) unary_handler"
  assumes "rid = (if md_value ctx ''x-request-id'' = [] then random_id rnd1 else md_value ctx ''x-request-id'')"
    and "tid = (if md_value ctx ''x-trace-id'' = [] then random_id rnd2 else md_value ctx ''x-trace-id'')"
    and "ctx' = ctx\<lparr>cx_request_id := Some rid, cx_trace_id := Some tid,
      cx_outgoing := cx_outgoing ctx @ [(''x-request-id'', rid), (''x-trace-id'', tid)]\<rparr>"
    and "answer = (if cx_done ctx
      then (s, Done (Inl (Status DeadlineExceeded (''request deadline already expired before reaching '' @ method))))
      else h ctx' req s)"
  shows "chain (router_interceptors rnd1 rnd2 e1 e2) method h ctx req s =
    (case answer of
       (s', Panicked p) \<Rightarrow> (s', Done (Inl (Status Internal (''internal server error: '' @ p))))
     | (s', Done r) \<Rightarrow>
        (s'\<lparr>gs_metrics := record_call (gs_metrics s') (word_of_int (to_millis e2)) (is_error r),
            gs_log := gs_log s' @ [\<lparr>ll_method = method, ll_code = code_of r, ll_latency_ms = to_millis e1,
              ll_request_id = rid, ll_trace_id = tid\<rparr>]\<rparr>, Done r))"
proof -
  have "with_request_id rnd1 rnd2 method handler ctx req s = handler ctx' req s" for handler :: "('q, 's, 'a) unary_handler"
    by (simp add: with_request_id_def Let_def assms(1-3))
  moreover have "request_id_from_context ctx' = rid" "trace_id_from_context ctx' = tid" "cx_done ctx' = cx_done ctx"
    by (simp_all add: assms(3) request_id_from_context_def trace_id_from_context_def)
  ultimately show ?thesis
    unfolding assms(4) router_interceptors_def
    by (simp add: recovery_def logging_def with_metrics_def deadline_check_def split: prod.split outcome.split)
qed

text \<open>C11. What the router's chain of interceptors does to a call, completely. A call whose context is
  already done is refused with \<open>DeadlineExceeded\<close> before the handler runs, and is logged and counted
  as an error. Otherwise the handler sees the caller's request and trace ids (or fresh ones where it sent
  none), its answer is returned unchanged, and the call is logged with its code and counted. A panic is
  returned as an \<open>Internal\<close> error, so the server goes on, but it is neither logged nor counted: the
  chain never panics.\<close>

theorem router_chain:
  fixes h :: "('q, 's, 'a) unary_handler"
  assumes "rid = (if md_value ctx ''x-request-id'' = [] then random_id rnd1 else md_value ctx ''x-request-id'')"
    and "tid = (if md_value ctx ''x-trace-id'' = [] then random_id rnd2 else md_value ctx ''x-trace-id'')"
    and "ctx' = ctx\<lparr>cx_request_id := Some rid, cx_trace_id := Some tid,
      cx_outgoing := cx_outgoing ctx @ [(''x-request-id'', rid), (''x-trace-id'', tid)]\<rparr>"
    and "answer = (if cx_done ctx
      then (s, Done (Inl (Status DeadlineExceeded (''request deadline already expired before reaching '' @ method))))
      else h ctx' req s)"
  shows "chain (router_interceptors rnd1 rnd2 e1 e2) method h ctx req s =
    (case answer of
       (s', Panicked p) \<Rightarrow> (s', Done (Inl (Status Internal (''internal server error: '' @ p))))
     | (s', Done r) \<Rightarrow>
        (s'\<lparr>gs_metrics := record_call (gs_metrics s') (word_of_int (to_millis e2)) (is_error r),
            gs_log := gs_log s' @ [\<lparr>ll_method = method, ll_code = code_of r, ll_latency_ms = to_millis e1,
              ll_request_id = rid, ll_trace_id = tid\<rparr>]\<rparr>, Done r))"
  by (rule router_chain_eq [of rid ctx rnd1 tid rnd2 ctx' answer s "method" h req, OF assms])

definition demo_ctx :: call_ctx where
  "demo_ctx = \<lparr>cx_incoming = Some [''x-request-id'' \<mapsto> [''r'']], cx_request_id = None, cx_trace_id = None,
     cx_outgoing = [], cx_done = False\<rparr>"

definition demo_server :: "unit grpc_server" where
  "demo_server = \<lparr>gs_inner = (), gs_log = [],
     gs_metrics = \<lparr>im_total_calls = 0, im_error_calls = 0, im_total_latency_ms = 0\<rparr>\<rparr>"

theorem router_chain_witness:
  "chain (router_interceptors [1, 2] [255] millisecond (2 * millisecond)) ''/m'' (\<lambda>ctx req s. (s, Done (Inr req))) demo_ctx (7 :: nat) demo_server =
     (demo_server\<lparr>gs_metrics := \<lparr>im_total_calls = 1, im_error_calls = 0, im_total_latency_ms = 2\<rparr>,
        gs_log := [\<lparr>ll_method = ''/m'', ll_code = OK, ll_latency_ms = 1, ll_request_id = ''r'', ll_trace_id = ''ff''\<rparr>]\<rparr>, Done (Inr 7)) \<and>
   chain (router_interceptors [1, 2] [255] 0 0) ''/m'' (\<lambda>ctx req s. (s, Panicked ''boom'')) demo_ctx (7 :: nat) demo_server =
     (demo_server, Done (Inl (Status Internal ''internal server error: boom'') :: nat result))"
  unfolding router_chain [OF refl refl refl refl]
  by (simp add: demo_ctx_def demo_server_def md_value_def random_id_def byte_hex_def hex_digit_def record_call_def Let_def
      is_error_def code_of_def to_millis_def)

end
