(* ===== verification/Wire.thy ===== *)
theory Wire
  imports Messages
begin

section \<open>The wire format and the shared decoding loop\<close>

text \<open>
  The message types encode themselves with \<open>google.golang.org/protobuf/encoding/protowire\<close>,
  which is not part of the repository: its functions are the fields of a record that every
  definition takes as an argument, and the locale \<open>wire_format\<close> states what its
  documentation says of them. A \<open>[]byte\<close> is a list of characters, as a string is: a
  character has 8 bits, so the conversions \<open>string(b)\<close> and \<open>[]byte(s)\<close> are the identity.
  A \<open>Consume\<close> function returns a value and a length, the length being negative on error.
\<close>

type_synonym bytes = "char list"
type_synonym wire_type = "8 word"

record protowire =
  varint_type :: wire_type
  fixed64_type :: wire_type
  bytes_type :: wire_type
  append_tag :: "bytes \<Rightarrow> int32 \<Rightarrow> wire_type \<Rightarrow> bytes"
  append_varint :: "bytes \<Rightarrow> 64 word \<Rightarrow> bytes"
  append_fixed64 :: "bytes \<Rightarrow> 64 word \<Rightarrow> bytes"
  append_string :: "bytes \<Rightarrow> string \<Rightarrow> bytes"
  append_bytes :: "bytes \<Rightarrow> bytes \<Rightarrow> bytes"
  consume_tag :: "bytes \<Rightarrow> int32 \<times> wire_type \<times> int"
  consume_varint :: "bytes \<Rightarrow> 64 word \<times> int"
  consume_fixed64 :: "bytes \<Rightarrow> 64 word \<times> int"
  consume_string :: "bytes \<Rightarrow> string \<times> int"
  consume_bytes :: "bytes \<Rightarrow> bytes \<times> int"
  consume_field_value :: "int32 \<Rightarrow> wire_type \<Rightarrow> bytes \<Rightarrow> int"
  parse_error :: "int \<Rightarrow> err"

subsection \<open>The shape of an UnmarshalProto\<close>

text \<open>\<open>b[n:]\<close>: slicing past the end panics, which is \<open>None\<close> here and below.\<close>

definition slice_from :: "bytes \<Rightarrow> int \<Rightarrow> bytes option" where
  "slice_from b n = (if 0 \<le> n \<and> n \<le> int (length b) then Some (drop (nat n) b) else None)"

text \<open>
  The body of a case: \<open>v, n := Consume(b); if n < 0 { return ParseError(n) }; m.F = v;
  b = b[n:]\<close>, with \<open>r\<close> the pair the call returned and \<open>f\<close> the assignment.
\<close>

definition take_field :: "protowire \<Rightarrow> bytes \<Rightarrow> 'v \<times> int \<Rightarrow> ('v \<Rightarrow> 'm) \<Rightarrow> ('m \<times> bytes) result option" where
  "take_field pw b r f =
     (if snd r < 0 then Some (Inl (parse_error pw (snd r)))
      else map_option (\<lambda>b'. Inr (f (fst r), b')) (slice_from b (snd r)))"

text \<open>The default case of every message: the value of an unknown field is skipped.\<close>

definition skip_field :: "protowire \<Rightarrow> int32 \<Rightarrow> wire_type \<Rightarrow> bytes \<Rightarrow> 'm \<Rightarrow> ('m \<times> bytes) result option" where
  "skip_field pw num typ b m = take_field pw b ((), consume_field_value pw num typ b) (\<lambda>_. m)"

text \<open>
  The loop that every \<open>UnmarshalProto\<close> runs, given its \<open>switch\<close>. Nothing in the code
  bounds it, so it is a partial function: \<open>None\<close> when it does not return.
\<close>

type_synonym 'm switch = "int32 \<Rightarrow> wire_type \<Rightarrow> bytes \<Rightarrow> 'm \<Rightarrow> ('m \<times> bytes) result option"

partial_function (option) decode :: "protowire \<Rightarrow> 'm switch \<Rightarrow> bytes \<Rightarrow> 'm \<Rightarrow> 'm result option" where
  [code]: "decode pw field b m =
     (if b = [] then Some (Inr m)
      else (case consume_tag pw b of (num, typ, n) \<Rightarrow>
        if n < 0 then Some (Inl (parse_error pw n))
        else Option.bind (slice_from b n) (\<lambda>b1.
          Option.bind (field num typ b1 m) (\<lambda>r.
            case r of Inl e \<Rightarrow> Some (Inl e)
            | Inr (m', b2) \<Rightarrow> decode pw field b2 m'))))"

subsection \<open>The shape of a MarshalProto\<close>

text \<open>One line of a \<open>MarshalProto\<close> for each kind of field; a zero value is not sent.\<close>

definition put_string :: "protowire \<Rightarrow> int32 \<Rightarrow> string \<Rightarrow> bytes \<Rightarrow> bytes" where
  "put_string pw num v b = (if v \<noteq> [] then append_string pw (append_tag pw b num (bytes_type pw)) v else b)"

definition put_varint :: "protowire \<Rightarrow> int32 \<Rightarrow> 64 word \<Rightarrow> bytes \<Rightarrow> bytes" where
  "put_varint pw num v b = append_varint pw (append_tag pw b num (varint_type pw)) v"

text \<open>\<open>uint64(m.F)\<close> of a signed 32-bit field extends its sign.\<close>

definition put_int32 :: "protowire \<Rightarrow> int32 \<Rightarrow> int32 \<Rightarrow> bytes \<Rightarrow> bytes" where
  "put_int32 pw num v b = (if v \<noteq> 0 then put_varint pw num (scast v) b else b)"

definition put_int64 :: "protowire \<Rightarrow> int32 \<Rightarrow> int64 \<Rightarrow> bytes \<Rightarrow> bytes" where
  "put_int64 pw num v b = (if v \<noteq> 0 then put_varint pw num v b else b)"

definition put_bool :: "protowire \<Rightarrow> int32 \<Rightarrow> bool \<Rightarrow> bytes \<Rightarrow> bytes" where
  "put_bool pw num v b = (if v then put_varint pw num 1 b else b)"

text \<open>The test \<open>m.F != 0\<close> is the one of floating point: it holds of a NaN and fails for \<open>-0\<close>.\<close>

definition put_double :: "protowire \<Rightarrow> int32 \<Rightarrow> f64 \<Rightarrow> bytes \<Rightarrow> bytes" where
  "put_double pw num v b =
     (if \<not> f64_eq v f64_zero
      then append_fixed64 pw (append_tag pw b num (fixed64_type pw)) (f64_bits v) else b)"

definition put_bytes :: "protowire \<Rightarrow> int32 \<Rightarrow> bytes \<Rightarrow> bytes \<Rightarrow> bytes" where
  "put_bytes pw num v b = append_bytes pw (append_tag pw b num (bytes_type pw)) v"

definition put_strings :: "protowire \<Rightarrow> int32 \<Rightarrow> string list \<Rightarrow> bytes \<Rightarrow> bytes" where
  "put_strings pw num vs b =
     foldl (\<lambda>b v. append_string pw (append_tag pw b num (bytes_type pw)) v) b vs"

text \<open>\<open>appendPackedFixed64\<close> and \<open>unpackFixed64\<close>, of which both packages have a copy.\<close>

definition append_packed_fixed64 :: "protowire \<Rightarrow> bytes \<Rightarrow> int32 \<Rightarrow> f64 list \<Rightarrow> bytes" where
  "append_packed_fixed64 pw b num vals =
     (let packed = foldl (\<lambda>packed v. append_fixed64 pw packed (f64_bits v)) [] vals;
          b = append_tag pw b num (bytes_type pw)
      in append_bytes pw b packed)"

fun unpack_fixed64 :: "protowire \<Rightarrow> bytes \<Rightarrow> f64 list" where
  "unpack_fixed64 pw b =
     (if 8 \<le> length b then F64 (fst (consume_fixed64 pw b)) # unpack_fixed64 pw (drop 8 b) else [])"

declare unpack_fixed64.simps [simp del]

definition put_doubles :: "protowire \<Rightarrow> int32 \<Rightarrow> f64 list \<Rightarrow> bytes \<Rightarrow> bytes" where
  "put_doubles pw num vs b = (if vs \<noteq> [] then append_packed_fixed64 pw b num vs else b)"

text \<open>What survives of a float: \<open>-0\<close> arrives as \<open>+0\<close>.\<close>

definition sent_double :: "f64 \<Rightarrow> f64" where
  "sent_double x = (if f64_eq x f64_zero then f64_zero else x)"

subsection \<open>What the documentation of protowire promises\<close>

text \<open>
  \<open>Append\<close> functions append; \<open>Consume\<close> functions read back what was appended whatever
  follows it, never read past the end, and report its length; a tag is not empty and the
  field numbers up to \<open>2 ^ 29 - 1\<close> are the valid ones. A slice has fewer than \<open>2 ^ 63\<close>
  bytes, \<open>int\<close> being what counts them.
\<close>

abbreviation max_slice :: nat where "max_slice \<equiv> 9223372036854775808"

locale wire_format =
  fixes pw :: protowire
  assumes types: "distinct [varint_type pw, fixed64_type pw, bytes_type pw]"
    and append_tag: "append_tag pw b num typ = b @ append_tag pw [] num typ"
    and append_varint: "append_varint pw b v = b @ append_varint pw [] v"
    and append_fixed64: "append_fixed64 pw b v = b @ append_fixed64 pw [] v"
    and append_string: "append_string pw b s = b @ append_string pw [] s"
    and append_bytes: "append_bytes pw b s = b @ append_bytes pw [] s"
    and consume_tag: "0 < sint num \<Longrightarrow> sint num < 2 ^ 29 \<Longrightarrow> typ \<in> {varint_type pw, fixed64_type pw, bytes_type pw} \<Longrightarrow>
      consume_tag pw (append_tag pw [] num typ @ rest) = (num, typ, int (length (append_tag pw [] num typ)))"
    and consume_varint: "consume_varint pw (append_varint pw [] v @ rest) = (v, int (length (append_varint pw [] v)))"
    and consume_fixed64: "consume_fixed64 pw (append_fixed64 pw [] v @ rest) = (v, int (length (append_fixed64 pw [] v)))"
    and consume_string: "length s < max_slice \<Longrightarrow>
      consume_string pw (append_string pw [] s @ rest) = (s, int (length (append_string pw [] s)))"
    and consume_bytes: "length s < max_slice \<Longrightarrow>
      consume_bytes pw (append_bytes pw [] s @ rest) = (s, int (length (append_bytes pw [] s)))"
    and length_fixed64: "length (append_fixed64 pw [] v) = 8"
    and length_string: "length s \<le> length (append_string pw [] s)"
    and length_bytes: "length s \<le> length (append_bytes pw [] s)"
    and tag_progress: "consume_tag pw b = (num, typ, n) \<Longrightarrow> n \<noteq> 0 \<and> n \<le> int (length b)"
    and varint_within: "snd (consume_varint pw b) \<le> int (length b)"
    and fixed64_within: "snd (consume_fixed64 pw b) \<le> int (length b)"
    and string_within: "snd (consume_string pw b) \<le> int (length b)"
    and bytes_within: "snd (consume_bytes pw b) \<le> int (length b)"
    and value_within: "consume_field_value pw num typ b \<le> int (length b)"
begin

lemma types_simps [simp]:
  "varint_type pw \<noteq> fixed64_type pw" "varint_type pw \<noteq> bytes_type pw" "fixed64_type pw \<noteq> bytes_type pw"
  "fixed64_type pw \<noteq> varint_type pw" "bytes_type pw \<noteq> varint_type pw" "bytes_type pw \<noteq> fixed64_type pw"
  using types by auto

lemma append_tag_neq_Nil:
  assumes "0 < sint num" "sint num < 2 ^ 29" "typ \<in> {varint_type pw, fixed64_type pw, bytes_type pw}"
  shows "append_tag pw [] num typ \<noteq> []"
  using consume_tag [OF assms, of "[]"] tag_progress by fastforce

end

subsection \<open>Decoding what was encoded\<close>

lemma decode_Nil [simp]: "decode pw sw [] m = Some (Inr m)"
  by (simp add: decode.simps)

lemma slice_from_append [simp]: "slice_from (a @ b) (int (length a)) = Some b"
  by (simp add: slice_from_def)

lemma decode_end: "decode pw sw (b @ []) m = r \<Longrightarrow> decode pw sw b m = r"
  by simp

text \<open>What an appending function adds.\<close>

definition piece :: "(bytes \<Rightarrow> bytes) \<Rightarrow> bytes" where
  "piece p = p []"

text \<open>A field number that the messages may use.\<close>

abbreviation valid_num :: "int32 \<Rightarrow> bool" where
  "valid_num num \<equiv> 0 < sint num \<and> sint num < 2 ^ 29"

context wire_format
begin

lemma piece_simps:
  "put_string pw num s b = b @ piece (put_string pw num s)"
  "put_int32 pw num w b = b @ piece (put_int32 pw num w)"
  "put_int64 pw num v b = b @ piece (put_int64 pw num v)"
  "put_bool pw num c b = b @ piece (put_bool pw num c)"
  "put_double pw num x b = b @ piece (put_double pw num x)"
  "put_bytes pw num s b = b @ piece (put_bytes pw num s)"
  unfolding piece_def put_string_def put_int32_def put_int64_def put_bool_def put_double_def put_bytes_def put_varint_def
  by (simp_all add: append_tag [of b] append_string [of "b @ _"] append_varint [of "b @ _"] append_fixed64 [of "b @ _"]
      append_bytes [of "b @ _"] append_string [of "append_tag pw [] _ _"] append_varint [of "append_tag pw [] _ _"]
      append_fixed64 [of "append_tag pw [] _ _"] append_bytes [of "append_tag pw [] _ _"])

lemma decode_tag:
  assumes "valid_num num" "typ \<in> {varint_type pw, fixed64_type pw, bytes_type pw}"
    and "sw num typ (p @ rest) m = Some (Inr (m', rest))"
  shows "decode pw sw (append_tag pw [] num typ @ p @ rest) m = decode pw sw rest m'"
  using assms append_tag_neq_Nil [of num "typ"] by (subst decode.simps) (simp add: consume_tag)

lemma decode_string:
  assumes "length (piece (put_string pw num s)) < max_slice" "valid_num num" "upd [] m = m"
    and "\<And>b. sw num (bytes_type pw) b m = take_field pw b (consume_string pw b) (\<lambda>v. upd v m)"
  shows "decode pw sw (piece (put_string pw num s) @ rest) m = decode pw sw rest (upd s m)"
proof (cases "s = []")
  case True
  then show ?thesis using assms(3) by (simp add: piece_def put_string_def)
next
  case False
  then have p: "piece (put_string pw num s) = append_tag pw [] num (bytes_type pw) @ append_string pw [] s"
    by (simp add: piece_def put_string_def append_string [of "append_tag pw [] _ _"])
  then have "length s < max_slice" using assms(1) length_string [of s] by simp
  then show ?thesis
    using assms(2,4) by (simp add: p decode_tag take_field_def consume_string)
qed

lemma ucast_scast_32: "(ucast (scast (w :: int32) :: 64 word) :: int32) = w"
  by (rule bit_word_eqI) (simp add: bit_simps)

lemma decode_int32:
  assumes "valid_num num" "upd 0 m = m"
    and "\<And>b. sw num (varint_type pw) b m = take_field pw b (consume_varint pw b) (\<lambda>v. upd (ucast v) m)"
  shows "decode pw sw (piece (put_int32 pw num w) @ rest) m = decode pw sw rest (upd w m)"
  using assms
  by (cases "w = 0") (simp_all add: ucast_scast_32 piece_def put_int32_def put_varint_def append_varint [of "append_tag pw [] _ _"]
      decode_tag take_field_def consume_varint)

lemma decode_int64:
  assumes "valid_num num" "upd 0 m = m"
    and "\<And>b. sw num (varint_type pw) b m = take_field pw b (consume_varint pw b) (\<lambda>v. upd v m)"
  shows "decode pw sw (piece (put_int64 pw num w) @ rest) m = decode pw sw rest (upd w m)"
  using assms
  by (cases "w = 0") (simp_all add: piece_def put_int64_def put_varint_def append_varint [of "append_tag pw [] _ _"]
      decode_tag take_field_def consume_varint)

lemma decode_bool:
  assumes "valid_num num" "upd False m = m"
    and "\<And>b. sw num (varint_type pw) b m = take_field pw b (consume_varint pw b) (\<lambda>v. upd (v \<noteq> 0) m)"
  shows "decode pw sw (piece (put_bool pw num c) @ rest) m = decode pw sw rest (upd c m)"
  using assms
  by (cases c) (simp_all add: piece_def put_bool_def put_varint_def append_varint [of "append_tag pw [] _ _"]
      decode_tag take_field_def consume_varint)

lemma decode_double:
  assumes "valid_num num" "upd f64_zero m = m"
    and "\<And>b. sw num (fixed64_type pw) b m = take_field pw b (consume_fixed64 pw b) (\<lambda>v. upd (F64 v) m)"
  shows "decode pw sw (piece (put_double pw num x) @ rest) m = decode pw sw rest (upd (sent_double x) m)"
  using assms
  by (cases "f64_eq x f64_zero") (simp_all add: piece_def put_double_def sent_double_def
      append_fixed64 [of "append_tag pw [] _ _"] decode_tag take_field_def consume_fixed64)

lemma decode_bytes:
  assumes "length (piece (put_bytes pw num s)) < max_slice" "valid_num num"
    and "sw num (bytes_type pw) (append_bytes pw [] s @ rest) m = Some (Inr (m', rest))"
  shows "decode pw sw (piece (put_bytes pw num s) @ rest) m = decode pw sw rest m'"
  using assms by (simp add: piece_def put_bytes_def append_bytes [of "append_tag pw [] _ _"] decode_tag)

lemma length_put_bytes: "length s \<le> length (piece (put_bytes pw num s))"
  using length_bytes [of s] by (simp add: piece_def put_bytes_def append_bytes [of "append_tag pw [] _ _"])

text \<open>Repeated fields.\<close>

lemma length_concat_piece: "x \<in> set xs \<Longrightarrow> length (g x) \<le> length (concat (map g xs))"
  unfolding length_concat map_map by (intro member_le_sum_list) auto

lemma decode_concat:
  assumes "\<And>x rest m. x \<in> set xs \<Longrightarrow> decode pw sw (g x @ rest) m = decode pw sw rest (h x m)"
  shows "decode pw sw (concat (map g xs) @ rest) m = decode pw sw rest (fold h xs m)"
  using assms by (induction xs arbitrary: m) simp_all

lemma foldl_append:
  assumes "\<And>b x. f b x = b @ g x"
  shows "foldl f b xs = b @ concat (map g xs)"
  by (induction xs arbitrary: b) (simp_all add: assms)

lemma append_tagged:
  "append_string pw (append_tag pw b num t) v = b @ append_tag pw [] num t @ append_string pw [] v"
  "append_bytes pw (append_tag pw b num t) v = b @ append_tag pw [] num t @ append_bytes pw [] v"
  by (simp_all add: append_tag [of b] append_string [of "b @ append_tag pw [] num t"]
      append_bytes [of "b @ append_tag pw [] num t"])

lemma put_strings_piece:
  "put_strings pw num vs b = b @ concat (map (\<lambda>v. append_tag pw [] num (bytes_type pw) @ append_string pw [] v) vs)"
  unfolding put_strings_def by (rule foldl_append) (rule append_tagged)

lemma put_strings_simps: "put_strings pw num vs b = b @ piece (put_strings pw num vs)"
  unfolding piece_def put_strings_piece [of num vs b] put_strings_piece [of num vs "[]"] by simp

lemma length_piece_strings:
  assumes "v \<in> set vs"
  shows "length v \<le> length (piece (put_strings pw num vs))"
proof -
  let ?g = "\<lambda>v. append_tag pw [] num (bytes_type pw) @ append_string pw [] v"
  have "length v \<le> length (?g v)" using length_string [of v] by simp
  also have "\<dots> \<le> length (piece (put_strings pw num vs))"
    using length_concat_piece [OF assms, of ?g] by (simp add: piece_def put_strings_piece)
  finally show ?thesis .
qed

lemma decode_strings:
  assumes "length (piece (put_strings pw num vs)) < max_slice" "valid_num num"
    and sw: "\<And>b m. sw num (bytes_type pw) b m = take_field pw b (consume_string pw b) (\<lambda>v. add v m)"
  shows "decode pw sw (piece (put_strings pw num vs) @ rest) m = decode pw sw rest (fold add vs m)"
proof -
  have "length v < max_slice" if "v \<in> set vs" for v
    using length_piece_strings [OF that, of num] assms(1) by simp
  then show ?thesis
    unfolding piece_def put_strings_piece [of num vs "[]"] append_Nil using assms(2)
    by (intro decode_concat) (simp add: decode_tag sw take_field_def consume_string)
qed

lemma unpack_packed: "unpack_fixed64 pw (concat (map (\<lambda>v. append_fixed64 pw [] (f64_bits v)) vs)) = vs"
proof (induction vs)
  case Nil
  then show ?case by (simp add: unpack_fixed64.simps)
next
  case (Cons v vs)
  then show ?case
    by (subst unpack_fixed64.simps) (simp add: length_fixed64 consume_fixed64)
qed

lemma append_packed_eq:
  "append_packed_fixed64 pw b num vs =
     b @ append_tag pw [] num (bytes_type pw) @ append_bytes pw [] (concat (map (\<lambda>v. append_fixed64 pw [] (f64_bits v)) vs))"
proof -
  have "foldl (\<lambda>p v. append_fixed64 pw p (f64_bits v)) [] vs = [] @ concat (map (\<lambda>v. append_fixed64 pw [] (f64_bits v)) vs)"
    by (rule foldl_append) (rule append_fixed64)
  then show ?thesis
    by (simp add: append_packed_fixed64_def append_tagged(2) [of b])
qed

lemma put_doubles_simps: "put_doubles pw num vs b = b @ piece (put_doubles pw num vs)"
  by (simp add: piece_def put_doubles_def append_packed_eq [of b] append_packed_eq [of "[]"])

lemma decode_doubles:
  assumes "length (piece (put_doubles pw num vs)) < max_slice" "valid_num num" "upd [] m = m"
    and "\<And>b. sw num (bytes_type pw) b m = take_field pw b (consume_bytes pw b) (\<lambda>v. upd (unpack_fixed64 pw v) m)"
  shows "decode pw sw (piece (put_doubles pw num vs) @ rest) m = decode pw sw rest (upd vs m)"
proof (cases "vs = []")
  case True
  then show ?thesis using assms(3) by (simp add: piece_def put_doubles_def)
next
  case False
  let ?p = "concat (map (\<lambda>v. append_fixed64 pw [] (f64_bits v)) vs)"
  have p: "piece (put_doubles pw num vs) = append_tag pw [] num (bytes_type pw) @ append_bytes pw [] ?p"
    using False by (simp add: piece_def put_doubles_def append_packed_eq)
  then have "length ?p < max_slice" using assms(1) length_bytes [of ?p] by simp
  then show ?thesis
    using assms(2,4) by (simp add: p decode_tag take_field_def consume_bytes unpack_packed)
qed

end

text \<open>A switch that never reads past the end and keeps \<open>P\<close> makes a loop that always returns.\<close>

definition stays :: "('m \<Rightarrow> bool) \<Rightarrow> bytes \<Rightarrow> ('m \<times> bytes) result option \<Rightarrow> bool" where
  "stays P b r \<longleftrightarrow> (case r of None \<Rightarrow> False | Some (Inl e) \<Rightarrow> True | Some (Inr (m, b')) \<Rightarrow> P m \<and> length b' \<le> length b)"

definition progress :: "('m \<Rightarrow> bool) \<Rightarrow> 'm switch \<Rightarrow> bool" where
  "progress P sw \<longleftrightarrow> (\<forall>num typ b m. P m \<longrightarrow> stays P b (sw num typ b m))"

context wire_format
begin

lemma decode_total:
  assumes "progress P sw" "P m"
  shows "\<exists>r. decode pw sw b m = Some r"
  using assms(2)
proof (induction b arbitrary: m rule: length_induct)
  case (1 b)
  show ?case
  proof (cases "b = [] \<or> snd (snd (consume_tag pw b)) < 0")
    case True
    then show ?thesis by (subst decode.simps) (auto split: prod.split)
  next
    case False
    obtain num t n where tag: "consume_tag pw b = (num, t, n)" by (rule prod_cases3)
    with False have n: "b \<noteq> []" "0 < n" "n \<le> int (length b)" using tag_progress [OF tag] by auto
    have "stays P (drop (nat n) b) (sw num t (drop (nat n) b) m)"
      using assms(1) 1(2) unfolding progress_def by blast
    then obtain r where r: "sw num t (drop (nat n) b) m = Some r"
        "case r of Inl e \<Rightarrow> True | Inr (m', b') \<Rightarrow> P m' \<and> length b' \<le> length (drop (nat n) b)"
      unfolding stays_def by (cases "sw num t (drop (nat n) b) m") auto
    show ?thesis
    proof (cases r)
      case (Inl e)
      then show ?thesis using n r by (subst decode.simps) (simp add: tag slice_from_def)
    next
      case (Inr mb)
      obtain m' b' where mb: "mb = (m', b')" by (cases mb)
      then have "length b' < length b" "P m'" using r(2) Inr n by auto
      then have "\<exists>r. decode pw sw b' m' = Some r" using 1(1) by blast
      then show ?thesis using n r(1) Inr mb by (subst decode.simps) (simp add: tag slice_from_def)
    qed
  qed
qed

lemma take_field_within:
  "snd r \<le> int (length b) \<Longrightarrow> (\<And>v. P (f v)) \<Longrightarrow> stays P b (take_field pw b r f)"
  by (simp add: stays_def take_field_def slice_from_def)

lemma skip_within: "P m \<Longrightarrow> stays P b (skip_field pw num t b m)"
  unfolding skip_field_def by (intro take_field_within) (simp_all add: value_within)

lemmas field_within = skip_within
  take_field_within [OF string_within] take_field_within [OF bytes_within]
  take_field_within [OF varint_within] take_field_within [OF fixed64_within]

end

end
