(* ===== verification/InferenceWire.thy ===== *)
theory InferenceWire
  imports Wire
begin

section \<open>Encoding of the inference messages\<close>

text \<open>
  \<open>MarshalProto\<close> and \<open>UnmarshalProto\<close> of \<open>gen/go/inference/v1/inference.go\<close>, line for
  line: \<open>marshal_X\<close> threads the buffer through the fields, \<open>X_switch\<close> is the \<open>switch\<close>
  of the decoder and \<open>unmarshal_X\<close> the loop over it. A \<open>MarshalProto\<close> never fails (its
  error is always nil), so \<open>marshal_X\<close> returns the bytes alone. The messages of a slice are
  not nil.
\<close>

subsection \<open>ChatMessage\<close>

definition marshal_chat :: "protowire \<Rightarrow> chat_message \<Rightarrow> bytes" where
  "marshal_chat pw m =
    (let b = [];
         b = put_string pw 1 (cm_role m) b;
         b = put_string pw 2 (cm_content m) b
     in b)"

definition chat_switch :: "protowire \<Rightarrow> chat_message switch" where
  "chat_switch pw num typ b m =
    (if num = 1 \<and> typ = bytes_type pw then take_field pw b (consume_string pw b) (\<lambda>v. m\<lparr>cm_role := v\<rparr>)
     else if num = 2 \<and> typ = bytes_type pw then take_field pw b (consume_string pw b) (\<lambda>v. m\<lparr>cm_content := v\<rparr>)
     else skip_field pw num typ b m)"

definition unmarshal_chat :: "protowire \<Rightarrow> bytes \<Rightarrow> chat_message \<Rightarrow> chat_message result option" where
  "unmarshal_chat pw b m = decode pw (chat_switch pw) b m"

definition zero_chat :: chat_message where
  "zero_chat = \<lparr>cm_role = [], cm_content = []\<rparr>"

subsection \<open>InferenceRequest\<close>

text \<open>An entry of the metadata map: a message of its own, both fields always sent.\<close>

definition metadata_entry :: "protowire \<Rightarrow> string \<Rightarrow> string \<Rightarrow> bytes" where
  "metadata_entry pw k v =
    (let entry = append_tag pw [] 1 (bytes_type pw);
         entry = append_string pw entry k;
         entry = append_tag pw entry 2 (bytes_type pw);
         entry = append_string pw entry v
     in entry)"

text \<open>\<open>unmarshalStringPair\<close> stops at the first error and returns what it has read so far.\<close>

partial_function (option) unmarshal_string_pair :: "protowire \<Rightarrow> bytes \<Rightarrow> string \<times> string \<Rightarrow> (string \<times> string) option" where
  [code]: "unmarshal_string_pair pw b kv =
    (if b = [] then Some kv
     else (case consume_tag pw b of (num, typ, n) \<Rightarrow>
       if n < 0 then Some kv
       else Option.bind (slice_from b n) (\<lambda>b.
         if typ = bytes_type pw
         then (case consume_string pw b of (s, n) \<Rightarrow>
           if n < 0 then Some kv
           else Option.bind (slice_from b n) (\<lambda>b'. unmarshal_string_pair pw b'
             (if num = 1 then (s, snd kv) else if num = 2 then (fst kv, s) else kv)))
         else (case consume_field_value pw num typ b of n \<Rightarrow>
           if n < 0 then Some kv
           else Option.bind (slice_from b n) (\<lambda>b'. unmarshal_string_pair pw b' kv)))))"

text \<open>
  The map is sent in the order of Go's iteration over it, which is any: \<open>order\<close> lists
  its entries in that order.
\<close>

definition marshal_request :: "protowire \<Rightarrow> (string \<times> string) list \<Rightarrow> inference_request \<Rightarrow> bytes" where
  "marshal_request pw order m =
    (let b = [];
         b = put_string pw 1 (ir_request_id m) b;
         b = put_string pw 2 (ir_idempotency_key m) b;
         b = put_int32 pw 3 (ir_task_type m) b;
         b = put_string pw 4 (ir_prompt m) b;
         b = foldl (\<lambda>b x. put_bytes pw 5 (marshal_chat pw x) b) b (ir_messages m);
         b = put_strings pw 6 (ir_documents m) b;
         b = put_string pw 7 (ir_query m) b;
         b = put_int32 pw 8 (ir_max_tokens m) b;
         b = put_bool pw 9 (ir_stream m) b;
         b = put_int32 pw 10 (ir_priority m) b;
         b = put_string pw 11 (ir_cost_budget m) b;
         b = put_int32 pw 12 (ir_latency_target_ms m) b;
         b = put_string pw 13 (ir_tenant_id m) b;
         b = put_string pw 14 (ir_api_key_id m) b;
         b = foldl (\<lambda>b (k, v). put_bytes pw 15 (metadata_entry pw k v) b) b order;
         b = put_int64 pw 16 (ir_deadline_unix_ms m) b;
         b = put_int64 pw 17 (ir_received_at_ms m) b
     in b)"

text \<open>The two cases with a nested message. Assigning to a nil map panics.\<close>

definition request_messages_arm :: "protowire \<Rightarrow> bytes \<Rightarrow> inference_request \<Rightarrow> (inference_request \<times> bytes) result option" where
  "request_messages_arm pw b m =
    (case consume_bytes pw b of (v, n) \<Rightarrow>
       if n < 0 then Some (Inl (parse_error pw n))
       else Option.bind (unmarshal_chat pw v zero_chat) (\<lambda>r.
         case r of Inl e \<Rightarrow> Some (Inl e)
         | Inr msg \<Rightarrow> map_option (\<lambda>b'. Inr (m\<lparr>ir_messages := ir_messages m @ [msg]\<rparr>, b')) (slice_from b n)))"

definition request_metadata_arm :: "protowire \<Rightarrow> bytes \<Rightarrow> inference_request \<Rightarrow> (inference_request \<times> bytes) result option" where
  "request_metadata_arm pw b m =
    (case consume_bytes pw b of (raw, n) \<Rightarrow>
       if n < 0 then Some (Inl (parse_error pw n))
       else Option.bind (unmarshal_string_pair pw raw ([], [])) (\<lambda>(k, v).
         case ir_metadata m of None \<Rightarrow> None
         | Some md \<Rightarrow> map_option (\<lambda>b'. Inr (m\<lparr>ir_metadata := Some (md(k \<mapsto> v))\<rparr>, b')) (slice_from b n)))"

definition request_switch :: "protowire \<Rightarrow> inference_request switch" where
  "request_switch pw num typ b m =
    (if num = 1 \<and> typ = bytes_type pw then take_field pw b (consume_string pw b) (\<lambda>v. m\<lparr>ir_request_id := v\<rparr>)
     else if num = 2 \<and> typ = bytes_type pw then take_field pw b (consume_string pw b) (\<lambda>v. m\<lparr>ir_idempotency_key := v\<rparr>)
     else if num = 3 \<and> typ = varint_type pw then take_field pw b (consume_varint pw b) (\<lambda>v. m\<lparr>ir_task_type := ucast v\<rparr>)
     else if num = 4 \<and> typ = bytes_type pw then take_field pw b (consume_string pw b) (\<lambda>v. m\<lparr>ir_prompt := v\<rparr>)
     else if num = 5 \<and> typ = bytes_type pw then request_messages_arm pw b m
     else if num = 6 \<and> typ = bytes_type pw then take_field pw b (consume_string pw b) (\<lambda>v. m\<lparr>ir_documents := ir_documents m @ [v]\<rparr>)
     else if num = 7 \<and> typ = bytes_type pw then take_field pw b (consume_string pw b) (\<lambda>v. m\<lparr>ir_query := v\<rparr>)
     else if num = 8 \<and> typ = varint_type pw then take_field pw b (consume_varint pw b) (\<lambda>v. m\<lparr>ir_max_tokens := ucast v\<rparr>)
     else if num = 9 \<and> typ = varint_type pw then take_field pw b (consume_varint pw b) (\<lambda>v. m\<lparr>ir_stream := v \<noteq> 0\<rparr>)
     else if num = 10 \<and> typ = varint_type pw then take_field pw b (consume_varint pw b) (\<lambda>v. m\<lparr>ir_priority := ucast v\<rparr>)
     else if num = 11 \<and> typ = bytes_type pw then take_field pw b (consume_string pw b) (\<lambda>v. m\<lparr>ir_cost_budget := v\<rparr>)
     else if num = 12 \<and> typ = varint_type pw then take_field pw b (consume_varint pw b) (\<lambda>v. m\<lparr>ir_latency_target_ms := ucast v\<rparr>)
     else if num = 13 \<and> typ = bytes_type pw then take_field pw b (consume_string pw b) (\<lambda>v. m\<lparr>ir_tenant_id := v\<rparr>)
     else if num = 14 \<and> typ = bytes_type pw then take_field pw b (consume_string pw b) (\<lambda>v. m\<lparr>ir_api_key_id := v\<rparr>)
     else if num = 15 \<and> typ = bytes_type pw then request_metadata_arm pw b m
     else if num = 16 \<and> typ = varint_type pw then take_field pw b (consume_varint pw b) (\<lambda>v. m\<lparr>ir_deadline_unix_ms := v\<rparr>)
     else if num = 17 \<and> typ = varint_type pw then take_field pw b (consume_varint pw b) (\<lambda>v. m\<lparr>ir_received_at_ms := v\<rparr>)
     else skip_field pw num typ b m)"

definition unmarshal_request :: "protowire \<Rightarrow> bytes \<Rightarrow> inference_request \<Rightarrow> inference_request result option" where
  "unmarshal_request pw b m =
    (let m = (if ir_metadata m = None then m\<lparr>ir_metadata := Some Map.empty\<rparr> else m)
     in decode pw (request_switch pw) b m)"

subsection \<open>InferenceResponse\<close>

definition marshal_response :: "protowire \<Rightarrow> inference_response \<Rightarrow> bytes" where
  "marshal_response pw m =
    (let b = [];
         b = put_string pw 1 (rs_request_id m) b;
         b = put_string pw 2 (rs_trace_id m) b;
         b = put_int32 pw 3 (rs_task_type m) b;
         b = put_string pw 4 (rs_model_id m) b;
         b = put_string pw 5 (rs_model_version m) b;
         b = put_int32 pw 6 (rs_model_tier m) b;
         b = put_string pw 7 (rs_content m) b;
         b = put_doubles pw 8 (rs_embedding m) b;
         b = put_doubles pw 9 (rs_scores m) b;
         b = put_int32 pw 10 (rs_tokens_input m) b;
         b = put_int32 pw 11 (rs_tokens_output m) b;
         b = put_double pw 12 (rs_latency_ms m) b;
         b = put_double pw 13 (rs_queue_wait_ms m) b;
         b = put_bool pw 14 (rs_cached m) b;
         b = put_bool pw 15 (rs_fallback_used m) b;
         b = put_bool pw 16 (rs_is_canary m) b;
         b = put_double pw 17 (rs_cost_usd m) b;
         b = put_string pw 18 (rs_executor_id m) b
     in b)"

definition response_switch :: "protowire \<Rightarrow> inference_response switch" where
  "response_switch pw num typ b m =
    (if num = 1 \<and> typ = bytes_type pw then take_field pw b (consume_string pw b) (\<lambda>v. m\<lparr>rs_request_id := v\<rparr>)
     else if num = 2 \<and> typ = bytes_type pw then take_field pw b (consume_string pw b) (\<lambda>v. m\<lparr>rs_trace_id := v\<rparr>)
     else if num = 3 \<and> typ = varint_type pw then take_field pw b (consume_varint pw b) (\<lambda>v. m\<lparr>rs_task_type := ucast v\<rparr>)
     else if num = 4 \<and> typ = bytes_type pw then take_field pw b (consume_string pw b) (\<lambda>v. m\<lparr>rs_model_id := v\<rparr>)
     else if num = 5 \<and> typ = bytes_type pw then take_field pw b (consume_string pw b) (\<lambda>v. m\<lparr>rs_model_version := v\<rparr>)
     else if num = 6 \<and> typ = varint_type pw then take_field pw b (consume_varint pw b) (\<lambda>v. m\<lparr>rs_model_tier := ucast v\<rparr>)
     else if num = 7 \<and> typ = bytes_type pw then take_field pw b (consume_string pw b) (\<lambda>v. m\<lparr>rs_content := v\<rparr>)
     else if num = 8 \<and> typ = bytes_type pw then take_field pw b (consume_bytes pw b) (\<lambda>v. m\<lparr>rs_embedding := unpack_fixed64 pw v\<rparr>)
     else if num = 9 \<and> typ = bytes_type pw then take_field pw b (consume_bytes pw b) (\<lambda>v. m\<lparr>rs_scores := unpack_fixed64 pw v\<rparr>)
     else if num = 10 \<and> typ = varint_type pw then take_field pw b (consume_varint pw b) (\<lambda>v. m\<lparr>rs_tokens_input := ucast v\<rparr>)
     else if num = 11 \<and> typ = varint_type pw then take_field pw b (consume_varint pw b) (\<lambda>v. m\<lparr>rs_tokens_output := ucast v\<rparr>)
     else if num = 12 \<and> typ = fixed64_type pw then take_field pw b (consume_fixed64 pw b) (\<lambda>v. m\<lparr>rs_latency_ms := F64 v\<rparr>)
     else if num = 13 \<and> typ = fixed64_type pw then take_field pw b (consume_fixed64 pw b) (\<lambda>v. m\<lparr>rs_queue_wait_ms := F64 v\<rparr>)
     else if num = 14 \<and> typ = varint_type pw then take_field pw b (consume_varint pw b) (\<lambda>v. m\<lparr>rs_cached := v \<noteq> 0\<rparr>)
     else if num = 15 \<and> typ = varint_type pw then take_field pw b (consume_varint pw b) (\<lambda>v. m\<lparr>rs_fallback_used := v \<noteq> 0\<rparr>)
     else if num = 16 \<and> typ = varint_type pw then take_field pw b (consume_varint pw b) (\<lambda>v. m\<lparr>rs_is_canary := v \<noteq> 0\<rparr>)
     else if num = 17 \<and> typ = fixed64_type pw then take_field pw b (consume_fixed64 pw b) (\<lambda>v. m\<lparr>rs_cost_usd := F64 v\<rparr>)
     else if num = 18 \<and> typ = bytes_type pw then take_field pw b (consume_string pw b) (\<lambda>v. m\<lparr>rs_executor_id := v\<rparr>)
     else skip_field pw num typ b m)"

definition unmarshal_response :: "protowire \<Rightarrow> bytes \<Rightarrow> inference_response \<Rightarrow> inference_response result option" where
  "unmarshal_response pw b m = decode pw (response_switch pw) b m"

subsection \<open>StreamChunk\<close>

definition marshal_stream_chunk :: "protowire \<Rightarrow> stream_chunk \<Rightarrow> bytes" where
  "marshal_stream_chunk pw m =
    (let b = [];
         b = put_string pw 1 (sc_request_id m) b;
         b = put_string pw 2 (sc_trace_id m) b;
         b = put_string pw 3 (sc_token m) b;
         b = put_bool pw 4 (sc_done m) b;
         b = put_int32 pw 5 (sc_tokens_out m) b;
         b = put_double pw 6 (sc_latency_ms m) b
     in b)"

definition stream_chunk_switch :: "protowire \<Rightarrow> stream_chunk switch" where
  "stream_chunk_switch pw num typ b m =
    (if num = 1 \<and> typ = bytes_type pw then take_field pw b (consume_string pw b) (\<lambda>v. m\<lparr>sc_request_id := v\<rparr>)
     else if num = 2 \<and> typ = bytes_type pw then take_field pw b (consume_string pw b) (\<lambda>v. m\<lparr>sc_trace_id := v\<rparr>)
     else if num = 3 \<and> typ = bytes_type pw then take_field pw b (consume_string pw b) (\<lambda>v. m\<lparr>sc_token := v\<rparr>)
     else if num = 4 \<and> typ = varint_type pw then take_field pw b (consume_varint pw b) (\<lambda>v. m\<lparr>sc_done := v \<noteq> 0\<rparr>)
     else if num = 5 \<and> typ = varint_type pw then take_field pw b (consume_varint pw b) (\<lambda>v. m\<lparr>sc_tokens_out := ucast v\<rparr>)
     else if num = 6 \<and> typ = fixed64_type pw then take_field pw b (consume_fixed64 pw b) (\<lambda>v. m\<lparr>sc_latency_ms := F64 v\<rparr>)
     else skip_field pw num typ b m)"

definition unmarshal_stream_chunk :: "protowire \<Rightarrow> bytes \<Rightarrow> stream_chunk \<Rightarrow> stream_chunk result option" where
  "unmarshal_stream_chunk pw b m = decode pw (stream_chunk_switch pw) b m"

definition zero_stream_chunk :: stream_chunk where
  "zero_stream_chunk = \<lparr>sc_request_id = [], sc_trace_id = [], sc_token = [], sc_done = False,
     sc_tokens_out = 0, sc_latency_ms = f64_zero\<rparr>"

subsection \<open>Round trips\<close>

text \<open>What arrives of a message: a nil map arrives empty and \<open>-0\<close> as \<open>+0\<close>.\<close>

definition sent_request :: "inference_request \<Rightarrow> inference_request" where
  "sent_request m = m\<lparr>ir_metadata := Some (case ir_metadata m of None \<Rightarrow> Map.empty | Some md \<Rightarrow> md)\<rparr>"

definition sent_response :: "inference_response \<Rightarrow> inference_response" where
  "sent_response m = m\<lparr>rs_latency_ms := sent_double (rs_latency_ms m),
     rs_queue_wait_ms := sent_double (rs_queue_wait_ms m), rs_cost_usd := sent_double (rs_cost_usd m)\<rparr>"

definition sent_stream_chunk :: "stream_chunk \<Rightarrow> stream_chunk" where
  "sent_stream_chunk m = m\<lparr>sc_latency_ms := sent_double (sc_latency_ms m)\<rparr>"

text \<open>\<open>order\<close> is an iteration over the map.\<close>

definition iterates :: "(string \<times> string) list \<Rightarrow> (string \<rightharpoonup> string) option \<Rightarrow> bool" where
  "iterates order md \<longleftrightarrow> distinct (map fst order) \<and> map_of order = (case md of None \<Rightarrow> Map.empty | Some m \<Rightarrow> m)"

context wire_format
begin

lemmas chat_steps =
  decode_string [where sw = "chat_switch pw" and num = 1 and upd = "\<lambda>v m. m\<lparr>cm_role := v\<rparr>"]
  decode_string [where sw = "chat_switch pw" and num = 2 and upd = "\<lambda>v m. m\<lparr>cm_content := v\<rparr>"]

lemma chat_roundtrip:
  assumes "length (marshal_chat pw x) < max_slice"
  shows "unmarshal_chat pw (marshal_chat pw x) zero_chat = Some (Inr x)"
  using assms unfolding unmarshal_chat_def marshal_chat_def Let_def zero_chat_def
  apply -
  apply (rule decode_end)
  by (cases x) (simp add: piece_simps chat_steps chat_switch_def del: append_Nil2)

lemmas request_steps =
  decode_string [where sw = "request_switch pw" and num = 1 and upd = "\<lambda>v m. m\<lparr>ir_request_id := v\<rparr>"]
  decode_string [where sw = "request_switch pw" and num = 2 and upd = "\<lambda>v m. m\<lparr>ir_idempotency_key := v\<rparr>"]
  decode_int32 [where sw = "request_switch pw" and num = 3 and upd = "\<lambda>v m. m\<lparr>ir_task_type := v\<rparr>"]
  decode_string [where sw = "request_switch pw" and num = 4 and upd = "\<lambda>v m. m\<lparr>ir_prompt := v\<rparr>"]
  decode_strings [where sw = "request_switch pw" and num = 6 and add = "\<lambda>v m. m\<lparr>ir_documents := ir_documents m @ [v]\<rparr>"]
  decode_string [where sw = "request_switch pw" and num = 7 and upd = "\<lambda>v m. m\<lparr>ir_query := v\<rparr>"]
  decode_int32 [where sw = "request_switch pw" and num = 8 and upd = "\<lambda>v m. m\<lparr>ir_max_tokens := v\<rparr>"]
  decode_bool [where sw = "request_switch pw" and num = 9 and upd = "\<lambda>v m. m\<lparr>ir_stream := v\<rparr>"]
  decode_int32 [where sw = "request_switch pw" and num = 10 and upd = "\<lambda>v m. m\<lparr>ir_priority := v\<rparr>"]
  decode_string [where sw = "request_switch pw" and num = 11 and upd = "\<lambda>v m. m\<lparr>ir_cost_budget := v\<rparr>"]
  decode_int32 [where sw = "request_switch pw" and num = 12 and upd = "\<lambda>v m. m\<lparr>ir_latency_target_ms := v\<rparr>"]
  decode_string [where sw = "request_switch pw" and num = 13 and upd = "\<lambda>v m. m\<lparr>ir_tenant_id := v\<rparr>"]
  decode_string [where sw = "request_switch pw" and num = 14 and upd = "\<lambda>v m. m\<lparr>ir_api_key_id := v\<rparr>"]
  decode_int64 [where sw = "request_switch pw" and num = 16 and upd = "\<lambda>v m. m\<lparr>ir_deadline_unix_ms := v\<rparr>"]
  decode_int64 [where sw = "request_switch pw" and num = 17 and upd = "\<lambda>v m. m\<lparr>ir_received_at_ms := v\<rparr>"]

lemmas response_steps =
  decode_string [where sw = "response_switch pw" and num = 1 and upd = "\<lambda>v m. m\<lparr>rs_request_id := v\<rparr>"]
  decode_string [where sw = "response_switch pw" and num = 2 and upd = "\<lambda>v m. m\<lparr>rs_trace_id := v\<rparr>"]
  decode_int32 [where sw = "response_switch pw" and num = 3 and upd = "\<lambda>v m. m\<lparr>rs_task_type := v\<rparr>"]
  decode_string [where sw = "response_switch pw" and num = 4 and upd = "\<lambda>v m. m\<lparr>rs_model_id := v\<rparr>"]
  decode_string [where sw = "response_switch pw" and num = 5 and upd = "\<lambda>v m. m\<lparr>rs_model_version := v\<rparr>"]
  decode_int32 [where sw = "response_switch pw" and num = 6 and upd = "\<lambda>v m. m\<lparr>rs_model_tier := v\<rparr>"]
  decode_string [where sw = "response_switch pw" and num = 7 and upd = "\<lambda>v m. m\<lparr>rs_content := v\<rparr>"]
  decode_doubles [where sw = "response_switch pw" and num = 8 and upd = "\<lambda>v m. m\<lparr>rs_embedding := v\<rparr>"]
  decode_doubles [where sw = "response_switch pw" and num = 9 and upd = "\<lambda>v m. m\<lparr>rs_scores := v\<rparr>"]
  decode_int32 [where sw = "response_switch pw" and num = 10 and upd = "\<lambda>v m. m\<lparr>rs_tokens_input := v\<rparr>"]
  decode_int32 [where sw = "response_switch pw" and num = 11 and upd = "\<lambda>v m. m\<lparr>rs_tokens_output := v\<rparr>"]
  decode_double [where sw = "response_switch pw" and num = 12 and upd = "\<lambda>v m. m\<lparr>rs_latency_ms := v\<rparr>"]
  decode_double [where sw = "response_switch pw" and num = 13 and upd = "\<lambda>v m. m\<lparr>rs_queue_wait_ms := v\<rparr>"]
  decode_bool [where sw = "response_switch pw" and num = 14 and upd = "\<lambda>v m. m\<lparr>rs_cached := v\<rparr>"]
  decode_bool [where sw = "response_switch pw" and num = 15 and upd = "\<lambda>v m. m\<lparr>rs_fallback_used := v\<rparr>"]
  decode_bool [where sw = "response_switch pw" and num = 16 and upd = "\<lambda>v m. m\<lparr>rs_is_canary := v\<rparr>"]
  decode_double [where sw = "response_switch pw" and num = 17 and upd = "\<lambda>v m. m\<lparr>rs_cost_usd := v\<rparr>"]
  decode_string [where sw = "response_switch pw" and num = 18 and upd = "\<lambda>v m. m\<lparr>rs_executor_id := v\<rparr>"]

lemmas stream_chunk_steps =
  decode_string [where sw = "stream_chunk_switch pw" and num = 1 and upd = "\<lambda>v m. m\<lparr>sc_request_id := v\<rparr>"]
  decode_string [where sw = "stream_chunk_switch pw" and num = 2 and upd = "\<lambda>v m. m\<lparr>sc_trace_id := v\<rparr>"]
  decode_string [where sw = "stream_chunk_switch pw" and num = 3 and upd = "\<lambda>v m. m\<lparr>sc_token := v\<rparr>"]
  decode_bool [where sw = "stream_chunk_switch pw" and num = 4 and upd = "\<lambda>v m. m\<lparr>sc_done := v\<rparr>"]
  decode_int32 [where sw = "stream_chunk_switch pw" and num = 5 and upd = "\<lambda>v m. m\<lparr>sc_tokens_out := v\<rparr>"]
  decode_double [where sw = "stream_chunk_switch pw" and num = 6 and upd = "\<lambda>v m. m\<lparr>sc_latency_ms := v\<rparr>"]

lemma fold_messages: "fold (\<lambda>x m. m\<lparr>ir_messages := ir_messages m @ [x]\<rparr>) xs m = m\<lparr>ir_messages := ir_messages m @ xs\<rparr>"
  by (induction xs arbitrary: m) simp_all

lemma fold_documents: "fold (\<lambda>x m. m\<lparr>ir_documents := ir_documents m @ [x]\<rparr>) xs m = m\<lparr>ir_documents := ir_documents m @ xs\<rparr>"
  by (induction xs arbitrary: m) simp_all

lemma foldl_messages:
  "foldl (\<lambda>b x. put_bytes pw num (marshal_chat pw x) b) b xs =
     b @ concat (map (\<lambda>x. piece (put_bytes pw num (marshal_chat pw x))) xs)"
  by (rule foldl_append) (rule piece_simps)

lemma foldl_metadata:
  "foldl (\<lambda>b (k, v). put_bytes pw num (metadata_entry pw k v) b) b kvs =
     b @ concat (map (\<lambda>(k, v). piece (put_bytes pw num (metadata_entry pw k v))) kvs)"
  by (rule foldl_append) (clarsimp simp: piece_simps)

lemma decode_messages:
  assumes "length (concat (map (\<lambda>x. piece (put_bytes pw 5 (marshal_chat pw x))) xs)) < max_slice"
  shows "decode pw (request_switch pw) (concat (map (\<lambda>x. piece (put_bytes pw 5 (marshal_chat pw x))) xs) @ rest) m =
    decode pw (request_switch pw) rest (m\<lparr>ir_messages := ir_messages m @ xs\<rparr>)"
proof (rule trans [OF decode_concat])
  show "decode pw (request_switch pw) rest (fold (\<lambda>x m. m\<lparr>ir_messages := ir_messages m @ [x]\<rparr>) xs m) =
      decode pw (request_switch pw) rest (m\<lparr>ir_messages := ir_messages m @ xs\<rparr>)"
    by (simp add: fold_messages)
next
  fix x rest m
  assume x: "x \<in> set xs"
  have p: "length (piece (put_bytes pw 5 (marshal_chat pw x))) < max_slice"
    using length_concat_piece [OF x, of "\<lambda>x. piece (put_bytes pw 5 (marshal_chat pw x))"] assms by simp
  then have "length (marshal_chat pw x) < max_slice"
    using length_put_bytes [of "marshal_chat pw x" 5] by simp
  then show "decode pw (request_switch pw) (piece (put_bytes pw 5 (marshal_chat pw x)) @ rest) m =
      decode pw (request_switch pw) rest (m\<lparr>ir_messages := ir_messages m @ [x]\<rparr>)"
    by (intro decode_bytes p) (simp_all add: request_switch_def request_messages_arm_def consume_bytes chat_roundtrip)
qed

lemma metadata_entry_eq:
  "metadata_entry pw k v = (append_tag pw [] 1 (bytes_type pw) @ append_string pw [] k) @
     append_tag pw [] 2 (bytes_type pw) @ append_string pw [] v"
  unfolding metadata_entry_def Let_def append_tagged(1) [of _ 2] append_tagged(1) [of "[]" 1] by simp

lemma string_pair_step:
  assumes "valid_num num" "length s < max_slice"
  shows "unmarshal_string_pair pw ((append_tag pw [] num (bytes_type pw) @ append_string pw [] s) @ rest) kv =
    unmarshal_string_pair pw rest (if num = 1 then (s, snd kv) else if num = 2 then (fst kv, s) else kv)"
  using assms append_tag_neq_Nil [of num "bytes_type pw"]
  by (subst unmarshal_string_pair.simps) (simp add: consume_tag consume_string)

lemma string_pair_roundtrip:
  assumes "length (metadata_entry pw k v) < max_slice"
  shows "unmarshal_string_pair pw (metadata_entry pw k v) ([], []) = Some (k, v)"
proof -
  have "length k < max_slice" "length v < max_slice"
    using assms length_string [of k] length_string [of v] by (simp_all add: metadata_entry_eq)
  then show ?thesis
    unfolding metadata_entry_eq
    using string_pair_step [of 2 v "[]"] by (simp add: string_pair_step unmarshal_string_pair.simps [of _ "[]"] del: append_assoc)
qed

lemma decode_metadata:
  assumes "length (concat (map (\<lambda>(k, v). piece (put_bytes pw 15 (metadata_entry pw k v))) kvs)) < max_slice"
    and "ir_metadata m = Some md"
  shows "decode pw (request_switch pw) (concat (map (\<lambda>(k, v). piece (put_bytes pw 15 (metadata_entry pw k v))) kvs) @ rest) m =
    decode pw (request_switch pw) rest (m\<lparr>ir_metadata := Some (fold (\<lambda>(k, v) md. md(k \<mapsto> v)) kvs md)\<rparr>)"
  using assms
proof (induction kvs arbitrary: m md)
  case Nil
  then show ?case by (cases m) simp
next
  case (Cons kv kvs)
  obtain k v where kv: "kv = (k, v)" by (cases kv)
  have p: "length (piece (put_bytes pw 15 (metadata_entry pw k v))) < max_slice"
    using Cons.prems(1) by (simp add: kv)
  then have "length (metadata_entry pw k v) < max_slice"
    using length_put_bytes [of "metadata_entry pw k v" 15] by simp
  then have "decode pw (request_switch pw) (piece (put_bytes pw 15 (metadata_entry pw k v)) @ r) m =
      decode pw (request_switch pw) r (m\<lparr>ir_metadata := Some (md(k \<mapsto> v))\<rparr>)" for r
    by (intro decode_bytes p)
      (simp_all add: request_switch_def request_metadata_arm_def consume_bytes string_pair_roundtrip Cons.prems(2))
  then show ?case using Cons.prems(1) by (simp add: kv Cons.IH)
qed

lemma fold_upd:
  "distinct (map fst kvs) \<Longrightarrow> fold (\<lambda>(k, v) md. md(k \<mapsto> v)) kvs md = md ++ map_of kvs"
proof (induction kvs arbitrary: md)
  case (Cons kv kvs)
  obtain k v where kv: "kv = (k, v)" by (cases kv)
  with Cons.prems have "map_of kvs k = None" by (simp add: map_of_eq_None_iff)
  then have "md(k \<mapsto> v) ++ map_of kvs = md ++ (map_of kvs)(k \<mapsto> v)"
    by (auto simp: map_add_def fun_eq_iff split: option.split)
  then show ?case using Cons by (simp add: kv del: map_add_upd fun_upd_apply)
qed simp

lemma sent_request_fields:
  assumes "length (marshal_request pw order m) < max_slice" "iterates order (ir_metadata m)"
  shows "unmarshal_request pw (marshal_request pw order m) zero_request = Some (Inr (sent_request m))"
  using assms
  unfolding unmarshal_request_def marshal_request_def Let_def zero_request_def iterates_def foldl_messages foldl_metadata
  apply -
  apply (rule decode_end)
  apply (cases m)
  apply (simp add: piece_simps put_strings_simps request_steps fold_documents
      decode_messages decode_metadata fold_upd sent_request_def request_switch_def del: append_Nil2)
  done

lemma sent_response_fields:
  assumes "length (marshal_response pw m) < max_slice"
  shows "unmarshal_response pw (marshal_response pw m) zero_response = Some (Inr (sent_response m))"
  using assms
  unfolding unmarshal_response_def marshal_response_def Let_def zero_response_def
  apply -
  apply (rule decode_end)
  apply (cases m)
  apply (simp add: piece_simps put_doubles_simps response_steps sent_response_def response_switch_def del: append_Nil2)
  done

lemma sent_stream_chunk_fields:
  assumes "length (marshal_stream_chunk pw m) < max_slice"
  shows "unmarshal_stream_chunk pw (marshal_stream_chunk pw m) zero_stream_chunk = Some (Inr (sent_stream_chunk m))"
  using assms
  unfolding unmarshal_stream_chunk_def marshal_stream_chunk_def Let_def zero_stream_chunk_def
  apply -
  apply (rule decode_end)
  apply (cases m)
  apply (simp add: piece_simps stream_chunk_steps sent_stream_chunk_def stream_chunk_switch_def del: append_Nil2)
  done

text \<open>Every decoder returns on every input.\<close>

lemma chat_progress: "progress (\<lambda>m. True) (chat_switch pw)"
  by (simp add: progress_def chat_switch_def field_within)

lemma string_pair_total: "\<exists>kv'. unmarshal_string_pair pw b kv = Some kv'"
proof (induction b arbitrary: kv rule: length_induct)
  case (1 b)
  obtain num t n where tag: "consume_tag pw b = (num, t, n)" by (rule prod_cases3)
  show ?case
  proof (cases "b = [] \<or> n < 0")
    case True
    then show ?thesis by (subst unmarshal_string_pair.simps) (auto simp: tag)
  next
    case False
    with tag_progress [OF tag] have n: "b \<noteq> []" "0 < n" "n \<le> int (length b)" by auto
    let ?b = "drop (nat n) b"
    obtain v l where v: "consume_string pw ?b = (v, l)" by (cases "consume_string pw ?b")
    have len: "l \<le> int (length ?b)" "consume_field_value pw num t ?b \<le> int (length ?b)"
      using string_within [of ?b] value_within [of num t ?b] by (simp_all add: v)
    have "length (drop (nat i) ?b) < length b" for i using n by simp
    then have "\<exists>kv'. unmarshal_string_pair pw (drop (nat i) ?b) kv'' = Some kv'" for i kv''
      using 1 by blast
    then show ?thesis
      using n len by (subst unmarshal_string_pair.simps) (simp add: tag v slice_from_def)
  qed
qed

lemma messages_arm_within:
  assumes "ir_metadata m \<noteq> None"
  shows "stays (\<lambda>m. ir_metadata m \<noteq> None) b (request_messages_arm pw b m)"
proof -
  obtain v n where v: "consume_bytes pw b = (v, n)" by (cases "consume_bytes pw b")
  obtain r where "unmarshal_chat pw v zero_chat = Some r"
    unfolding unmarshal_chat_def using decode_total [OF chat_progress] by blast
  then show ?thesis
    using bytes_within [of b] assms by (cases r) (simp_all add: stays_def request_messages_arm_def v slice_from_def)
qed

lemma metadata_arm_within:
  assumes "ir_metadata m \<noteq> None"
  shows "stays (\<lambda>m. ir_metadata m \<noteq> None) b (request_metadata_arm pw b m)"
proof -
  obtain v n where v: "consume_bytes pw b = (v, n)" by (cases "consume_bytes pw b")
  obtain kv where "unmarshal_string_pair pw v ([], []) = Some kv"
    using string_pair_total by blast
  then show ?thesis
    using bytes_within [of b] assms
    by (auto simp: stays_def request_metadata_arm_def v slice_from_def split: prod.split)
qed

lemma unmarshal_request_total: "\<exists>r. unmarshal_request pw b m = Some r"
proof -
  have "progress (\<lambda>m. ir_metadata m \<noteq> None) (request_switch pw)"
    by (simp add: progress_def request_switch_def field_within messages_arm_within metadata_arm_within del: not_None_eq)
  then show ?thesis unfolding unmarshal_request_def Let_def by (rule decode_total) auto
qed

lemma unmarshal_response_total: "\<exists>r. unmarshal_response pw b m = Some r"
proof -
  have "progress (\<lambda>m. True) (response_switch pw)"
    by (simp add: progress_def response_switch_def field_within)
  then show ?thesis unfolding unmarshal_response_def by (rule decode_total) simp
qed

lemma unmarshal_stream_chunk_total: "\<exists>r. unmarshal_stream_chunk pw b m = Some r"
proof -
  have "progress (\<lambda>m. True) (stream_chunk_switch pw)"
    by (simp add: progress_def stream_chunk_switch_def field_within)
  then show ?thesis unfolding unmarshal_stream_chunk_def by (rule decode_total) simp
qed

end

end
