(* ===== verification/ExecutionWire.thy ===== *)
theory ExecutionWire
  imports InferenceWire
begin

section \<open>The executor's messages\<close>

text \<open>
  \<open>MarshalProto\<close> and \<open>UnmarshalProto\<close> of \<open>gen/go/execution/v1/execution.go\<close>, in the form
  of \<open>InferenceWire\<close>, and the message structs that only this package has. Its
  \<open>StreamChunk\<close> is \<open>execute_chunk\<close> here. \<open>HealthRequest\<close> has no field.
\<close>

subsection \<open>The remaining structs\<close>

record execute_chunk =
  ec_request_id :: string
  ec_token :: string
  ec_done :: bool
  ec_tokens_out :: int32

record health_response =
  hr_executor_id :: string
  hr_status :: string
  hr_model_ids :: "string list"
  hr_load_factor :: f64
  hr_requests_served :: int64
  hr_tokens_per_second :: f64
  hr_avg_latency_ms :: f64

record set_status_request =
  sq_status :: string
  sq_load_factor :: f64

record set_status_response =
  sp_status :: string

datatype health_request = HealthRequest

subsection \<open>ExecuteRequest\<close>

definition marshal_execute_request :: "protowire \<Rightarrow> execute_request \<Rightarrow> bytes" where
  "marshal_execute_request pw m =
    (let b = [];
         b = put_string pw 1 (er_request_id m) b;
         b = put_string pw 2 (er_model_id m) b;
         b = put_string pw 3 (er_model_version m) b;
         b = put_int32 pw 4 (er_task_type m) b;
         b = put_string pw 5 (er_prompt m) b;
         b = foldl (\<lambda>b x. put_bytes pw 6 (marshal_chat pw x) b) b (er_messages m);
         b = put_strings pw 7 (er_documents m) b;
         b = put_string pw 8 (er_query m) b;
         b = put_int32 pw 9 (er_max_tokens m) b;
         b = put_int64 pw 10 (er_deadline_ms m) b
     in b)"

definition execute_request_messages_arm :: "protowire \<Rightarrow> bytes \<Rightarrow> execute_request \<Rightarrow> (execute_request \<times> bytes) result option" where
  "execute_request_messages_arm pw b m =
    (case consume_bytes pw b of (raw, n) \<Rightarrow>
       if n < 0 then Some (Inl (parse_error pw n))
       else Option.bind (unmarshal_chat pw raw zero_chat) (\<lambda>r.
         case r of Inl e \<Rightarrow> Some (Inl e)
         | Inr msg \<Rightarrow> map_option (\<lambda>b'. Inr (m\<lparr>er_messages := er_messages m @ [msg]\<rparr>, b')) (slice_from b n)))"

definition execute_request_switch :: "protowire \<Rightarrow> execute_request switch" where
  "execute_request_switch pw num typ b m =
    (if num = 1 \<and> typ = bytes_type pw then take_field pw b (consume_string pw b) (\<lambda>v. m\<lparr>er_request_id := v\<rparr>)
     else if num = 2 \<and> typ = bytes_type pw then take_field pw b (consume_string pw b) (\<lambda>v. m\<lparr>er_model_id := v\<rparr>)
     else if num = 3 \<and> typ = bytes_type pw then take_field pw b (consume_string pw b) (\<lambda>v. m\<lparr>er_model_version := v\<rparr>)
     else if num = 4 \<and> typ = varint_type pw then take_field pw b (consume_varint pw b) (\<lambda>v. m\<lparr>er_task_type := ucast v\<rparr>)
     else if num = 5 \<and> typ = bytes_type pw then take_field pw b (consume_string pw b) (\<lambda>v. m\<lparr>er_prompt := v\<rparr>)
     else if num = 6 \<and> typ = bytes_type pw then execute_request_messages_arm pw b m
     else if num = 7 \<and> typ = bytes_type pw then take_field pw b (consume_string pw b) (\<lambda>v. m\<lparr>er_documents := er_documents m @ [v]\<rparr>)
     else if num = 8 \<and> typ = bytes_type pw then take_field pw b (consume_string pw b) (\<lambda>v. m\<lparr>er_query := v\<rparr>)
     else if num = 9 \<and> typ = varint_type pw then take_field pw b (consume_varint pw b) (\<lambda>v. m\<lparr>er_max_tokens := ucast v\<rparr>)
     else if num = 10 \<and> typ = varint_type pw then take_field pw b (consume_varint pw b) (\<lambda>v. m\<lparr>er_deadline_ms := v\<rparr>)
     else skip_field pw num typ b m)"

definition unmarshal_execute_request :: "protowire \<Rightarrow> bytes \<Rightarrow> execute_request \<Rightarrow> execute_request result option" where
  "unmarshal_execute_request pw b m = decode pw (execute_request_switch pw) b m"

subsection \<open>ExecuteResponse\<close>

definition marshal_execute_response :: "protowire \<Rightarrow> execute_response \<Rightarrow> bytes" where
  "marshal_execute_response pw m =
    (let b = [];
         b = put_string pw 1 (ex_request_id m) b;
         b = put_string pw 2 (ex_model_id m) b;
         b = put_string pw 3 (ex_content m) b;
         b = put_doubles pw 4 (ex_embedding m) b;
         b = put_doubles pw 5 (ex_scores m) b;
         b = put_int32 pw 6 (ex_tokens_input m) b;
         b = put_int32 pw 7 (ex_tokens_output m) b;
         b = put_double pw 8 (ex_latency_ms m) b
     in b)"

definition execute_response_switch :: "protowire \<Rightarrow> execute_response switch" where
  "execute_response_switch pw num typ b m =
    (if num = 1 \<and> typ = bytes_type pw then take_field pw b (consume_string pw b) (\<lambda>v. m\<lparr>ex_request_id := v\<rparr>)
     else if num = 2 \<and> typ = bytes_type pw then take_field pw b (consume_string pw b) (\<lambda>v. m\<lparr>ex_model_id := v\<rparr>)
     else if num = 3 \<and> typ = bytes_type pw then take_field pw b (consume_string pw b) (\<lambda>v. m\<lparr>ex_content := v\<rparr>)
     else if num = 4 \<and> typ = bytes_type pw then take_field pw b (consume_bytes pw b) (\<lambda>v. m\<lparr>ex_embedding := unpack_fixed64 pw v\<rparr>)
     else if num = 5 \<and> typ = bytes_type pw then take_field pw b (consume_bytes pw b) (\<lambda>v. m\<lparr>ex_scores := unpack_fixed64 pw v\<rparr>)
     else if num = 6 \<and> typ = varint_type pw then take_field pw b (consume_varint pw b) (\<lambda>v. m\<lparr>ex_tokens_input := ucast v\<rparr>)
     else if num = 7 \<and> typ = varint_type pw then take_field pw b (consume_varint pw b) (\<lambda>v. m\<lparr>ex_tokens_output := ucast v\<rparr>)
     else if num = 8 \<and> typ = fixed64_type pw then take_field pw b (consume_fixed64 pw b) (\<lambda>v. m\<lparr>ex_latency_ms := F64 v\<rparr>)
     else skip_field pw num typ b m)"

definition unmarshal_execute_response :: "protowire \<Rightarrow> bytes \<Rightarrow> execute_response \<Rightarrow> execute_response result option" where
  "unmarshal_execute_response pw b m = decode pw (execute_response_switch pw) b m"

definition zero_execute_response :: execute_response where
  "zero_execute_response = \<lparr>ex_request_id = [], ex_model_id = [], ex_content = [], ex_embedding = [], ex_scores = [], ex_tokens_input = 0, ex_tokens_output = 0, ex_latency_ms = f64_zero\<rparr>"

subsection \<open>StreamChunk\<close>

definition marshal_execute_chunk :: "protowire \<Rightarrow> execute_chunk \<Rightarrow> bytes" where
  "marshal_execute_chunk pw m =
    (let b = [];
         b = put_string pw 1 (ec_request_id m) b;
         b = put_string pw 2 (ec_token m) b;
         b = put_bool pw 3 (ec_done m) b;
         b = put_int32 pw 4 (ec_tokens_out m) b
     in b)"

definition execute_chunk_switch :: "protowire \<Rightarrow> execute_chunk switch" where
  "execute_chunk_switch pw num typ b m =
    (if num = 1 \<and> typ = bytes_type pw then take_field pw b (consume_string pw b) (\<lambda>v. m\<lparr>ec_request_id := v\<rparr>)
     else if num = 2 \<and> typ = bytes_type pw then take_field pw b (consume_string pw b) (\<lambda>v. m\<lparr>ec_token := v\<rparr>)
     else if num = 3 \<and> typ = varint_type pw then take_field pw b (consume_varint pw b) (\<lambda>v. m\<lparr>ec_done := v \<noteq> 0\<rparr>)
     else if num = 4 \<and> typ = varint_type pw then take_field pw b (consume_varint pw b) (\<lambda>v. m\<lparr>ec_tokens_out := ucast v\<rparr>)
     else skip_field pw num typ b m)"

definition unmarshal_execute_chunk :: "protowire \<Rightarrow> bytes \<Rightarrow> execute_chunk \<Rightarrow> execute_chunk result option" where
  "unmarshal_execute_chunk pw b m = decode pw (execute_chunk_switch pw) b m"

definition zero_execute_chunk :: execute_chunk where
  "zero_execute_chunk = \<lparr>ec_request_id = [], ec_token = [], ec_done = False, ec_tokens_out = 0\<rparr>"

subsection \<open>HealthResponse\<close>

definition marshal_health_response :: "protowire \<Rightarrow> health_response \<Rightarrow> bytes" where
  "marshal_health_response pw m =
    (let b = [];
         b = put_string pw 1 (hr_executor_id m) b;
         b = put_string pw 2 (hr_status m) b;
         b = put_strings pw 3 (hr_model_ids m) b;
         b = put_double pw 4 (hr_load_factor m) b;
         b = put_int64 pw 5 (hr_requests_served m) b;
         b = put_double pw 6 (hr_tokens_per_second m) b;
         b = put_double pw 7 (hr_avg_latency_ms m) b
     in b)"

definition health_response_switch :: "protowire \<Rightarrow> health_response switch" where
  "health_response_switch pw num typ b m =
    (if num = 1 \<and> typ = bytes_type pw then take_field pw b (consume_string pw b) (\<lambda>v. m\<lparr>hr_executor_id := v\<rparr>)
     else if num = 2 \<and> typ = bytes_type pw then take_field pw b (consume_string pw b) (\<lambda>v. m\<lparr>hr_status := v\<rparr>)
     else if num = 3 \<and> typ = bytes_type pw then take_field pw b (consume_string pw b) (\<lambda>v. m\<lparr>hr_model_ids := hr_model_ids m @ [v]\<rparr>)
     else if num = 4 \<and> typ = fixed64_type pw then take_field pw b (consume_fixed64 pw b) (\<lambda>v. m\<lparr>hr_load_factor := F64 v\<rparr>)
     else if num = 5 \<and> typ = varint_type pw then take_field pw b (consume_varint pw b) (\<lambda>v. m\<lparr>hr_requests_served := v\<rparr>)
     else if num = 6 \<and> typ = fixed64_type pw then take_field pw b (consume_fixed64 pw b) (\<lambda>v. m\<lparr>hr_tokens_per_second := F64 v\<rparr>)
     else if num = 7 \<and> typ = fixed64_type pw then take_field pw b (consume_fixed64 pw b) (\<lambda>v. m\<lparr>hr_avg_latency_ms := F64 v\<rparr>)
     else skip_field pw num typ b m)"

definition unmarshal_health_response :: "protowire \<Rightarrow> bytes \<Rightarrow> health_response \<Rightarrow> health_response result option" where
  "unmarshal_health_response pw b m = decode pw (health_response_switch pw) b m"

definition zero_health_response :: health_response where
  "zero_health_response = \<lparr>hr_executor_id = [], hr_status = [], hr_model_ids = [], hr_load_factor = f64_zero, hr_requests_served = 0, hr_tokens_per_second = f64_zero, hr_avg_latency_ms = f64_zero\<rparr>"

subsection \<open>SetStatusRequest\<close>

definition marshal_set_status_request :: "protowire \<Rightarrow> set_status_request \<Rightarrow> bytes" where
  "marshal_set_status_request pw m =
    (let b = [];
         b = put_string pw 1 (sq_status m) b;
         b = put_double pw 2 (sq_load_factor m) b
     in b)"

definition set_status_request_switch :: "protowire \<Rightarrow> set_status_request switch" where
  "set_status_request_switch pw num typ b m =
    (if num = 1 \<and> typ = bytes_type pw then take_field pw b (consume_string pw b) (\<lambda>v. m\<lparr>sq_status := v\<rparr>)
     else if num = 2 \<and> typ = fixed64_type pw then take_field pw b (consume_fixed64 pw b) (\<lambda>v. m\<lparr>sq_load_factor := F64 v\<rparr>)
     else skip_field pw num typ b m)"

definition unmarshal_set_status_request :: "protowire \<Rightarrow> bytes \<Rightarrow> set_status_request \<Rightarrow> set_status_request result option" where
  "unmarshal_set_status_request pw b m = decode pw (set_status_request_switch pw) b m"

definition zero_set_status_request :: set_status_request where
  "zero_set_status_request = \<lparr>sq_status = [], sq_load_factor = f64_zero\<rparr>"

subsection \<open>SetStatusResponse\<close>

definition marshal_set_status_response :: "protowire \<Rightarrow> set_status_response \<Rightarrow> bytes" where
  "marshal_set_status_response pw m =
    (let b = [];
         b = put_string pw 1 (sp_status m) b
     in b)"

definition set_status_response_switch :: "protowire \<Rightarrow> set_status_response switch" where
  "set_status_response_switch pw num typ b m =
    (if num = 1 \<and> typ = bytes_type pw then take_field pw b (consume_string pw b) (\<lambda>v. m\<lparr>sp_status := v\<rparr>)
     else skip_field pw num typ b m)"

definition unmarshal_set_status_response :: "protowire \<Rightarrow> bytes \<Rightarrow> set_status_response \<Rightarrow> set_status_response result option" where
  "unmarshal_set_status_response pw b m = decode pw (set_status_response_switch pw) b m"

definition zero_set_status_response :: set_status_response where
  "zero_set_status_response = \<lparr>sp_status = []\<rparr>"

subsection \<open>HealthRequest\<close>

definition marshal_health_request :: "health_request \<Rightarrow> bytes" where
  "marshal_health_request m = []"

definition unmarshal_health_request :: "bytes \<Rightarrow> health_request \<Rightarrow> health_request result option" where
  "unmarshal_health_request b m = Some (Inr m)"

subsection \<open>Round trips\<close>

definition sent_execute_response :: "execute_response \<Rightarrow> execute_response" where
  "sent_execute_response m = m\<lparr>ex_latency_ms := sent_double (ex_latency_ms m)\<rparr>"

definition sent_health_response :: "health_response \<Rightarrow> health_response" where
  "sent_health_response m = m\<lparr>hr_load_factor := sent_double (hr_load_factor m), hr_tokens_per_second := sent_double (hr_tokens_per_second m), hr_avg_latency_ms := sent_double (hr_avg_latency_ms m)\<rparr>"

definition sent_set_status_request :: "set_status_request \<Rightarrow> set_status_request" where
  "sent_set_status_request m = m\<lparr>sq_load_factor := sent_double (sq_load_factor m)\<rparr>"

context wire_format
begin

lemma fold_execute_messages: "fold (\<lambda>x m. m\<lparr>er_messages := er_messages m @ [x]\<rparr>) xs m = m\<lparr>er_messages := er_messages m @ xs\<rparr>"
  by (induction xs arbitrary: m) simp_all

lemma fold_execute_documents: "fold (\<lambda>x m. m\<lparr>er_documents := er_documents m @ [x]\<rparr>) xs m = m\<lparr>er_documents := er_documents m @ xs\<rparr>"
  by (induction xs arbitrary: m) simp_all

lemma fold_model_ids: "fold (\<lambda>x m. m\<lparr>hr_model_ids := hr_model_ids m @ [x]\<rparr>) xs m = m\<lparr>hr_model_ids := hr_model_ids m @ xs\<rparr>"
  by (induction xs arbitrary: m) simp_all

lemma decode_execute_messages:
  assumes "length (concat (map (\<lambda>x. piece (put_bytes pw 6 (marshal_chat pw x))) xs)) < max_slice"
  shows "decode pw (execute_request_switch pw) (concat (map (\<lambda>x. piece (put_bytes pw 6 (marshal_chat pw x))) xs) @ rest) m =
    decode pw (execute_request_switch pw) rest (m\<lparr>er_messages := er_messages m @ xs\<rparr>)"
proof (rule trans [OF decode_concat])
  show "decode pw (execute_request_switch pw) rest (fold (\<lambda>x m. m\<lparr>er_messages := er_messages m @ [x]\<rparr>) xs m) =
      decode pw (execute_request_switch pw) rest (m\<lparr>er_messages := er_messages m @ xs\<rparr>)"
    by (simp add: fold_execute_messages)
next
  fix x rest m
  assume x: "x \<in> set xs"
  have p: "length (piece (put_bytes pw 6 (marshal_chat pw x))) < max_slice"
    using length_concat_piece [OF x, of "\<lambda>x. piece (put_bytes pw 6 (marshal_chat pw x))"] assms by simp
  then have "length (marshal_chat pw x) < max_slice"
    using length_put_bytes [of "marshal_chat pw x" 6] by simp
  then show "decode pw (execute_request_switch pw) (piece (put_bytes pw 6 (marshal_chat pw x)) @ rest) m =
      decode pw (execute_request_switch pw) rest (m\<lparr>er_messages := er_messages m @ [x]\<rparr>)"
    by (intro decode_bytes p)
      (simp_all add: execute_request_switch_def execute_request_messages_arm_def consume_bytes chat_roundtrip)
qed

lemma execute_messages_arm_within: "stays (\<lambda>m. True) b (execute_request_messages_arm pw b m)"
proof -
  obtain v n where v: "consume_bytes pw b = (v, n)" by (cases "consume_bytes pw b")
  obtain r where "unmarshal_chat pw v zero_chat = Some r"
    unfolding unmarshal_chat_def using decode_total [OF chat_progress] by blast
  then show ?thesis
    using bytes_within [of b] by (cases r) (simp_all add: stays_def execute_request_messages_arm_def v slice_from_def)
qed

lemmas execute_request_steps =
  decode_string [where sw = "execute_request_switch pw" and num = 1 and upd = "\<lambda>v m. m\<lparr>er_request_id := v\<rparr>"]
  decode_string [where sw = "execute_request_switch pw" and num = 2 and upd = "\<lambda>v m. m\<lparr>er_model_id := v\<rparr>"]
  decode_string [where sw = "execute_request_switch pw" and num = 3 and upd = "\<lambda>v m. m\<lparr>er_model_version := v\<rparr>"]
  decode_int32 [where sw = "execute_request_switch pw" and num = 4 and upd = "\<lambda>v m. m\<lparr>er_task_type := v\<rparr>"]
  decode_string [where sw = "execute_request_switch pw" and num = 5 and upd = "\<lambda>v m. m\<lparr>er_prompt := v\<rparr>"]
  decode_strings [where sw = "execute_request_switch pw" and num = 7 and add = "\<lambda>v m. m\<lparr>er_documents := er_documents m @ [v]\<rparr>"]
  decode_string [where sw = "execute_request_switch pw" and num = 8 and upd = "\<lambda>v m. m\<lparr>er_query := v\<rparr>"]
  decode_int32 [where sw = "execute_request_switch pw" and num = 9 and upd = "\<lambda>v m. m\<lparr>er_max_tokens := v\<rparr>"]
  decode_int64 [where sw = "execute_request_switch pw" and num = 10 and upd = "\<lambda>v m. m\<lparr>er_deadline_ms := v\<rparr>"]

lemma sent_execute_request_fields:
  assumes "length (marshal_execute_request pw m) < max_slice"
  shows "unmarshal_execute_request pw (marshal_execute_request pw m) zero_execute_request = Some (Inr m)"
  using assms
  unfolding unmarshal_execute_request_def marshal_execute_request_def Let_def zero_execute_request_def foldl_messages
  apply -
  apply (rule decode_end)
  apply (cases m)
  apply (simp add: piece_simps put_strings_simps decode_execute_messages fold_execute_documents execute_request_steps execute_request_switch_def del: append_Nil2)
  done

lemma unmarshal_execute_request_total: "\<exists>r. unmarshal_execute_request pw b m = Some r"
proof -
  have "progress (\<lambda>m. True) (execute_request_switch pw)"
    by (simp add: progress_def execute_request_switch_def field_within execute_messages_arm_within)
  then show ?thesis unfolding unmarshal_execute_request_def by (rule decode_total) simp
qed

lemmas execute_response_steps =
  decode_string [where sw = "execute_response_switch pw" and num = 1 and upd = "\<lambda>v m. m\<lparr>ex_request_id := v\<rparr>"]
  decode_string [where sw = "execute_response_switch pw" and num = 2 and upd = "\<lambda>v m. m\<lparr>ex_model_id := v\<rparr>"]
  decode_string [where sw = "execute_response_switch pw" and num = 3 and upd = "\<lambda>v m. m\<lparr>ex_content := v\<rparr>"]
  decode_doubles [where sw = "execute_response_switch pw" and num = 4 and upd = "\<lambda>v m. m\<lparr>ex_embedding := v\<rparr>"]
  decode_doubles [where sw = "execute_response_switch pw" and num = 5 and upd = "\<lambda>v m. m\<lparr>ex_scores := v\<rparr>"]
  decode_int32 [where sw = "execute_response_switch pw" and num = 6 and upd = "\<lambda>v m. m\<lparr>ex_tokens_input := v\<rparr>"]
  decode_int32 [where sw = "execute_response_switch pw" and num = 7 and upd = "\<lambda>v m. m\<lparr>ex_tokens_output := v\<rparr>"]
  decode_double [where sw = "execute_response_switch pw" and num = 8 and upd = "\<lambda>v m. m\<lparr>ex_latency_ms := v\<rparr>"]

lemma sent_execute_response_fields:
  assumes "length (marshal_execute_response pw m) < max_slice"
  shows "unmarshal_execute_response pw (marshal_execute_response pw m) zero_execute_response = Some (Inr (sent_execute_response m))"
  using assms
  unfolding unmarshal_execute_response_def marshal_execute_response_def Let_def zero_execute_response_def
  apply -
  apply (rule decode_end)
  apply (cases m)
  apply (simp add: piece_simps put_doubles_simps execute_response_steps execute_response_switch_def sent_execute_response_def del: append_Nil2)
  done

lemma unmarshal_execute_response_total: "\<exists>r. unmarshal_execute_response pw b m = Some r"
proof -
  have "progress (\<lambda>m. True) (execute_response_switch pw)"
    by (simp add: progress_def execute_response_switch_def field_within)
  then show ?thesis unfolding unmarshal_execute_response_def by (rule decode_total) simp
qed

lemmas execute_chunk_steps =
  decode_string [where sw = "execute_chunk_switch pw" and num = 1 and upd = "\<lambda>v m. m\<lparr>ec_request_id := v\<rparr>"]
  decode_string [where sw = "execute_chunk_switch pw" and num = 2 and upd = "\<lambda>v m. m\<lparr>ec_token := v\<rparr>"]
  decode_bool [where sw = "execute_chunk_switch pw" and num = 3 and upd = "\<lambda>v m. m\<lparr>ec_done := v\<rparr>"]
  decode_int32 [where sw = "execute_chunk_switch pw" and num = 4 and upd = "\<lambda>v m. m\<lparr>ec_tokens_out := v\<rparr>"]

lemma sent_execute_chunk_fields:
  assumes "length (marshal_execute_chunk pw m) < max_slice"
  shows "unmarshal_execute_chunk pw (marshal_execute_chunk pw m) zero_execute_chunk = Some (Inr m)"
  using assms
  unfolding unmarshal_execute_chunk_def marshal_execute_chunk_def Let_def zero_execute_chunk_def
  apply -
  apply (rule decode_end)
  apply (cases m)
  apply (simp add: piece_simps execute_chunk_steps execute_chunk_switch_def del: append_Nil2)
  done

lemma unmarshal_execute_chunk_total: "\<exists>r. unmarshal_execute_chunk pw b m = Some r"
proof -
  have "progress (\<lambda>m. True) (execute_chunk_switch pw)"
    by (simp add: progress_def execute_chunk_switch_def field_within)
  then show ?thesis unfolding unmarshal_execute_chunk_def by (rule decode_total) simp
qed

lemmas health_response_steps =
  decode_string [where sw = "health_response_switch pw" and num = 1 and upd = "\<lambda>v m. m\<lparr>hr_executor_id := v\<rparr>"]
  decode_string [where sw = "health_response_switch pw" and num = 2 and upd = "\<lambda>v m. m\<lparr>hr_status := v\<rparr>"]
  decode_strings [where sw = "health_response_switch pw" and num = 3 and add = "\<lambda>v m. m\<lparr>hr_model_ids := hr_model_ids m @ [v]\<rparr>"]
  decode_double [where sw = "health_response_switch pw" and num = 4 and upd = "\<lambda>v m. m\<lparr>hr_load_factor := v\<rparr>"]
  decode_int64 [where sw = "health_response_switch pw" and num = 5 and upd = "\<lambda>v m. m\<lparr>hr_requests_served := v\<rparr>"]
  decode_double [where sw = "health_response_switch pw" and num = 6 and upd = "\<lambda>v m. m\<lparr>hr_tokens_per_second := v\<rparr>"]
  decode_double [where sw = "health_response_switch pw" and num = 7 and upd = "\<lambda>v m. m\<lparr>hr_avg_latency_ms := v\<rparr>"]

lemma sent_health_response_fields:
  assumes "length (marshal_health_response pw m) < max_slice"
  shows "unmarshal_health_response pw (marshal_health_response pw m) zero_health_response = Some (Inr (sent_health_response m))"
  using assms
  unfolding unmarshal_health_response_def marshal_health_response_def Let_def zero_health_response_def
  apply -
  apply (rule decode_end)
  apply (cases m)
  apply (simp add: piece_simps put_strings_simps fold_model_ids health_response_steps health_response_switch_def sent_health_response_def del: append_Nil2)
  done

lemma unmarshal_health_response_total: "\<exists>r. unmarshal_health_response pw b m = Some r"
proof -
  have "progress (\<lambda>m. True) (health_response_switch pw)"
    by (simp add: progress_def health_response_switch_def field_within)
  then show ?thesis unfolding unmarshal_health_response_def by (rule decode_total) simp
qed

lemmas set_status_request_steps =
  decode_string [where sw = "set_status_request_switch pw" and num = 1 and upd = "\<lambda>v m. m\<lparr>sq_status := v\<rparr>"]
  decode_double [where sw = "set_status_request_switch pw" and num = 2 and upd = "\<lambda>v m. m\<lparr>sq_load_factor := v\<rparr>"]

lemma sent_set_status_request_fields:
  assumes "length (marshal_set_status_request pw m) < max_slice"
  shows "unmarshal_set_status_request pw (marshal_set_status_request pw m) zero_set_status_request = Some (Inr (sent_set_status_request m))"
  using assms
  unfolding unmarshal_set_status_request_def marshal_set_status_request_def Let_def zero_set_status_request_def
  apply -
  apply (rule decode_end)
  apply (cases m)
  apply (simp add: piece_simps set_status_request_steps set_status_request_switch_def sent_set_status_request_def del: append_Nil2)
  done

lemma unmarshal_set_status_request_total: "\<exists>r. unmarshal_set_status_request pw b m = Some r"
proof -
  have "progress (\<lambda>m. True) (set_status_request_switch pw)"
    by (simp add: progress_def set_status_request_switch_def field_within)
  then show ?thesis unfolding unmarshal_set_status_request_def by (rule decode_total) simp
qed

lemmas set_status_response_steps =
  decode_string [where sw = "set_status_response_switch pw" and num = 1 and upd = "\<lambda>v m. m\<lparr>sp_status := v\<rparr>"]

lemma sent_set_status_response_fields:
  assumes "length (marshal_set_status_response pw m) < max_slice"
  shows "unmarshal_set_status_response pw (marshal_set_status_response pw m) zero_set_status_response = Some (Inr m)"
  using assms
  unfolding unmarshal_set_status_response_def marshal_set_status_response_def Let_def zero_set_status_response_def
  apply -
  apply (rule decode_end)
  apply (cases m)
  apply (simp add: piece_simps set_status_response_steps set_status_response_switch_def del: append_Nil2)
  done

lemma unmarshal_set_status_response_total: "\<exists>r. unmarshal_set_status_response pw b m = Some r"
proof -
  have "progress (\<lambda>m. True) (set_status_response_switch pw)"
    by (simp add: progress_def set_status_response_switch_def field_within)
  then show ?thesis unfolding unmarshal_set_status_response_def by (rule decode_total) simp
qed

end

end
