(* ===== verification/Grpc.thy ===== *)
theory Grpc
  imports Middleware ExecutionWire
begin

section \<open>The gRPC entry points of the services\<close>

text \<open>
  The unary handlers that \<open>inference.go\<close> and \<open>execution.go\<close> register for their methods, and
  the servers that implement none of them. \<open>dec\<close> is what decoding the request into a fresh
  message gave, \<open>i\<close> the interceptor of the server, if it has one. The code has a copy of
  the handler per method. The stubs of the clients and the handlers of the streams follow, over
  what gRPC offers to them, which is an argument.
\<close>

definition inference_service_name :: string where
  "inference_service_name = ''inference.v1.InferenceService''"

definition executor_service_name :: string where
  "executor_service_name = ''execution.v1.ExecutorService''"

definition inference_infer_handler ::
  "(inference_request, 's, inference_response) unary_handler \<Rightarrow> inference_request result \<Rightarrow>
   (inference_request, 's, inference_response) interceptor option \<Rightarrow> call_ctx \<Rightarrow> 's grpc_server \<Rightarrow>
   's grpc_server \<times> inference_response outcome" where
  "inference_infer_handler infer dec i ctx s =
    (case dec of Inl e \<Rightarrow> (s, Done (Inl e))
     | Inr req \<Rightarrow> (case i of None \<Rightarrow> infer ctx req s
         | Some ic \<Rightarrow> ic (''/'' @ inference_service_name @ ''/Infer'') infer ctx req s))"

definition executor_execute_handler ::
  "(execute_request, 's, execute_response) unary_handler \<Rightarrow> execute_request result \<Rightarrow>
   (execute_request, 's, execute_response) interceptor option \<Rightarrow> call_ctx \<Rightarrow> 's grpc_server \<Rightarrow>
   's grpc_server \<times> execute_response outcome" where
  "executor_execute_handler execute dec i ctx s =
    (case dec of Inl e \<Rightarrow> (s, Done (Inl e))
     | Inr req \<Rightarrow> (case i of None \<Rightarrow> execute ctx req s
         | Some ic \<Rightarrow> ic (''/'' @ executor_service_name @ ''/Execute'') execute ctx req s))"

definition executor_health_handler ::
  "(health_request, 's, health_response) unary_handler \<Rightarrow> health_request result \<Rightarrow>
   (health_request, 's, health_response) interceptor option \<Rightarrow> call_ctx \<Rightarrow> 's grpc_server \<Rightarrow>
   's grpc_server \<times> health_response outcome" where
  "executor_health_handler health dec i ctx s =
    (case dec of Inl e \<Rightarrow> (s, Done (Inl e))
     | Inr req \<Rightarrow> (case i of None \<Rightarrow> health ctx req s
         | Some ic \<Rightarrow> ic (''/'' @ executor_service_name @ ''/Health'') health ctx req s))"

definition executor_set_status_handler ::
  "(set_status_request, 's, set_status_response) unary_handler \<Rightarrow> set_status_request result \<Rightarrow>
   (set_status_request, 's, set_status_response) interceptor option \<Rightarrow> call_ctx \<Rightarrow> 's grpc_server \<Rightarrow>
   's grpc_server \<times> set_status_response outcome" where
  "executor_set_status_handler set_status dec i ctx s =
    (case dec of Inl e \<Rightarrow> (s, Done (Inl e))
     | Inr req \<Rightarrow> (case i of None \<Rightarrow> set_status ctx req s
         | Some ic \<Rightarrow> ic (''/'' @ executor_service_name @ ''/SetStatus'') set_status ctx req s))"

subsection \<open>Services\<close>

text \<open>The descriptors: the type that \<open>HandlerType\<close> points to, the methods by name, and the streams with the side that
  streams.\<close>

datatype handler_type = InterfacePtr string | StructPtr string

record service_desc =
  sd_name :: string
  sd_handler_type :: handler_type
  sd_methods :: "string list"
  sd_server_streams :: "string list"

definition inference_service_desc :: service_desc where
  "inference_service_desc = \<lparr>sd_name = inference_service_name, sd_handler_type = InterfacePtr ''InferenceServiceServer'',
     sd_methods = [''Infer''], sd_server_streams = [''InferStream'']\<rparr>"

definition executor_service_desc :: service_desc where
  "executor_service_desc = \<lparr>sd_name = executor_service_name, sd_handler_type = InterfacePtr ''ExecutorServiceServer'',
     sd_methods = [''Execute'', ''Health'', ''SetStatus''],
     sd_server_streams = [''ExecuteStream'']\<rparr>"

text \<open>The full names under which the methods and streams of a service are called.\<close>

definition service_paths :: "service_desc \<Rightarrow> string list" where
  "service_paths d = map (\<lambda>m. ''/'' @ sd_name d @ ''/'' @ m) (sd_methods d @ sd_server_streams d)"

subsection \<open>Streams on the server\<close>

text \<open>
  What gRPC gives to the handler of a stream of a world \<open>'w\<close>: \<open>RecvMsg\<close> and \<open>SendMsg\<close>. The handler
  reads the one request and passes \<open>SendMsg\<close> on as \<open>Send\<close>.
\<close>

type_synonym ('m, 'w) send_msg = "'m \<Rightarrow> 'w \<Rightarrow> 'w \<times> err option"
type_synonym ('m, 'w) recv_msg = "'w \<Rightarrow> 'w \<times> 'm result"

definition inference_stream_send :: "(stream_chunk, 'w) send_msg \<Rightarrow> (stream_chunk, 'w) send_msg" where
  "inference_stream_send send_msg m w = send_msg m w"

definition inference_infer_stream_handler ::
  "(inference_request \<Rightarrow> (stream_chunk, 'w) send_msg \<Rightarrow> 'w \<Rightarrow> 'w \<times> err option) \<Rightarrow> (inference_request, 'w) recv_msg \<Rightarrow>
   (stream_chunk, 'w) send_msg \<Rightarrow> 'w \<Rightarrow> 'w \<times> err option" where
  "inference_infer_stream_handler infer_stream recv send_msg w =
    (case recv w of
       (w, Inl e) \<Rightarrow> (w, Some e)
     | (w, Inr m) \<Rightarrow> infer_stream m (inference_stream_send send_msg) w)"

definition executor_stream_send :: "(execute_chunk, 'w) send_msg \<Rightarrow> (execute_chunk, 'w) send_msg" where
  "executor_stream_send send_msg m w = send_msg m w"

definition executor_execute_stream_handler ::
  "(execute_request \<Rightarrow> (execute_chunk, 'w) send_msg \<Rightarrow> 'w \<Rightarrow> 'w \<times> err option) \<Rightarrow> (execute_request, 'w) recv_msg \<Rightarrow>
   (execute_chunk, 'w) send_msg \<Rightarrow> 'w \<Rightarrow> 'w \<times> err option" where
  "executor_execute_stream_handler execute_stream recv send_msg w =
    (case recv w of
       (w, Inl e) \<Rightarrow> (w, Some e)
     | (w, Inr m) \<Rightarrow> execute_stream m (executor_stream_send send_msg) w)"

subsection \<open>Clients\<close>

text \<open>
  A connection of a world \<open>'w\<close> invokes a method on a request; a stream is opened under a handle
  \<open>'h\<close>, on which messages are sent and received.
\<close>

type_synonym ('q, 'a, 'w) unary_call = "string \<Rightarrow> 'q \<Rightarrow> 'w \<Rightarrow> 'w \<times> 'a result"

record ('q, 'a, 'h, 'w) stream_conn =
  co_new_stream :: "string \<Rightarrow> 'w \<Rightarrow> 'w \<times> 'h result"
  co_send_msg :: "'h \<Rightarrow> ('q, 'w) send_msg"
  co_close_send :: "'h \<Rightarrow> 'w \<Rightarrow> 'w \<times> err option"
  co_recv_msg :: "'h \<Rightarrow> ('a, 'w) recv_msg"

definition inference_client_infer :: "(inference_request, inference_response, 'w) unary_call \<Rightarrow> inference_request \<Rightarrow> 'w \<Rightarrow> 'w \<times> inference_response result" where
  "inference_client_infer invoke req = invoke (''/'' @ inference_service_name @ ''/Infer'') req"

definition inference_client_infer_stream ::
  "(inference_request, stream_chunk, 'h, 'w) stream_conn \<Rightarrow> inference_request \<Rightarrow> 'w \<Rightarrow> 'w \<times> 'h result" where
  "inference_client_infer_stream cc req w =
    (case co_new_stream cc (''/'' @ inference_service_name @ ''/InferStream'') w of
       (w, Inl e) \<Rightarrow> (w, Inl e)
     | (w, Inr h) \<Rightarrow> (case co_send_msg cc h req w of
         (w, Some e) \<Rightarrow> (w, Inl e)
       | (w, None) \<Rightarrow> (case co_close_send cc h w of
           (w, Some e) \<Rightarrow> (w, Inl e)
         | (w, None) \<Rightarrow> (w, Inr h))))"

definition inference_client_recv :: "(inference_request, stream_chunk, 'h, 'w) stream_conn \<Rightarrow> 'h \<Rightarrow> 'w \<Rightarrow> 'w \<times> stream_chunk result" where
  "inference_client_recv cc h w =
    (case co_recv_msg cc h w of (w, Inl e) \<Rightarrow> (w, Inl e) | (w, Inr m) \<Rightarrow> (w, Inr m))"

definition executor_client_execute :: "(execute_request, execute_response, 'w) unary_call \<Rightarrow> execute_request \<Rightarrow> 'w \<Rightarrow> 'w \<times> execute_response result" where
  "executor_client_execute invoke req = invoke (''/'' @ executor_service_name @ ''/Execute'') req"

definition executor_client_health :: "(health_request, health_response, 'w) unary_call \<Rightarrow> health_request \<Rightarrow> 'w \<Rightarrow> 'w \<times> health_response result" where
  "executor_client_health invoke req = invoke (''/'' @ executor_service_name @ ''/Health'') req"

definition executor_client_set_status ::
  "(set_status_request, set_status_response, 'w) unary_call \<Rightarrow> set_status_request \<Rightarrow> 'w \<Rightarrow> 'w \<times> set_status_response result" where
  "executor_client_set_status invoke req = invoke (''/'' @ executor_service_name @ ''/SetStatus'') req"

definition executor_client_execute_stream ::
  "(execute_request, execute_chunk, 'h, 'w) stream_conn \<Rightarrow> execute_request \<Rightarrow> 'w \<Rightarrow> 'w \<times> 'h result" where
  "executor_client_execute_stream cc req w =
    (case co_new_stream cc (''/'' @ executor_service_name @ ''/ExecuteStream'') w of
       (w, Inl e) \<Rightarrow> (w, Inl e)
     | (w, Inr h) \<Rightarrow> (case co_send_msg cc h req w of
         (w, Some e) \<Rightarrow> (w, Inl e)
       | (w, None) \<Rightarrow> (case co_close_send cc h w of
           (w, Some e) \<Rightarrow> (w, Inl e)
         | (w, None) \<Rightarrow> (w, Inr h))))"

definition executor_client_recv :: "(execute_request, execute_chunk, 'h, 'w) stream_conn \<Rightarrow> 'h \<Rightarrow> 'w \<Rightarrow> 'w \<times> execute_chunk result" where
  "executor_client_recv cc h w =
    (case co_recv_msg cc h w of (w, Inl e) \<Rightarrow> (w, Inl e) | (w, Inr m) \<Rightarrow> (w, Inr m))"

text \<open>The clients call the methods under the names that the services register.\<close>

lemma client_paths:
  "set (service_paths inference_service_desc) =
     {''/'' @ inference_service_name @ ''/Infer'', ''/'' @ inference_service_name @ ''/InferStream''}"
  "set (service_paths executor_service_desc) = {''/'' @ executor_service_name @ ''/Execute'', ''/'' @ executor_service_name @ ''/Health'',
     ''/'' @ executor_service_name @ ''/SetStatus'', ''/'' @ executor_service_name @ ''/ExecuteStream''}"
  by (auto simp: service_paths_def inference_service_desc_def executor_service_desc_def)

subsection \<open>Servers without an implementation\<close>

definition unimplemented_infer :: "(inference_request, 's, inference_response) unary_handler" where
  "unimplemented_infer ctx req s = (s, Done (Inl (Status Unimplemented ''Infer not implemented'')))"

definition unimplemented_infer_stream :: err where
  "unimplemented_infer_stream = Status Unimplemented ''InferStream not implemented''"

definition unimplemented_execute :: "(execute_request, 's, execute_response) unary_handler" where
  "unimplemented_execute ctx req s = (s, Done (Inl (Status Unimplemented [])))"

definition unimplemented_execute_stream :: err where
  "unimplemented_execute_stream = Status Unimplemented []"

definition unimplemented_health :: "(health_request, 's, health_response) unary_handler" where
  "unimplemented_health ctx req s = (s, Done (Inl (Status Unimplemented [])))"

definition unimplemented_set_status :: "(set_status_request, 's, set_status_response) unary_handler" where
  "unimplemented_set_status ctx req s = (s, Done (Inl (Status Unimplemented [])))"

text \<open>A request that does not decode never reaches a server, nor its interceptors.\<close>

lemma undecoded_requests:
  "inference_infer_handler f (Inl e) i ctx s = (s, Done (Inl e))"
  "executor_execute_handler g (Inl e) j ctx s = (s, Done (Inl e))"
  by (simp_all add: inference_infer_handler_def executor_execute_handler_def)

end
