(* ===== verification/Shares.thy ===== *)
theory Shares
  imports Prelude UnitInterval
begin

section \<open>Canary shares\<close>

text \<open>
  The control plane's manager and the router both turn a list of rollouts into the weights of
  their models: each enabled rollout writes its base's share and then its canary's, a later one
  over an earlier one. The contract is the two equations of that loop.
\<close>

lemma one_minus_unit:
  assumes "f64_unit x"
  shows "f64_unit (f64_sub f64_one x)"
proof -
  have x: "f64_finite x" "0 \<le> f64_val x" "f64_val x \<le> 1" using assms by (simp_all add: f64_unit_val)
  have "0 \<le> f64_key x" using assms by (simp add: f64_unit_def)
  moreover have "0 \<le> f64_key (f64_sub f64_one x)"
    using rnd_key_ge [of f64_zero "1 - f64_val x"] x by (simp add: f64_sub_props(1))
  ultimately show ?thesis using f64_one_minus [OF x(1)] by (simp add: f64_unit_def)
qed

locale shares =
  fixes weights :: "'c list \<Rightarrow> 'm \<Rightarrow> f64 option"
    and enabled :: "'c \<Rightarrow> bool"
    and base canary :: "'c \<Rightarrow> 'm"
    and pct :: "'c \<Rightarrow> f64"
  assumes weights_Nil: "weights [] = Map.empty"
    and weights_snoc: "weights (cs @ [c]) =
      (if enabled c then (weights cs)(base c \<mapsto> f64_sub f64_one (pct c), canary c \<mapsto> pct c) else weights cs)"
begin

lemma weight_unit:
  assumes "\<forall>c \<in> set cs. f64_unit (pct c)" "weights cs m = Some w"
  shows "f64_unit w"
  using assms
  by (induction cs arbitrary: w rule: rev_induct)
    (auto simp: weights_Nil weights_snoc map_upd_Some_iff one_minus_unit split: if_splits)

lemma weight_owner:
  assumes "weights cs m = Some w"
  shows "\<exists>c \<in> set cs. enabled c \<and> m \<in> {base c, canary c}"
  using assms
  by (induction cs arbitrary: w rule: rev_induct)
    (auto simp: weights_Nil weights_snoc map_upd_Some_iff split: if_splits)

lemma no_weight: "\<forall>c \<in> set cs. m \<in> {base c, canary c} \<longrightarrow> \<not> enabled c \<Longrightarrow> weights cs m = None"
  using weight_owner [of cs m] by (cases "weights cs m") auto

lemma weight_alone:
  assumes "c \<in> set cs" "enabled c" "base c \<noteq> canary c"
    and "\<forall>d \<in> set cs. enabled d \<and> d \<noteq> c \<longrightarrow> {base d, canary d} \<inter> {base c, canary c} = {}"
  shows "weights cs (base c) = Some (f64_sub f64_one (pct c)) \<and> weights cs (canary c) = Some (pct c)"
  using assms by (induction cs rule: rev_induct) (auto simp: weights_snoc split: if_splits)

lemma weights_only_enabled: "weights (filter enabled cs) = weights cs"
  by (induction cs rule: rev_induct) (simp_all add: weights_snoc fun_upd_def)

end

end
