(* ===== verification/Router.thy ===== *)
theory Router
  imports Repo Middleware Grpc Shares
begin

section \<open>The router\<close>

text \<open>
  \<open>services/router/cmd/main.go\<close>: the handler that routes a request to a model, over the store,
  the scorer, the breakers, the rate limiter, the policy cache and the pool of executor
  connections. What comes from outside is a record of arguments: the clock at each
  \<open>time.Now\<close>, the trace id, the outcomes of the statements, of the dial and of the
  executor's \<open>Execute\<close>. The scorer reads the server's health tracker.
\<close>

subsection \<open>Canaries and connections\<close>

text \<open>\<open>canaryState\<close>: the configurations in the order they were loaded.\<close>

type_synonym canary_state = "repo_rollout list"

definition canary_reload :: "canary_state \<Rightarrow> repo_rollout list \<Rightarrow> canary_state" where
  "canary_reload c cfgs = cfgs"

definition canary_weights :: "canary_state \<Rightarrow> string \<rightharpoonup> f64" where
  "canary_weights c =
    foldl (\<lambda>weights cfg.
      if \<not> cf_enabled cfg then weights
      else weights(cf_base cfg \<mapsto> f64_sub f64_one (cf_pct cfg), cf_canary cfg \<mapsto> cf_pct cfg)) Map.empty c"

text \<open>\<open>execPool\<close>, with connections of type \<open>'c\<close>; \<open>dial\<close> is what \<open>grpc.NewClient\<close> gives.\<close>

type_synonym 'c exec_pool = "string \<rightharpoonup> 'c"

definition new_exec_pool :: "'c exec_pool" where
  "new_exec_pool = Map.empty"

definition pool_client :: "'c exec_pool \<Rightarrow> string \<Rightarrow> 'c result \<Rightarrow> 'c exec_pool \<times> 'c result" where
  "pool_client p addr dial =
    (case p addr of
       Some c \<Rightarrow> (p, Inr c)
     | None \<Rightarrow> (case dial of
         Inl e \<Rightarrow> (p, Inl (Plain (''dial executor '' @ addr @ '': '' @ err_text e)))
       | Inr conn \<Rightarrow> (p(addr \<mapsto> conn), Inr conn)))"

subsection \<open>The server\<close>

record router_metrics =
  xm_routed :: int64
  xm_fallbacks :: int64
  xm_cb_blocked :: int64
  xm_canary :: int64
  xm_cache_hits :: int64
  xm_errors :: int64

record 'c router_server =
  xs_store :: repo_store
  xs_health :: health_tracker
  xs_breakers :: breakers
  xs_limiter :: rate_limiter
  xs_policies :: policy_store
  xs_canary :: canary_state
  xs_pool :: "'c exec_pool"
  xs_metrics :: router_metrics
  xs_models :: "model_record list"

definition router_scorer :: "'c router_server \<Rightarrow> scorer" where
  "router_scorer s = new_scorer (xs_health s) None"

text \<open>\<open>NewRouterServer\<close>; \<open>None\<close> when \<open>LoadModels\<close> does not return. An error of \<open>LoadRollouts\<close> is
  ignored and gives no configuration.\<close>

definition new_router_server ::
  "nat \<Rightarrow> repo_store \<Rightarrow> err option \<Rightarrow> (string \<Rightarrow> bool) \<Rightarrow> rollout_scan \<Rightarrow> 'c router_server result option" where
  "new_router_server conns store models_fail tasks_work rollouts_fail =
    map_option (\<lambda>r. case r of
        Inl e \<Rightarrow> Inl (Plain (''load models: '' @ err_text e))
      | Inr models \<Rightarrow>
          let rollouts = (case load_rollouts store rollouts_fail of Inl e \<Rightarrow> [] | Inr cfgs \<Rightarrow> cfgs)
          in Inr \<lparr>xs_store = store, xs_health = new_health_tracker, xs_breakers = new_breakers, xs_limiter = new_rate_limiter,
              xs_policies = new_policy_store, xs_canary = canary_reload [] rollouts, xs_pool = new_exec_pool,
              xs_metrics = \<lparr>xm_routed = 0, xm_fallbacks = 0, xm_cb_blocked = 0, xm_canary = 0, xm_cache_hits = 0, xm_errors = 0\<rparr>,
              xs_models = models\<rparr>)
      (load_models conns store models_fail tasks_work)"

text \<open>One tick of \<open>reloadLoop\<close>.\<close>

definition reload_tick ::
  "nat \<Rightarrow> err option \<Rightarrow> (string \<Rightarrow> bool) \<Rightarrow> rollout_scan \<Rightarrow> 'c router_server \<Rightarrow> 'c router_server option" where
  "reload_tick conns models_fail tasks_work rollouts_fail s =
    map_option (\<lambda>r.
      let s = (case r of Inl e \<Rightarrow> s | Inr models \<Rightarrow> s\<lparr>xs_models := models\<rparr>)
      in (case load_rollouts (xs_store s) rollouts_fail of
            Inl e \<Rightarrow> s | Inr rollouts \<Rightarrow> s\<lparr>xs_canary := canary_reload (xs_canary s) rollouts\<rparr>))
      (load_models conns (xs_store s) models_fail tasks_work)"

subsection \<open>Routing\<close>

record 'c route_env =
  xe_start :: time
  xe_trace_id :: string
  xe_policy_now :: time
  xe_policy_stored :: time
  xe_limiter_now :: time
  xe_breaker_now :: "string \<Rightarrow> time"
  xe_outcome_now :: time
  xe_end :: time
  xe_policy_fails :: "err option"
  xe_unmarshal :: "string \<Rightarrow> string list option"
  xe_dial :: "'c result"
  xe_execute :: "'c \<Rightarrow> execute_request \<Rightarrow> execute_response result"
  xe_created_at :: string
  xe_log_works :: bool

definition route_tenant :: "inference_request \<Rightarrow> string" where
  "route_tenant req = (if ir_tenant_id req = [] then ''tenant-default'' else ir_tenant_id req)"

text \<open>The tenant's policy, through the cache; a failing store gives the default policy.\<close>

definition tenant_policy_of :: "'c router_server \<Rightarrow> 'c route_env \<Rightarrow> string \<Rightarrow> 'c router_server \<times> tenant_policy" where
  "tenant_policy_of s env tenant =
    (case policy_get (xs_policies s) tenant (xe_policy_now env) of
       Some p \<Rightarrow> (s, p)
     | None \<Rightarrow>
         let p = (case load_tenant_policy (xe_unmarshal env) (xs_store s) (xe_policy_fails env) tenant of
                    Inl e \<Rightarrow> default_policy tenant | Inr p \<Rightarrow> p)
         in (s\<lparr>xs_policies := policy_set (xs_policies s) p (xe_policy_stored env)\<rparr>, p))"

definition route_prompt_len :: "inference_request \<Rightarrow> nat" where
  "route_prompt_len req = foldl (\<lambda>n m. n + length (cm_content m)) (length (ir_prompt req)) (ir_messages req)"

definition route_scoring_request :: "'c router_server \<Rightarrow> tenant_policy \<Rightarrow> inference_request \<Rightarrow> scoring_request" where
  "route_scoring_request s p req = \<lparr>sq_task = task_string (ir_task_type req), sq_cost_budget = ir_cost_budget req,
     sq_latency_target_ms = ir_latency_target_ms req, sq_prompt_len = route_prompt_len req,
     sq_tenant_mode = tp_routing_mode p, sq_allowed_models = tp_allowed_models p,
     sq_rollout_weights = canary_weights (xs_canary s)\<rparr>"

text \<open>The models whose breakers let the request through, and the breakers and counter after.\<close>

fun route_candidates :: "(string \<Rightarrow> time) \<Rightarrow> 'c router_server \<Rightarrow> model_record list \<Rightarrow> 'c router_server \<times> model_record list" where
  "route_candidates now s [] = (s, [])"
| "route_candidates now s (m # ms) =
     (case breaker_allow (xs_breakers s) (mr_model_id m) (now (mr_model_id m)) of (brs, ok) \<Rightarrow>
        let s = s\<lparr>xs_breakers := brs\<rparr>
        in if ok then (case route_candidates now s ms of (s, cs) \<Rightarrow> (s, m # cs))
           else route_candidates now
             (s\<lparr>xs_metrics := (xs_metrics s)\<lparr>xm_cb_blocked := xm_cb_blocked (xs_metrics s) + 1\<rparr>\<rparr>) ms)"

definition count_route_error :: "'c router_server \<Rightarrow> 'c router_server" where
  "count_route_error s = s\<lparr>xs_metrics := (xs_metrics s)\<lparr>xm_errors := xm_errors (xs_metrics s) + 1\<rparr>\<rparr>"

text \<open>What both failures of the executor do.\<close>

definition route_failure :: "'c router_server \<Rightarrow> string \<Rightarrow> time \<Rightarrow> 'c router_server" where
  "route_failure s mid now =
    count_route_error (s\<lparr>xs_breakers := breaker_failure (xs_breakers s) mid now, xs_health := record_failure (xs_health s) mid now\<rparr>)"

definition weight_or_zero :: "(string \<rightharpoonup> f64) \<Rightarrow> string \<Rightarrow> f64" where
  "weight_or_zero w mid = (case w mid of None \<Rightarrow> f64_zero | Some x \<Rightarrow> x)"

definition route_execute_request :: "inference_request \<Rightarrow> candidate_score \<Rightarrow> execute_request" where
  "route_execute_request req primary = zero_execute_request\<lparr>er_request_id := ir_request_id req, er_model_id := cs_model_id primary,
     er_model_version := cs_version primary, er_task_type := ir_task_type req, er_prompt := ir_prompt req,
     er_messages := ir_messages req, er_documents := ir_documents req, er_query := ir_query req,
     er_max_tokens := ir_max_tokens req\<rparr>"

definition tier_enum :: "string \<Rightarrow> model_tier" where
  "tier_enum _ = TierSmall"

definition route_cost :: "model_record list \<Rightarrow> string \<Rightarrow> int32 \<Rightarrow> f64" where
  "route_cost models mid tokens =
    (case find (\<lambda>m. mr_model_id m = mid) models of
       None \<Rightarrow> f64_zero
     | Some m \<Rightarrow> f64_mul (f64_div (f64_of_int (sint tokens)) (f64_of_int 1000)) (mr_cost_per_1k m))"

definition route_response ::
  "'c route_env \<Rightarrow> inference_request \<Rightarrow> candidate_score \<Rightarrow> execute_response \<Rightarrow> f64 \<Rightarrow> f64 \<Rightarrow> bool \<Rightarrow> bool \<Rightarrow> inference_response" where
  "route_response env req primary er latency_ms cost is_fallback is_canary =
    zero_response\<lparr>rs_request_id := ir_request_id req, rs_trace_id := xe_trace_id env,
      rs_task_type := ir_task_type req, rs_model_id := ex_model_id er,
      rs_model_tier := tier_enum (cs_version primary), rs_content := ex_content er,
      rs_embedding := ex_embedding er, rs_scores := ex_scores er, rs_tokens_input := ex_tokens_input er,
      rs_tokens_output := ex_tokens_output er, rs_latency_ms := latency_ms,
      rs_fallback_used := is_fallback, rs_is_canary := is_canary, rs_cost_usd := cost,
      rs_executor_id := cs_executor_addr primary\<rparr>"

definition route_log_entry ::
  "'c route_env \<Rightarrow> inference_request \<Rightarrow> string \<Rightarrow> tenant_policy \<Rightarrow> execute_response \<Rightarrow> f64 \<Rightarrow> f64 \<Rightarrow> bool \<Rightarrow> bool \<Rightarrow> log_entry" where
  "route_log_entry env req tenant p er latency_ms cost is_fallback is_canary =
    \<lparr>le_request_id = ir_request_id req, le_trace_id = xe_trace_id env, le_tenant_id = tenant,
     le_task_type = task_string (ir_task_type req), le_model_id = ex_model_id er,
     le_tokens_input = ex_tokens_input er, le_tokens_output = ex_tokens_output er,
     le_latency_ms = latency_ms, le_queue_wait_ms = f64_zero, le_cost_usd = cost, le_cached = False,
     le_fallback_used = is_fallback, le_is_canary = is_canary, le_routing_mode = tp_routing_mode p\<rparr>"

definition count_routed :: "bool \<Rightarrow> bool \<Rightarrow> router_metrics \<Rightarrow> router_metrics" where
  "count_routed is_canary is_fallback m =
    (let m = m\<lparr>xm_routed := xm_routed m + 1\<rparr>;
         m = (if is_canary then m\<lparr>xm_canary := xm_canary m + 1\<rparr> else m)
     in if is_fallback then m\<lparr>xm_fallbacks := xm_fallbacks m + 1\<rparr> else m)"

text \<open>The part of \<open>Route\<close> after the ranking: dispatch to the first candidate, and the bookkeeping.
  A panic of the health tracker keeps the breaker's update, which comes first.\<close>

definition route_dispatch ::
  "'c router_server \<Rightarrow> 'c route_env \<Rightarrow> string \<Rightarrow> tenant_policy \<Rightarrow> scoring_request \<Rightarrow> inference_request \<Rightarrow>
   candidate_score list \<Rightarrow> 'c router_server \<times> inference_response outcome" where
  "route_dispatch s env tenant p sreq req ranked =
    (let primary = hd ranked;
         is_fallback = (length ranked > 0 \<and> primary \<noteq> hd ranked);
         w = weight_or_zero (sq_rollout_weights sreq) (cs_model_id primary);
         is_canary = (f64_lt f64_zero w \<and> f64_lt w f64_one)
     in case pool_client (xs_pool s) (cs_executor_addr primary) (xe_dial env) of
       (pool, Inl e) \<Rightarrow>
         (route_failure (s\<lparr>xs_pool := pool\<rparr>) (cs_model_id primary) (xe_outcome_now env),
          Done (Inl (Status Unavailable (''executor dial failed: '' @ err_text e))))
     | (pool, Inr c) \<Rightarrow>
         let s = s\<lparr>xs_pool := pool\<rparr>
         in (case xe_execute env c (route_execute_request req primary) of
           Inl e \<Rightarrow>
             (route_failure s (cs_model_id primary) (xe_outcome_now env),
              Done (Inl (Status Internal (''executor error: '' @ err_text e))))
         | Inr er \<Rightarrow>
             let latency_ms = f64_of_int (to_millis (time_sub (xe_end env) (xe_start env)));
                 s = s\<lparr>xs_breakers := breaker_success (xs_breakers s) (cs_model_id primary)\<rparr>
             in (case record_success (xs_health s) (cs_model_id primary) latency_ms (xe_outcome_now env) of
               None \<Rightarrow> (s, Panicked ''index out of range'')
             | Some health \<Rightarrow>
                 let cost = route_cost (xs_models s) (cs_model_id primary) (ex_tokens_output er)
                 in (s\<lparr>xs_health := health, xs_metrics := count_routed is_canary is_fallback (xs_metrics s),
                       xs_store := log_request (xs_store s) (xe_log_works env) (xe_created_at env)
                         (route_log_entry env req tenant p er latency_ms cost is_fallback is_canary)\<rparr>,
                     Done (Inr (route_response env req primary er latency_ms cost is_fallback is_canary))))))"

definition route :: "'c router_server \<Rightarrow> 'c route_env \<Rightarrow> inference_request \<Rightarrow> 'c router_server \<times> inference_response outcome" where
  "route s env req =
    (let tenant = route_tenant req
     in case tenant_policy_of s env tenant of (s, p) \<Rightarrow>
        (case limiter_allow (xs_limiter s) tenant (tp_rate_limit p) (tp_burst_limit p) (xe_limiter_now env) of (limiter, ok) \<Rightarrow>
           let s = s\<lparr>xs_limiter := limiter\<rparr>
           in if \<not> ok then (s, Done (Inl (Status ResourceExhausted (''rate limit exceeded for tenant '' @ tenant))))
              else
                let sreq = route_scoring_request s p req
                in case route_candidates (xe_breaker_now env) s (xs_models s) of (s, candidates) \<Rightarrow>
                   let ranked = score (router_scorer s) sreq candidates
                   in if length ranked = 0
                      then (count_route_error s,
                            Done (Inl (Status Unavailable (''no available models for task '' @ task_string (ir_task_type req)))))
                      else route_dispatch s env tenant p sreq req ranked))"

text \<open>The handler that \<open>registerRouter\<close> registers for the method \<open>Route\<close>.\<close>

definition router_service_name :: string where
  "router_service_name = ''routing.v1.RouterService''"

definition router_route_handler ::
  "(inference_request, 's, inference_response) unary_handler \<Rightarrow> inference_request result \<Rightarrow>
   (inference_request, 's, inference_response) interceptor option \<Rightarrow> call_ctx \<Rightarrow> 's grpc_server \<Rightarrow>
   's grpc_server \<times> inference_response outcome" where
  "router_route_handler f dec i ctx s =
    (case dec of Inl e \<Rightarrow> (s, Done (Inl e))
     | Inr req \<Rightarrow> (case i of None \<Rightarrow> f ctx req s
         | Some ic \<Rightarrow> ic (''/'' @ router_service_name @ ''/Route'') f ctx req s))"

end
