(* ===== verification/Routing.thy ===== *)
theory Routing
  imports Router
begin

section \<open>What the router guarantees\<close>

text \<open>
  The properties of \<open>Route\<close>, which compose those of the breakers, of the scorer, of the health
  tracker and of the canary weights.
\<close>

interpretation router_shares: shares canary_weights cf_enabled cf_base cf_canary cf_pct
  by unfold_locales (simp_all add: canary_weights_def)

subsection \<open>Candidates\<close>

text \<open>The breaker that a lookup finds or creates, and whether it lets a request through.\<close>

definition breaker_of :: "breakers \<Rightarrow> string \<Rightarrow> circuit_breaker" where
  "breaker_of brs k = snd (breaker_get brs k)"

definition admitted :: "(string \<Rightarrow> time) \<Rightarrow> breakers \<Rightarrow> string \<Rightarrow> bool" where
  "admitted now brs k \<longleftrightarrow> snd (cb_allow (breaker_of brs k) (now k))"

lemma breaker_of_upd: "breaker_of (brs(k \<mapsto> cb)) k' = (if k' = k then cb else breaker_of brs k')"
  by (simp add: breaker_of_def breaker_get_def Let_def split: option.split)

lemma breaker_calls:
  "breaker_allow brs k t = (brs(k \<mapsto> fst (cb_allow (breaker_of brs k) t)), snd (cb_allow (breaker_of brs k) t))"
  "breaker_success brs k = brs(k \<mapsto> cb_record_success (breaker_of brs k))"
  "breaker_failure brs k t = brs(k \<mapsto> cb_record_failure (breaker_of brs k) t)"
  by (simp_all add: breaker_allow_def breaker_success_def breaker_failure_def breaker_of_def breaker_get_def Let_def
      split: option.split prod.split)

lemma cb_allow_again: "snd (cb_allow (fst (cb_allow cb t)) t) = snd (cb_allow cb t)"
  by (simp add: cb_allow_def split: cb_status.split)

lemma cb_allow_fields [simp]:
  "cb_failures (fst (cb_allow cb t)) = cb_failures cb" "cb_threshold (fst (cb_allow cb t)) = cb_threshold cb"
  "cb_timeout (fst (cb_allow cb t)) = cb_timeout cb"
  by (simp_all add: cb_allow_def split: cb_status.split)

lemma admitted_allow: "admitted now (fst (breaker_allow brs m (now m))) k = admitted now brs k"
  by (simp add: admitted_def breaker_calls breaker_of_upd cb_allow_again)

definition blocked_models :: "(string \<Rightarrow> time) \<Rightarrow> breakers \<Rightarrow> model_record list \<Rightarrow> model_record list" where
  "blocked_models now brs ms = filter (\<lambda>m. \<not> admitted now brs (mr_model_id m)) ms"

lemma route_candidates_eq:
  "\<exists>B. route_candidates now s ms =
      (s\<lparr>xs_breakers := B, xs_metrics := (xs_metrics s)\<lparr>xm_cb_blocked := xm_cb_blocked (xs_metrics s)
          + of_nat (length (blocked_models now (xs_breakers s) ms))\<rparr>\<rparr>,
       filter (\<lambda>m. admitted now (xs_breakers s) (mr_model_id m)) ms)
    \<and> (\<forall>k. admitted now B k = admitted now (xs_breakers s) k)
    \<and> (\<forall>k. cb_failures (breaker_of B k) = cb_failures (breaker_of (xs_breakers s) k)
         \<and> cb_threshold (breaker_of B k) = cb_threshold (breaker_of (xs_breakers s) k)
         \<and> cb_timeout (breaker_of B k) = cb_timeout (breaker_of (xs_breakers s) k))"
proof (induction ms arbitrary: s)
  case Nil
  show ?case by (intro exI [of _ "xs_breakers s"]) (simp add: blocked_models_def)
next
  case (Cons m ms)
  define brs where "brs = fst (breaker_allow (xs_breakers s) (mr_model_id m) (now (mr_model_id m)))"
  have ok: "breaker_allow (xs_breakers s) (mr_model_id m) (now (mr_model_id m)) = (brs, admitted now (xs_breakers s) (mr_model_id m))"
    by (simp add: brs_def breaker_calls admitted_def)
  have adm: "admitted now brs = admitted now (xs_breakers s)" by (simp add: brs_def admitted_allow fun_eq_iff)
  then have blk: "blocked_models now brs = blocked_models now (xs_breakers s)" by (simp add: blocked_models_def fun_eq_iff)
  have same: "cb_failures (breaker_of brs k) = cb_failures (breaker_of (xs_breakers s) k)
         \<and> cb_threshold (breaker_of brs k) = cb_threshold (breaker_of (xs_breakers s) k)
         \<and> cb_timeout (breaker_of brs k) = cb_timeout (breaker_of (xs_breakers s) k)" for k
    by (simp add: brs_def breaker_calls breaker_of_upd)
  let ?s = "s\<lparr>xs_breakers := brs\<rparr>"
  let ?t = "?s\<lparr>xs_metrics := (xs_metrics s)\<lparr>xm_cb_blocked := xm_cb_blocked (xs_metrics s) + 1\<rparr>\<rparr>"
  show ?case
  proof (cases "admitted now (xs_breakers s) (mr_model_id m)")
    case True
    with Cons.IH [of ?s] ok adm blk same show ?thesis by (auto simp: Let_def blocked_models_def)
  next
    case False
    with Cons.IH [of ?t] ok adm blk same show ?thesis by (auto simp: Let_def blocked_models_def add.assoc)
  qed
qed

subsection \<open>The stages of a request\<close>

definition route_policy :: "'c router_server \<Rightarrow> 'c route_env \<Rightarrow> inference_request \<Rightarrow> tenant_policy" where
  "route_policy s env req = snd (tenant_policy_of s env (route_tenant req))"

definition route_sreq :: "'c router_server \<Rightarrow> 'c route_env \<Rightarrow> inference_request \<Rightarrow> scoring_request" where
  "route_sreq s env req = route_scoring_request s (route_policy s env req) req"

definition route_within_limit :: "'c router_server \<Rightarrow> 'c route_env \<Rightarrow> inference_request \<Rightarrow> bool" where
  "route_within_limit s env req = snd (limiter_allow (xs_limiter s) (route_tenant req) (tp_rate_limit (route_policy s env req))
     (tp_burst_limit (route_policy s env req)) (xe_limiter_now env))"

definition route_open :: "'c router_server \<Rightarrow> 'c route_env \<Rightarrow> model_record list" where
  "route_open s env = filter (\<lambda>m. admitted (xe_breaker_now env) (xs_breakers s) (mr_model_id m)) (xs_models s)"

definition route_ranking :: "'c router_server \<Rightarrow> 'c route_env \<Rightarrow> inference_request \<Rightarrow> candidate_score list" where
  "route_ranking s env req = score (router_scorer s) (route_sreq s env req) (route_open s env)"

lemma tenant_policy_of_frame: "\<exists>P. tenant_policy_of s env tenant = (s\<lparr>xs_policies := P\<rparr>, snd (tenant_policy_of s env tenant))"
  by (cases "policy_get (xs_policies s) tenant (xe_policy_now env)")
    (auto simp: tenant_policy_of_def Let_def intro: exI [of _ "xs_policies s"])

definition route_ready :: "'c router_server \<Rightarrow> 'c route_env \<Rightarrow> 'c router_server \<Rightarrow> bool" where
  "route_ready s env s2 \<longleftrightarrow> (\<exists>P L B. s2 = s\<lparr>xs_policies := P, xs_limiter := L, xs_breakers := B, xs_metrics := (xs_metrics s)\<lparr>xm_cb_blocked :=
        xm_cb_blocked (xs_metrics s) + of_nat (length (blocked_models (xe_breaker_now env) (xs_breakers s) (xs_models s)))\<rparr>\<rparr>
      \<and> (\<forall>k. cb_failures (breaker_of B k) = cb_failures (breaker_of (xs_breakers s) k)
         \<and> cb_threshold (breaker_of B k) = cb_threshold (breaker_of (xs_breakers s) k)
         \<and> cb_timeout (breaker_of B k) = cb_timeout (breaker_of (xs_breakers s) k)))"

text \<open>A request that is over the limit stops there; the others see the policies and the breakers
  updated, and go to the first of the ranking.\<close>

lemma route_stages:
  obtains (limited) P L where "\<not> route_within_limit s env req"
      "route s env req = (s\<lparr>xs_policies := P, xs_limiter := L\<rparr>,
         Done (Inl (Status ResourceExhausted (''rate limit exceeded for tenant '' @ route_tenant req))))"
  | (none) s2 where "route_within_limit s env req" "route_ready s env s2" "route_ranking s env req = []"
      "route s env req = (count_route_error s2,
         Done (Inl (Status Unavailable (''no available models for task '' @ task_string (ir_task_type req)))))"
  | (dispatched) s2 where "route_within_limit s env req" "route_ready s env s2" "route_ranking s env req \<noteq> []"
      "route s env req = route_dispatch s2 env (route_tenant req) (route_policy s env req) (route_sreq s env req) req (route_ranking s env req)"
proof -
  obtain P where P: "tenant_policy_of s env (route_tenant req) = (s\<lparr>xs_policies := P\<rparr>, route_policy s env req)"
    using tenant_policy_of_frame [of s env "route_tenant req"] by (auto simp: route_policy_def)
  obtain L where L: "limiter_allow (xs_limiter s) (route_tenant req) (tp_rate_limit (route_policy s env req))
      (tp_burst_limit (route_policy s env req)) (xe_limiter_now env) = (L, route_within_limit s env req)"
    unfolding route_within_limit_def by (metis prod.collapse)
  define s1 where "s1 = s\<lparr>xs_policies := P, xs_limiter := L\<rparr>"
  have s1: "xs_models s1 = xs_models s" "xs_breakers s1 = xs_breakers s" "xs_metrics s1 = xs_metrics s"
    "route_scoring_request s1 (route_policy s env req) req = route_sreq s env req"
    by (simp_all add: s1_def route_sreq_def route_scoring_request_def)
  obtain B where B: "route_candidates (xe_breaker_now env) s1 (xs_models s1) =
      (s1\<lparr>xs_breakers := B, xs_metrics := (xs_metrics s)\<lparr>xm_cb_blocked := xm_cb_blocked (xs_metrics s)
          + of_nat (length (blocked_models (xe_breaker_now env) (xs_breakers s) (xs_models s)))\<rparr>\<rparr>, route_open s env)"
    "\<forall>k. cb_failures (breaker_of B k) = cb_failures (breaker_of (xs_breakers s) k)
         \<and> cb_threshold (breaker_of B k) = cb_threshold (breaker_of (xs_breakers s) k)
         \<and> cb_timeout (breaker_of B k) = cb_timeout (breaker_of (xs_breakers s) k)"
    using route_candidates_eq [of "xe_breaker_now env" s1 "xs_models s1"] unfolding s1 route_open_def by blast
  define s2 where "s2 = fst (route_candidates (xe_breaker_now env) s1 (xs_models s1))"
  have s2: "route_candidates (xe_breaker_now env) s1 (xs_models s1) = (s2, route_open s env)" by (simp add: s2_def B(1))
  have ready: "route_ready s env s2" using B unfolding route_ready_def s2_def s1_def by auto
  have "router_scorer s2 = router_scorer s" unfolding s2_def B(1) by (simp add: s1_def router_scorer_def)
  then have r: "route s env req =
      (if \<not> route_within_limit s env req
       then (s1, Done (Inl (Status ResourceExhausted (''rate limit exceeded for tenant '' @ route_tenant req))))
       else if route_ranking s env req = []
       then (count_route_error s2, Done (Inl (Status Unavailable (''no available models for task '' @ task_string (ir_task_type req)))))
       else route_dispatch s2 env (route_tenant req) (route_policy s env req) (route_sreq s env req) req (route_ranking s env req))"
    unfolding route_def by (simp add: Let_def P L s1_def [symmetric] s1(4) s2 route_ranking_def)
  show ?thesis
    using limited [of L P] none [of s2] dispatched [of s2] r ready unfolding s1_def by (auto split: if_splits)
qed

subsection \<open>Dispatch\<close>

lemma route_ready_keeps [simp]:
  assumes "route_ready s env s2"
  shows "xs_store s2 = xs_store s" "xs_health s2 = xs_health s" "xs_canary s2 = xs_canary s" "xs_pool s2 = xs_pool s"
    "xs_models s2 = xs_models s" "xm_routed (xs_metrics s2) = xm_routed (xs_metrics s)"
    "xm_errors (xs_metrics s2) = xm_errors (xs_metrics s)"
    "cb_failures (breaker_of (xs_breakers s2) k) = cb_failures (breaker_of (xs_breakers s) k)"
    "cb_threshold (breaker_of (xs_breakers s2) k) = cb_threshold (breaker_of (xs_breakers s) k)"
    "cb_timeout (breaker_of (xs_breakers s2) k) = cb_timeout (breaker_of (xs_breakers s) k)"
  using assms by (auto simp: route_ready_def)

lemma route_failure_frame [simp]:
  "xs_store (route_failure s k t) = xs_store s"
  "xm_routed (xs_metrics (route_failure s k t)) = xm_routed (xs_metrics s)"
  "xm_errors (xs_metrics (route_failure s k t)) = xm_errors (xs_metrics s) + 1"
  "xs_health (route_failure s k t) = record_failure (xs_health s) k t"
  "xs_breakers (route_failure s k t) = breaker_failure (xs_breakers s) k t"
  "xs_models (route_failure s k t) = xs_models s"
  by (simp_all add: route_failure_def count_route_error_def)

lemma count_route_error_frame [simp]:
  "xs_store (count_route_error s) = xs_store s"
  "xm_routed (xs_metrics (count_route_error s)) = xm_routed (xs_metrics s)"
  "xm_errors (xs_metrics (count_route_error s)) = xm_errors (xs_metrics s) + 1"
  "xs_health (count_route_error s) = xs_health s"
  by (simp_all add: count_route_error_def)

text \<open>The elapsed milliseconds of a request, as the response and the health tracker hold them.\<close>

definition route_latency :: "'c route_env \<Rightarrow> f64" where
  "route_latency env = f64_of_int (to_millis (time_sub (xe_end env) (xe_start env)))"

definition route_price :: "'c router_server \<Rightarrow> candidate_score \<Rightarrow> execute_response \<Rightarrow> f64" where
  "route_price s primary er = route_cost (xs_models s) (cs_model_id primary) (ex_tokens_output er)"

definition canary_share :: "scoring_request \<Rightarrow> candidate_score \<Rightarrow> bool" where
  "canary_share sreq primary = (let w = weight_or_zero (sq_rollout_weights sreq) (cs_model_id primary) in f64_lt f64_zero w \<and> f64_lt w f64_one)"

lemma count_routed_frame [simp]:
  "xm_routed (count_routed c f m) = xm_routed m + 1" "xm_errors (count_routed c f m) = xm_errors m"
  by (simp_all add: count_routed_def Let_def)

lemma dispatch_cases:
  fixes ranked :: "candidate_score list"
  assumes "tracker_of ev (xs_health s)"
  defines "k \<equiv> cs_model_id (hd ranked)"
  obtains (dial) e t where "snd (pool_client (xs_pool s) (cs_executor_addr (hd ranked)) (xe_dial env)) = Inl e"
      "route_dispatch s env tenant p sreq req ranked = (route_failure t k (xe_outcome_now env),
         Done (Inl (Status Unavailable (''executor dial failed: '' @ err_text e))))" "\<exists>pool. t = s\<lparr>xs_pool := pool\<rparr>"
  | (failed) c e t where "snd (pool_client (xs_pool s) (cs_executor_addr (hd ranked)) (xe_dial env)) = Inr c"
      "xe_execute env c (route_execute_request req (hd ranked)) = Inl e"
      "route_dispatch s env tenant p sreq req ranked = (route_failure t k (xe_outcome_now env),
         Done (Inl (Status Internal (''executor error: '' @ err_text e))))" "\<exists>pool. t = s\<lparr>xs_pool := pool\<rparr>"
  | (served) c er t where "snd (pool_client (xs_pool s) (cs_executor_addr (hd ranked)) (xe_dial env)) = Inr c"
      "xe_execute env c (route_execute_request req (hd ranked)) = Inr er"
      "route_dispatch s env tenant p sreq req ranked =
        (t, Done (Inr (route_response env req (hd ranked) er (route_latency env) (route_price s (hd ranked) er) False (canary_share sreq (hd ranked)))))"
      "xs_breakers t = breaker_success (xs_breakers s) k"
      "tracker_of (ev(k := ev k @ [(1, route_latency env)])) (xs_health t)"
      "xs_metrics t = count_routed (canary_share sreq (hd ranked)) False (xs_metrics s)"
      "xs_store t = log_request (xs_store s) (xe_log_works env) (xe_created_at env)
        (route_log_entry env req tenant p er (route_latency env) (route_price s (hd ranked) er) False (canary_share sreq (hd ranked)))"
proof -
  obtain pool r where pool: "pool_client (xs_pool s) (cs_executor_addr (hd ranked)) (xe_dial env) = (pool, r)"
    by (meson surj_pair)
  show ?thesis
  proof (cases r)
    case (Inl e)
    show ?thesis by (rule dial [of e "s\<lparr>xs_pool := pool\<rparr>"]) (use pool Inl in \<open>auto simp: route_dispatch_def k_def\<close>)
  next
    case r: (Inr c)
    show ?thesis
    proof (cases "xe_execute env c (route_execute_request req (hd ranked))")
      case (Inl e)
      show ?thesis by (rule failed [of c e "s\<lparr>xs_pool := pool\<rparr>"]) (use pool r Inl in \<open>auto simp: route_dispatch_def k_def\<close>)
    next
      case er: (Inr er)
      obtain h where h: "record_success (xs_health s) k (route_latency env) (xe_outcome_now env) = Some h"
        "tracker_of (ev(k := ev k @ [(1, route_latency env)])) h"
        using record_success_Some [OF assms(1)] by blast
      have eq: "route_dispatch s env tenant p sreq req ranked =
        (s\<lparr>xs_pool := pool, xs_breakers := breaker_success (xs_breakers s) k, xs_health := h,
           xs_metrics := count_routed (canary_share sreq (hd ranked)) False (xs_metrics s),
           xs_store := log_request (xs_store s) (xe_log_works env) (xe_created_at env)
             (route_log_entry env req tenant p er (route_latency env) (route_price s (hd ranked) er) False (canary_share sreq (hd ranked)))\<rparr>,
         Done (Inr (route_response env req (hd ranked) er (route_latency env) (route_price s (hd ranked) er) False (canary_share sreq (hd ranked)))))"
        unfolding route_dispatch_def pool r prod.case sum.case Let_def using er h(1)
        by (simp add: route_latency_def [symmetric] k_def route_price_def canary_share_def Let_def)
      show ?thesis by (rule served [OF _ er eq]) (use pool r h in simp_all)
    qed
  qed
qed

subsection \<open>Properties\<close>

text \<open>What the router's data satisfies: the tracker records the events \<open>ev\<close>, shares lie between 0
  and 1, prices are not negative, and a model has one record.\<close>

definition router_sane :: "(string \<Rightarrow> (int32 \<times> f64) list) \<Rightarrow> 'c router_server \<Rightarrow> bool" where
  "router_sane ev s \<longleftrightarrow> tracker_of ev (xs_health s) \<and> (\<forall>k. length (ev k) < 2 ^ 63)
     \<and> (\<forall>cfg \<in> set (xs_canary s). f64_unit (cf_pct cfg))
     \<and> (\<forall>m \<in> set (xs_models s). sane_cost m) \<and> distinct (map mr_model_id (xs_models s))"

lemma good_router_scorer:
  assumes "router_sane ev s"
  shows "good_scorer (router_scorer s)"
proof -
  have "f64_unit (error_rate (xs_health s) k)" for k
    using Scoring.error_rate_unit [of ev "xs_health s" k] assms by (simp add: router_sane_def)
  moreover have "f64_unit (queue_score (router_scorer s) m)" for m
    by (rule noop.queue_score_unit) (simp_all add: router_scorer_def new_scorer_def)
  ultimately show ?thesis by (simp add: good_scorer_def router_scorer_def new_scorer_def)
qed

lemma sane_route_weights: "router_sane ev s \<Longrightarrow> sane_weights (route_sreq s env req)"
  using router_shares.weight_unit [of "xs_canary s"]
  by (simp add: sane_weights_def route_sreq_def route_scoring_request_def router_sane_def)

lemma route_cost_of:
  assumes "distinct (map mr_model_id ms)" "m \<in> set ms"
  shows "route_cost ms (mr_model_id m) n = f64_mul (f64_div (f64_of_int (sint n)) (f64_of_int 1000)) (mr_cost_per_1k m)"
proof -
  have "find (\<lambda>x. mr_model_id x = mr_model_id m) ms = Some m"
    using assms by (induction ms) (auto simp: rev_image_eqI)
  then show ?thesis by (simp add: route_cost_def)
qed

definition route_score :: "'c router_server \<Rightarrow> 'c route_env \<Rightarrow> inference_request \<Rightarrow> model_record \<Rightarrow> candidate_score" where
  "route_score s env req = score_one (router_scorer s) (request_weights (route_sreq s env req)) (route_sreq s env req)"

lemma route_best:
  assumes "router_sane ev s" "route s env req = (s', Done (Inr resp))"
  shows "\<exists>m c er. m \<in> set (xs_models s) \<and> mr_enabled m \<and> task_string (ir_task_type req) \<in> set (mr_tasks m)
    \<and> (let allowed = tp_allowed_models (route_policy s env req) in allowed = [] \<or> map_of allowed (mr_model_id m) = Some True)
    \<and> admitted (xe_breaker_now env) (xs_breakers s) (mr_model_id m) \<and> route_within_limit s env req
    \<and> (\<forall>m' \<in> set (route_open s env). eligible (route_sreq s env req) m' \<longrightarrow>
         f64_le (cs_total_score (route_score s env req m')) (cs_total_score (route_score s env req m)))
    \<and> snd (pool_client (xs_pool s) (mr_executor_addr m) (xe_dial env)) = Inr c
    \<and> xe_execute env c (route_execute_request req (route_score s env req m)) = Inr er
    \<and> rs_request_id resp = ir_request_id req \<and> rs_content resp = ex_content er \<and> rs_executor_id resp = mr_executor_addr m
    \<and> rs_cost_usd resp = f64_mul (f64_div (f64_of_int (sint (ex_tokens_output er))) (f64_of_int 1000)) (mr_cost_per_1k m)"
  using route_stages [of s env req]
proof cases
  case (dispatched s2)
  obtain m where m: "m \<in> set (route_open s env)" "eligible (route_sreq s env req) m"
    "hd (route_ranking s env req) = route_score s env req m"
    "\<And>m'. m' \<in> set (route_open s env) \<Longrightarrow> eligible (route_sreq s env req) m' \<Longrightarrow>
       f64_le (cs_total_score (route_score s env req m')) (cs_total_score (route_score s env req m))"
    unfolding route_ranking_def route_score_def
    by (rule score_first [OF good_router_scorer [OF assms(1)] sane_route_weights [OF assms(1)]])
      (use assms(1) dispatched(3) in \<open>auto simp: router_sane_def route_open_def route_ranking_def\<close>)
  have in_models: "m \<in> set (xs_models s)" and adm: "admitted (xe_breaker_now env) (xs_breakers s) (mr_model_id m)"
    using m(1) by (simp_all add: route_open_def)
  have el: "mr_enabled m \<and> task_string (ir_task_type req) \<in> set (mr_tasks m)
      \<and> (let allowed = tp_allowed_models (route_policy s env req) in allowed = [] \<or> map_of allowed (mr_model_id m) = Some True)"
    using m(2) by (simp add: eligible_def route_sreq_def route_scoring_request_def Let_def)
  have tr: "tracker_of ev (xs_health s2)" using assms(1) dispatched(2) by (simp add: router_sane_def)
  note models = route_ready_keeps(5) [OF dispatched(2)] and pool = route_ready_keeps(4) [OF dispatched(2)]
  have addr: "cs_executor_addr (hd (route_ranking s env req)) = mr_executor_addr m"
    "cs_model_id (hd (route_ranking s env req)) = mr_model_id m"
    "cs_executor_addr (route_score s env req m) = mr_executor_addr m" by (simp_all add: m(3) route_score_def)
  show ?thesis
    using tr
  proof (cases rule: dispatch_cases [where env = env and ranked = "route_ranking s env req" and req = req
        and tenant = "route_tenant req" and p = "route_policy s env req" and sreq = "route_sreq s env req"])
    case (served c er t)
    have "resp = route_response env req (hd (route_ranking s env req)) er (route_latency env)
        (route_price s2 (hd (route_ranking s env req)) er) False (canary_share (route_sreq s env req) (hd (route_ranking s env req)))"
      using served(3) dispatched(4) assms(2) by simp
    moreover have "route_price s2 (hd (route_ranking s env req)) er =
        f64_mul (f64_div (f64_of_int (sint (ex_tokens_output er))) (f64_of_int 1000)) (mr_cost_per_1k m)"
      using route_cost_of [OF _ in_models] assms(1) by (simp add: route_price_def addr models router_sane_def)
    ultimately have "rs_request_id resp = ir_request_id req \<and> rs_content resp = ex_content er \<and> rs_executor_id resp = mr_executor_addr m
        \<and> rs_cost_usd resp = f64_mul (f64_div (f64_of_int (sint (ex_tokens_output er))) (f64_of_int 1000)) (mr_cost_per_1k m)"
      by (simp add: route_response_def addr)
    then show ?thesis
      using in_models el adm dispatched(1) m(4) served(1,2) unfolding pool m(3) addr(3) by blast
  qed (use dispatched(4) assms(2) in auto)
qed (use assms(2) in auto)

text \<open>C4. A served request was within its tenant's rate limit and went to a model that is enabled, supports
  the task, is allowed to the tenant and was let through by its breaker, and no other such model scores
  higher. The answer is what that model's executor returned for the request, priced at the model's
  rate.\<close>

theorem route_serves_best:
  assumes "router_sane ev s" "route s env req = (s', Done (Inr resp))"
  shows "\<exists>m c er. m \<in> set (xs_models s) \<and> mr_enabled m \<and> task_string (ir_task_type req) \<in> set (mr_tasks m)
    \<and> (let allowed = tp_allowed_models (route_policy s env req) in allowed = [] \<or> map_of allowed (mr_model_id m) = Some True)
    \<and> admitted (xe_breaker_now env) (xs_breakers s) (mr_model_id m) \<and> route_within_limit s env req
    \<and> (\<forall>m' \<in> set (route_open s env). eligible (route_sreq s env req) m' \<longrightarrow>
         f64_le (cs_total_score (route_score s env req m')) (cs_total_score (route_score s env req m)))
    \<and> snd (pool_client (xs_pool s) (mr_executor_addr m) (xe_dial env)) = Inr c
    \<and> xe_execute env c (route_execute_request req (route_score s env req m)) = Inr er
    \<and> rs_request_id resp = ir_request_id req \<and> rs_content resp = ex_content er \<and> rs_executor_id resp = mr_executor_addr m
    \<and> rs_cost_usd resp = f64_mul (f64_div (f64_of_int (sint (ex_tokens_output er))) (f64_of_int 1000)) (mr_cost_per_1k m)"
  using route_best [OF assms] .

text \<open>A router with one model and a fresh state, and an executor that answers.\<close>

lemma insertion_sort_single: "insertion_sort lt [x] = [x]"
  by (metis mset_insertion_sort mset_single_iff_right mset.simps(1) mset.simps(2) add_mset_remove_trivial_eq mset_single_iff)

lemma fresh_limit:
  assumes "rl tenant = None" "0 < sint burst" "sint burst < 2 ^ 53" "0 \<le> sint rate"
  shows "snd (limiter_allow rl tenant rate burst now)"
proof -
  let ?b = "\<lparr>bk_tokens = f64_of_int (sint burst), bk_max_burst = f64_of_int (sint burst),
    bk_rate = f64_of_int (sint rate), bk_last_fill = now\<rparr>"
  have "snd (bucket_allow ?b rate burst now)"
    using bucket_allow_now(1) [of "sint burst" ?b burst now rate] assms(2-4) by (simp add: tokens_are_def)
  then show ?thesis using assms(1) by (simp add: limiter_allow_def case_prod_unfold Let_def)
qed

definition demo_router :: "nat \<Rightarrow> string router_server" where
  "demo_router n = \<lparr>xs_store = fresh_store, xs_health = new_health_tracker, xs_breakers = [''m'' \<mapsto> (new_circuit_breaker ''m'')\<lparr>cb_failures := n\<rparr>],
     xs_limiter = new_rate_limiter, xs_policies = new_policy_store, xs_canary = [], xs_pool = new_exec_pool,
     xs_metrics = \<lparr>xm_routed = 0, xm_fallbacks = 0, xm_cb_blocked = 0, xm_canary = 0, xm_cache_hits = 0, xm_errors = 0\<rparr>,
     xs_models = [demo_model ''m'' ''small'']\<rparr>"

definition demo_route_env :: "(string \<Rightarrow> execute_request \<Rightarrow> execute_response result) \<Rightarrow> string route_env" where
  "demo_route_env execute = \<lparr>xe_start = 0, xe_trace_id = ''t'', xe_policy_now = 0, xe_policy_stored = 0, xe_limiter_now = 0,
     xe_breaker_now = (\<lambda>_. 0), xe_outcome_now = 5 * millisecond, xe_end = 5 * millisecond, xe_policy_fails = None,
     xe_unmarshal = (\<lambda>_. None), xe_dial = Inr ''conn'', xe_execute = execute, xe_created_at = ''now'', xe_log_works = True\<rparr>"

definition demo_route_request :: inference_request where
  "demo_route_request = zero_request\<lparr>ir_request_id := ''r'', ir_task_type := TaskChat\<rparr>"

lemma demo_router_keeps:
  "xs_health (demo_router n) = new_health_tracker" "xs_pool (demo_router n) = new_exec_pool"
  "xs_models (demo_router n) = [demo_model ''m'' ''small'']" "xm_errors (xs_metrics (demo_router n)) = 0"
  "xm_routed (xs_metrics (demo_router n)) = 0"
  by (simp_all add: demo_router_def)

lemma demo_router_sane: "router_sane (\<lambda>_. []) (demo_router n)"
  by (simp add: router_sane_def demo_router_def tracker_of_new demo_scorer_good(3))

lemma chat_policy: "route_policy (demo_router n) (demo_route_env x) req = default_policy (route_tenant req)"
  by (simp add: route_policy_def tenant_policy_of_def policy_get_def demo_router_def new_policy_store_def load_tenant_policy_def
      demo_route_env_def fresh_store_def Let_def)

lemma chat_stage:
  assumes "ir_task_type req = TaskChat"
  shows "route_within_limit (demo_router n) (demo_route_env x) req"
    and "route_ranking (demo_router n) (demo_route_env x) req =
     [route_score (demo_router n) (demo_route_env x) req (demo_model ''m'' ''small'')]"
proof -
  show "route_within_limit (demo_router n) (demo_route_env x) req"
    unfolding route_within_limit_def chat_policy
    by (rule fresh_limit) (simp_all add: default_policy_def demo_router_def new_rate_limiter_def)
  have "admitted now (xs_breakers (demo_router n)) ''m''" for now
    by (simp add: admitted_def demo_router_def breaker_of_upd new_circuit_breaker_def cb_allow_def)
  then have "route_open (demo_router n) (demo_route_env x) = [demo_model ''m'' ''small'']"
    by (simp add: route_open_def demo_router_keeps demo_model_def)
  moreover have "eligible (route_sreq (demo_router n) (demo_route_env x) req) (demo_model ''m'' ''small'')"
    using assms by (simp add: eligible_def route_sreq_def chat_policy route_scoring_request_def demo_model_def default_policy_def task_string_def)
  ultimately show "route_ranking (demo_router n) (demo_route_env x) req =
     [route_score (demo_router n) (demo_route_env x) req (demo_model ''m'' ''small'')]"
    by (simp add: route_ranking_def score_eq route_score_def insertion_sort_single)
qed

definition demo_answer :: "execute_request \<Rightarrow> execute_response" where
  "demo_answer r = \<lparr>ex_request_id = er_request_id r, ex_model_id = er_model_id r, ex_content = ''hello'', ex_embedding = [],
     ex_scores = [], ex_tokens_input = 3, ex_tokens_output = 7, ex_latency_ms = f64_zero\<rparr>"

lemma chat_dispatch:
  assumes "ir_task_type req = TaskChat"
  shows "\<exists>s2. xs_health s2 = new_health_tracker \<and> xs_pool s2 = new_exec_pool \<and>
     route (demo_router n) (demo_route_env x) req = route_dispatch s2 (demo_route_env x) (route_tenant req)
       (default_policy (route_tenant req)) (route_sreq (demo_router n) (demo_route_env x) req) req
       [route_score (demo_router n) (demo_route_env x) req (demo_model ''m'' ''small'')]"
  using route_stages [of "demo_router n" "demo_route_env x" req]
proof cases
  case (dispatched s2)
  then show ?thesis
    using route_ready_keeps(2,4) [OF dispatched(2)]
    unfolding chat_stage(2) [OF assms] chat_policy demo_router_keeps by blast
qed (simp_all add: chat_stage [OF assms])

lemma chat_served:
  fixes n :: nat
  assumes "ir_task_type req = TaskChat"
  defines "env \<equiv> demo_route_env (\<lambda>c r. Inr (demo_answer r))"
  defines "primary \<equiv> route_score (demo_router n) env req (demo_model ''m'' ''small'')"
  shows "\<exists>s' cost share. route (demo_router n) env req = (s', Done (Inr (route_response env req primary
     (demo_answer (route_execute_request req primary)) (route_latency env) cost False share)))"
proof -
  obtain s2 where s2: "xs_health s2 = new_health_tracker" "xs_pool s2 = new_exec_pool" and r: "route (demo_router n) env req =
      route_dispatch s2 env (route_tenant req) (default_policy (route_tenant req)) (route_sreq (demo_router n) env req) req [primary]"
    using chat_dispatch [OF assms(1)] unfolding env_def primary_def by blast
  have e: "xe_dial env = Inr ''conn''" "xe_execute env = (\<lambda>c r. Inr (demo_answer r))"
    by (simp_all add: env_def demo_route_env_def)
  have "tracker_of (\<lambda>_. []) (xs_health s2)" by (simp add: s2 tracker_of_new)
  then show ?thesis unfolding r
    by (cases rule: dispatch_cases [where env = env and ranked = "[primary]" and req = req and tenant = "route_tenant req"
        and p = "default_policy (route_tenant req)" and sreq = "route_sreq (demo_router n) env req"])
      (use s2 e in \<open>auto simp: pool_client_def new_exec_pool_def\<close>)
qed

lemma chat_failed:
  assumes "ir_task_type req = TaskChat"
  shows "\<exists>s'. route (demo_router n) (demo_route_env (\<lambda>c r. Inl (Plain ''down''))) req =
     (s', Done (Inl (Status Internal ''executor error: down'')))"
proof -
  obtain s2 where s2: "xs_pool s2 = new_exec_pool" and r: "route (demo_router n)
      (demo_route_env (\<lambda>c r. Inl (Plain ''down''))) req = route_dispatch s2 (demo_route_env (\<lambda>c r. Inl (Plain ''down'')))
      (route_tenant req) (default_policy (route_tenant req))
      (route_sreq (demo_router n) (demo_route_env (\<lambda>c r. Inl (Plain ''down''))) req) req
      [route_score (demo_router n) (demo_route_env (\<lambda>c r. Inl (Plain ''down''))) req (demo_model ''m'' ''small'')]"
    using chat_dispatch [OF assms] by blast
  show ?thesis unfolding r route_dispatch_def Let_def
    by (simp add: s2 pool_client_def new_exec_pool_def demo_route_env_def)
qed

lemma demo_task: "ir_task_type demo_route_request = TaskChat"
  by (simp add: demo_route_request_def)

lemmas demo_route_stage = chat_stage [OF demo_task]

theorem route_serves_best_witness:
  "\<exists>s' resp. route (demo_router 0) (demo_route_env (\<lambda>c r. Inr (demo_answer r))) demo_route_request = (s', Done (Inr resp))
     \<and> rs_executor_id resp = ''e''"
proof -
  obtain s' resp where r: "route (demo_router 0) (demo_route_env (\<lambda>c r. Inr (demo_answer r))) demo_route_request = (s', Done (Inr resp))"
    using chat_served [OF demo_task] by blast
  obtain m where "m \<in> set (xs_models (demo_router 0))" "rs_executor_id resp = mr_executor_addr m"
    using route_serves_best [OF demo_router_sane r] by blast
  then have "rs_executor_id resp = ''e''" by (simp add: demo_router_def demo_model_def)
  with r show ?thesis by blast
qed

lemma route_books:
  assumes "tracker_of ev (xs_health s)"
  shows "case route s env req of
     (s', Panicked _) \<Rightarrow> False
   | (s', Done (Inr resp)) \<Rightarrow>
       xm_routed (xs_metrics s') = xm_routed (xs_metrics s) + 1 \<and> xm_errors (xs_metrics s') = xm_errors (xs_metrics s)
       \<and> (\<exists>k. tracker_of (ev(k := ev k @ [(1, rs_latency_ms resp)])) (xs_health s'))
       \<and> (\<exists>entry. le_request_id entry = ir_request_id req \<and> le_tenant_id entry = route_tenant req
            \<and> le_model_id entry = rs_model_id resp \<and> le_cost_usd entry = rs_cost_usd resp
            \<and> xs_store s' = log_request (xs_store s) (xe_log_works env) (xe_created_at env) entry)
   | (s', Done (Inl e)) \<Rightarrow>
       (\<exists>c msg. e = Status c msg \<and> c \<in> {ResourceExhausted, Unavailable, Internal}) \<and> xs_store s' = xs_store s \<and> xm_routed (xs_metrics s') = xm_routed (xs_metrics s)
       \<and> (if route_within_limit s env req
          then xm_errors (xs_metrics s') = xm_errors (xs_metrics s) + 1
            \<and> (if route_ranking s env req = [] then xs_health s' = xs_health s
               else \<exists>k. tracker_of (ev(k := ev k @ [(0, f64_zero)])) (xs_health s'))
          else xm_errors (xs_metrics s') = xm_errors (xs_metrics s) \<and> xs_health s' = xs_health s \<and> xs_breakers s' = xs_breakers s)"
  using route_stages [of s env req]
proof cases
  case (limited L P)
  then show ?thesis by simp
next
  case (none s2)
  then show ?thesis using route_ready_keeps [OF none(2)] by simp
next
  case (dispatched s2)
  note keeps = route_ready_keeps [OF dispatched(2)]
  have tr: "tracker_of ev (xs_health s2)" using assms(1) keeps by simp
  have bad: "\<exists>k. tracker_of (ev(k := ev k @ [(0, f64_zero)])) (record_failure (xs_health s) m t)" for m t
    using record_failure_of [OF assms(1)] by blast
  show ?thesis
    using tr
  proof (cases rule: dispatch_cases [where env = env and ranked = "route_ranking s env req" and req = req
        and tenant = "route_tenant req" and p = "route_policy s env req" and sreq = "route_sreq s env req"])
    case (dial e t)
    then show ?thesis using dispatched keeps bad by auto
  next
    case (failed c e t)
    then show ?thesis using dispatched keeps bad by auto
  next
    case (served c er t)
    let ?primary = "hd (route_ranking s env req)" and ?share = "canary_share (route_sreq s env req) (hd (route_ranking s env req))"
    let ?resp = "route_response env req ?primary er (route_latency env) (route_price s2 ?primary er) False ?share"
    have sel: "rs_latency_ms ?resp = route_latency env" "rs_cost_usd ?resp = route_price s2 ?primary er"
      "rs_model_id ?resp = ex_model_id er" by (simp_all add: route_response_def)
    have "\<exists>k. tracker_of (ev(k := ev k @ [(1, rs_latency_ms ?resp)])) (xs_health t)"
      unfolding sel using served(5) by blast
    moreover have "\<exists>entry. le_request_id entry = ir_request_id req \<and> le_tenant_id entry = route_tenant req
        \<and> le_model_id entry = rs_model_id ?resp \<and> le_cost_usd entry = rs_cost_usd ?resp
        \<and> xs_store t = log_request (xs_store s) (xe_log_works env) (xe_created_at env) entry"
      unfolding served(7) keeps sel
      by (rule exI [of _ "route_log_entry env req (route_tenant req) (route_policy s env req) er (route_latency env)
          (route_price s2 ?primary er) False ?share"]) (simp add: route_log_entry_def)
    ultimately show ?thesis
      unfolding dispatched(4) served(3) prod.case outcome.case sum.case using served(6) keeps by simp
  qed
qed

text \<open>Every request is accounted for, whatever the dial and the executor do. A served request counts as
  routed, records a success and its latency for exactly one model, and leaves one row in the
  audit log with the price it answered. Any failure is a gRPC status, leaves the log alone and counts as one error, except
  a refusal by the rate limit, which no counter sees; an attempt that failed at the executor is
  a failure of exactly one model. \<open>Route\<close> never panics.\<close>

theorem route_accounting:
  assumes "tracker_of ev (xs_health s)"
  shows "case route s env req of
     (s', Panicked _) \<Rightarrow> False
   | (s', Done (Inr resp)) \<Rightarrow>
       xm_routed (xs_metrics s') = xm_routed (xs_metrics s) + 1 \<and> xm_errors (xs_metrics s') = xm_errors (xs_metrics s)
       \<and> (\<exists>k. tracker_of (ev(k := ev k @ [(1, rs_latency_ms resp)])) (xs_health s'))
       \<and> (\<exists>entry. le_request_id entry = ir_request_id req \<and> le_tenant_id entry = route_tenant req
            \<and> le_model_id entry = rs_model_id resp \<and> le_cost_usd entry = rs_cost_usd resp
            \<and> xs_store s' = log_request (xs_store s) (xe_log_works env) (xe_created_at env) entry)
   | (s', Done (Inl e)) \<Rightarrow>
       (\<exists>c msg. e = Status c msg \<and> c \<in> {ResourceExhausted, Unavailable, Internal}) \<and> xs_store s' = xs_store s \<and> xm_routed (xs_metrics s') = xm_routed (xs_metrics s)
       \<and> (if route_within_limit s env req
          then xm_errors (xs_metrics s') = xm_errors (xs_metrics s) + 1
            \<and> (if route_ranking s env req = [] then xs_health s' = xs_health s
               else \<exists>k. tracker_of (ev(k := ev k @ [(0, f64_zero)])) (xs_health s'))
          else xm_errors (xs_metrics s') = xm_errors (xs_metrics s) \<and> xs_health s' = xs_health s \<and> xs_breakers s' = xs_breakers s)"
  using route_books [OF assms] .

theorem route_accounting_witness:
  "\<exists>s'. fst (route (demo_router 0) (demo_route_env (\<lambda>c r. Inl (Plain ''down''))) demo_route_request) = s'
     \<and> xm_errors (xs_metrics s') = 1 \<and> xm_routed (xs_metrics s') = 0"
proof -
  obtain s' where r: "route (demo_router 0) (demo_route_env (\<lambda>c r. Inl (Plain ''down''))) demo_route_request =
     (s', Done (Inl (Status Internal ''executor error: down'')))"
    using chat_failed [OF demo_task] by blast
  have "tracker_of (\<lambda>_. []) (xs_health (demo_router 0))" by (simp add: demo_router_keeps tracker_of_new)
  from route_accounting [OF this, of "demo_route_env (\<lambda>c r. Inl (Plain ''down''))" demo_route_request]
  show ?thesis unfolding r by (simp add: demo_route_stage demo_router_keeps)
qed

text \<open>A failing model is taken out. When the executor of the best model fails and that was the last failure
  its breaker tolerates, no request is sent to that model, nor ranks it, until the breaker's timeout has
  passed, whatever the requests and the executors are.\<close>

theorem route_isolates_failing:
  assumes "tracker_of ev (xs_health s)" "route_within_limit s env req" "route_ranking s env req \<noteq> []"
    and "k = cs_model_id (hd (route_ranking s env req))"
    and "\<not> (\<exists>resp. snd (route s env req) = Done (Inr resp))"
    and "cb_threshold (breaker_of (xs_breakers s) k) \<le> cb_failures (breaker_of (xs_breakers s) k) + 1"
    and "xe_breaker_now env' k - xe_outcome_now env \<le> cb_timeout (breaker_of (xs_breakers s) k)"
  shows "k \<notin> mr_model_id ` set (route_open (fst (route s env req)) env')
    \<and> k \<notin> cs_model_id ` set (route_ranking (fst (route s env req)) env' req')"
proof -
  obtain s2 where ready: "route_ready s env s2" and r: "route s env req = route_dispatch s2 env (route_tenant req)
      (route_policy s env req) (route_sreq s env req) req (route_ranking s env req)"
    using route_stages [of s env req] assms(2,3) by cases auto
  note keeps = route_ready_keeps [OF ready]
  have tr: "tracker_of ev (xs_health s2)" using assms(1) keeps by simp
  have b: "xs_breakers (fst (route s env req)) = breaker_failure (xs_breakers s2) k (xe_outcome_now env)"
    using tr
    by (cases rule: dispatch_cases [where env = env and ranked = "route_ranking s env req" and req = req
        and tenant = "route_tenant req" and p = "route_policy s env req" and sreq = "route_sreq s env req"])
      (use r assms(4,5) in auto)
  have "\<not> admitted (xe_breaker_now env') (xs_breakers (fst (route s env req))) k"
    using assms(6,7) keeps
    by (simp add: b admitted_def breaker_calls breaker_of_upd cb_record_failure_def cb_allow_def Let_def)
  then have "k \<notin> mr_model_id ` set (route_open (fst (route s env req)) env')" by (auto simp: route_open_def)
  moreover have "cs_model_id ` set (route_ranking (fst (route s env req)) env' req')
      \<subseteq> mr_model_id ` set (route_open (fst (route s env req)) env')"
    by (auto simp: route_ranking_def set_score)
  ultimately show ?thesis by blast
qed

theorem route_isolates_failing_witness:
  "(let env = demo_route_env (\<lambda>c r. Inl (Plain ''down''))
    in cs_model_id ` set (route_ranking (demo_router 2) env demo_route_request) = {''m''} \<and>
       ''m'' \<notin> cs_model_id ` set (route_ranking (fst (route (demo_router 2) env demo_route_request)) env demo_route_request))"
proof -
  let ?env = "demo_route_env (\<lambda>c r. Inl (Plain ''down''))"
  have tr: "tracker_of (\<lambda>_. []) (xs_health (demo_router 2))" by (simp add: demo_router_keeps tracker_of_new)
  obtain s' where r: "route (demo_router 2) ?env demo_route_request = (s', Done (Inl (Status Internal ''executor error: down'')))"
    using chat_failed [OF demo_task] by blast
  have b: "cb_threshold (breaker_of (xs_breakers (demo_router 2)) ''m'') \<le> cb_failures (breaker_of (xs_breakers (demo_router 2)) ''m'') + 1"
    "xe_breaker_now ?env ''m'' - xe_outcome_now ?env \<le> cb_timeout (breaker_of (xs_breakers (demo_router 2)) ''m'')"
    by (simp_all add: demo_router_def breaker_of_upd new_circuit_breaker_def demo_route_env_def)
  have k: "''m'' = cs_model_id (hd (route_ranking (demo_router 2) ?env demo_route_request))"
    by (simp add: demo_route_stage route_score_def demo_model_def)
  have "''m'' \<notin> cs_model_id ` set (route_ranking (fst (route (demo_router 2) ?env demo_route_request)) ?env demo_route_request)"
    by (rule route_isolates_failing [OF tr demo_route_stage(1) _ k _ b, THEN conjunct2]) (simp_all add: demo_route_stage(2) r)
  moreover have "cs_model_id ` set (route_ranking (demo_router 2) ?env demo_route_request) = {''m''}"
    by (simp add: demo_route_stage route_score_def demo_model_def)
  ultimately show ?thesis unfolding Let_def by blast
qed

end
