(* ===== verification/RouterAdmin.thy ===== *)
theory RouterAdmin
  imports Routing
begin

section \<open>The router's start and its admin endpoints\<close>

text \<open>
  \<open>main\<close> up to the listeners, and the handlers of \<open>httpAdmin\<close> of
  \<open>services/router/cmd/main.go\<close>. A reply is its status and the value that is encoded; \<open>None\<close>
  is a handler that never returns. The parsing of the body is an argument.
\<close>

datatype http_method = Get | Post | OtherMethod string

datatype admin_body =
    StatusBody string
  | ErrorBody string
  | TextBody string
  | ModelsBody "model_record list" "string \<rightharpoonup> string"
  | RolloutsBody "repo_rollout list"
  | StatsBody "(string \<times> int64) list" "string \<rightharpoonup> string" window_stats

type_synonym admin_reply = "nat \<times> admin_body"

subsection \<open>Start\<close>

text \<open>\<open>Open\<close>, \<open>Seed\<close>, whose failure is only logged, and \<open>NewRouterServer\<close>; an \<open>Inl\<close> is an exit.\<close>

definition start_router ::
  "nat \<Rightarrow> err option \<Rightarrow> err option \<Rightarrow> (repo_store \<Rightarrow> repo_store \<times> err option) \<Rightarrow> err option \<Rightarrow> (string \<Rightarrow> bool) \<Rightarrow> rollout_scan \<Rightarrow>
   repo_file \<Rightarrow> 'c router_server result option" where
  "start_router conns open_fails migrate_fails seeder models_fail tasks_work rollouts_fail f =
    (case open_store open_fails migrate_fails f of
       Inl e \<Rightarrow> Some (Inl e)
     | Inr store \<Rightarrow> new_router_server conns (fst (seeder store)) models_fail tasks_work rollouts_fail)"

subsection \<open>Handlers\<close>

definition admin_live :: admin_reply where
  "admin_live = (200, StatusBody ''alive'')"

definition admin_ready :: admin_reply where
  "admin_ready = (200, StatusBody ''ready'')"

definition admin_models :: "nat \<Rightarrow> err option \<Rightarrow> (string \<Rightarrow> bool) \<Rightarrow> 'c router_server \<Rightarrow> admin_reply option" where
  "admin_models conns fails works s =
    map_option (\<lambda>r. (200, ModelsBody (case r of Inl e \<Rightarrow> [] | Inr models \<Rightarrow> models) (states (xs_breakers s))))
      (load_models conns (xs_store s) fails works)"

definition admin_rollout ::
  "http_method \<Rightarrow> repo_rollout result \<Rightarrow> err option \<Rightarrow> rollout_scan \<Rightarrow> 'c router_server \<Rightarrow> 'c router_server \<times> admin_reply" where
  "admin_rollout method body upsert_fails load_fails s =
    (let rollouts = (\<lambda>store. case load_rollouts store load_fails of Inl e \<Rightarrow> [] | Inr cfgs \<Rightarrow> cfgs)
     in if method = Get then (s, 200, RolloutsBody (rollouts (xs_store s)))
        else if method \<noteq> Post then (s, 405, TextBody ''method not allowed'')
        else (case body of Inl e \<Rightarrow> (s, 400, ErrorBody (err_text e))
          | Inr cfg \<Rightarrow> (case upsert_rollout (xs_store s) upsert_fails cfg of
              (store, Some e) \<Rightarrow> (s\<lparr>xs_store := store\<rparr>, 500, ErrorBody (err_text e))
            | (store, None) \<Rightarrow>
                (s\<lparr>xs_store := store, xs_canary := canary_reload (xs_canary s) (rollouts store)\<rparr>,
                 200, StatusBody ''configured''))))"

definition admin_counters :: "router_metrics \<Rightarrow> (string \<times> int64) list" where
  "admin_counters m = [(''routed'', xm_routed m), (''fallbacks'', xm_fallbacks m), (''cb_blocked'', xm_cb_blocked m),
     (''canary'', xm_canary m), (''errors'', xm_errors m)]"

definition admin_stats ::
  "(f64 list \<Rightarrow> f64) \<Rightarrow> (f64 list \<Rightarrow> f64) \<Rightarrow> bool \<Rightarrow> string \<Rightarrow> 'c router_server \<Rightarrow> admin_reply" where
  "admin_stats avg sum_of works cutoff s =
    (200, StatsBody (admin_counters (xs_metrics s)) (states (xs_breakers s))
      (repo_window_stats avg sum_of (xs_store s) works cutoff (3600 * second)))"

definition admin_metrics :: "'c router_server \<Rightarrow> admin_reply" where
  "admin_metrics s = (200, TextBody (concat (map (\<lambda>(name, v). ''router_'' @ name @ '' '' @ show_int (sint v) @ [CHR 0x0A])
     (admin_counters (xs_metrics s)))))"

text \<open>The routes of \<open>httpAdmin\<close>; the multiplexer answers 404 to any other path.\<close>

record admin_in =
  ai_path :: string
  ai_method :: http_method
  ai_rollout :: "repo_rollout result"

record admin_env =
  ae_models_fail :: "err option"
  ae_tasks_work :: "string \<Rightarrow> bool"
  ae_upsert_fails :: "err option"
  ae_rollouts_scan :: rollout_scan
  ae_stats_work :: bool
  ae_cutoff :: string
  ae_avg :: "f64 list \<Rightarrow> f64"
  ae_sum :: "f64 list \<Rightarrow> f64"

definition http_admin :: "nat \<Rightarrow> admin_env \<Rightarrow> admin_in \<Rightarrow> 'c router_server \<Rightarrow> 'c router_server \<times> admin_reply option" where
  "http_admin conns env r s =
    (if ai_path r = ''/healthz/live'' then (s, Some admin_live)
     else if ai_path r = ''/healthz/ready'' then (s, Some admin_ready)
     else if ai_path r = ''/v1/models'' then (s, admin_models conns (ae_models_fail env) (ae_tasks_work env) s)
     else if ai_path r = ''/v1/rollout'' then
       (case admin_rollout (ai_method r) (ai_rollout r) (ae_upsert_fails env) (ae_rollouts_scan env) s of
          (s, reply) \<Rightarrow> (s, Some reply))
     else if ai_path r = ''/v1/stats'' then
       (s, Some (admin_stats (ae_avg env) (ae_sum env) (ae_stats_work env) (ae_cutoff env) s))
     else if ai_path r = ''/metrics'' then (s, Some (admin_metrics s))
     else (s, Some (404, TextBody ''404 page not found'')))"

text \<open>Only a POST to \<open>/v1/rollout\<close> changes the router, and only its rollouts and their weights; only \<open>/v1/models\<close> can wait for
  ever.\<close>

lemma admin_rollout_effects:
  "fst (admin_rollout method body uf lf s) = s \<or> (method = Post \<and> (\<exists>store canary. fst (admin_rollout method body uf lf s) =
     s\<lparr>xs_store := store, xs_canary := canary\<rparr> \<and> st_models store = st_models (xs_store s) \<and> st_request_log store = st_request_log (xs_store s)))"
proof (cases "method = Post")
  case True
  have keeps: "st_models (fst (upsert_rollout st uf cfg)) = st_models st \<and> st_request_log (fst (upsert_rollout st uf cfg)) = st_request_log st" for st cfg
    by (simp add: upsert_rollout_def Let_def split: option.split)
  show ?thesis
  proof (cases body)
    case (Inr cfg)
    obtain store e where "upsert_rollout (xs_store s) uf cfg = (store, e)" by fastforce
    then have u: "upsert_rollout (xs_store s) uf cfg = (store, e)" "st_models store = st_models (xs_store s)"
      "st_request_log store = st_request_log (xs_store s)" using keeps [of "xs_store s" cfg] by simp_all
    let ?canary = "case e of None \<Rightarrow> canary_reload (xs_canary s) (case load_rollouts store lf of Inl e \<Rightarrow> [] | Inr cfgs \<Rightarrow> cfgs) | Some _ \<Rightarrow> xs_canary s"
    have "fst (admin_rollout method body uf lf s) = s\<lparr>xs_store := store, xs_canary := ?canary\<rparr>"
      using u(1) True Inr by (cases e) (simp_all add: admin_rollout_def Let_def)
    then show ?thesis using u True by blast
  qed (simp add: admin_rollout_def Let_def True)
qed (simp add: admin_rollout_def Let_def)

lemma http_admin_effects:
  "fst (http_admin conns env r s) = s \<or> (ai_path r = ''/v1/rollout'' \<and> ai_method r = Post \<and>
     (\<exists>store canary. fst (http_admin conns env r s) = s\<lparr>xs_store := store, xs_canary := canary\<rparr>
        \<and> st_models store = st_models (xs_store s) \<and> st_request_log store = st_request_log (xs_store s)))"
proof (cases "ai_path r = ''/v1/rollout''")
  case True
  then have "fst (http_admin conns env r s) = fst (admin_rollout (ai_method r) (ai_rollout r) (ae_upsert_fails env) (ae_rollouts_scan env) s)"
    by (simp add: http_admin_def split: prod.split)
  then show ?thesis
    using admin_rollout_effects [of "ai_method r" "ai_rollout r" "ae_upsert_fails env" "ae_rollouts_scan env" s] True by simp
qed (simp add: http_admin_def)

lemma http_admin_waits:
  "snd (http_admin conns env r s) = None \<longleftrightarrow>
    ai_path r = ''/v1/models'' \<and> load_models conns (xs_store s) (ae_models_fail env) (ae_tasks_work env) = None"
  by (simp add: http_admin_def admin_models_def split: prod.split)

subsection \<open>Properties\<close>

lemma new_router_server_None:
  "new_router_server conns store mf works rf = None \<longleftrightarrow> load_models conns store mf works = None"
  by (simp add: new_router_server_def)

lemma load_models_one:
  "load_models store_pool s None works = None \<longleftrightarrow> (\<exists>r \<in> set (st_models s). pm_enabled r = 1)"
  by (simp add: load_models_def store_pool_def load_models_loop_eq sort_key_Nil_iff filter_empty_conv)

lemma seeded_enabled: "\<exists>r \<in> set (st_models (seeded addr)). pm_enabled r = 1"
  by (simp add: seeded_models seed_models_def seed_model_def)

definition empty_file :: repo_file where
  "empty_file = \<lparr>fi_models = None, fi_capabilities = None, fi_rollouts = None, fi_tenants = None, fi_request_log = None\<rparr>"

lemma open_empty: "open_store None None empty_file = Inr fresh_store"
  by (simp add: open_store_def migrate_def empty_file_def fresh_store_def)

text \<open>C12. The router does not come up on a fresh database: after \<open>Open\<close> and \<open>Seed\<close>, \<open>NewRouterServer\<close>
  waits for a connection that its own rows hold, so \<open>main\<close> never reaches its listeners; and neither
  the reload loop nor \<open>/v1/models\<close> of any router whose store has an enabled model returns. With two
  connections the same start succeeds.\<close>

theorem router_start_blocks:
  fixes seeder :: "repo_store \<Rightarrow> repo_store \<times> err option"
  assumes "seeder = seed True (\<lambda>_. None) (\<lambda>_. True) True seed_capabilities addr" "\<forall>k. works k"
  shows "(start_router store_pool None None seeder None works rf empty_file :: 'c router_server result option) = None
    \<and> ((\<exists>r \<in> set (st_models (xs_store s)). pm_enabled r = 1) \<longrightarrow>
        reload_tick store_pool None works rf (s :: 'c router_server) = None \<and> admin_models store_pool None works s = None)
    \<and> (\<exists>srv :: 'c router_server. start_router 2 None None seeder None works rf empty_file = Some (Inr srv)
        \<and> xs_store srv = seeded addr \<and> length (xs_models srv) = 5)"
proof -
  have fresh: "fst (seeder fresh_store) = seeded addr" by (simp add: assms(1) seeded_def)
  have "(start_router store_pool None None seeder None works rf empty_file :: 'c router_server result option) = None"
    using seeded_enabled [of addr]
    by (simp add: start_router_def open_empty fresh new_router_server_None load_models_one)
  moreover have "reload_tick store_pool None works rf s = None \<and> admin_models store_pool None works s = None"
    if "\<exists>r \<in> set (st_models (xs_store s)). pm_enabled r = 1"
    using that by (simp add: reload_tick_def admin_models_def load_models_one)
  moreover have "\<exists>ms. load_models 2 (seeded addr) None works = Some (Inr ms) \<and> length ms = 5"
    using assms(2) by (simp add: load_models_def load_models_loop_eq sort_key_Nil_iff seeded_models seed_models_def seed_model_def)
  ultimately show ?thesis
    by (auto simp: start_router_def open_empty fresh new_router_server_def Let_def)
qed

theorem router_start_blocks_witness:
  "(start_router store_pool None None (seed True (\<lambda>_. None) (\<lambda>_. True) True seed_capabilities ''e:1'') None (\<lambda>_. True) (Inr id)
     empty_file :: string router_server result option) = None"
  using router_start_blocks [OF refl, of "\<lambda>_. True" "''e:1''" "Inr id" "demo_router 0"] by simp

text \<open>C13. A rollout posted to the router takes effect at once. When its statement and the query
  after it work, in whatever order that query returns the rows, the answer is 200, the
  router works with exactly the rows of the table, the posted rollout stands there once in
  place of any earlier one of its id, and a following \<open>GET\<close> lists the same rollouts. An enabled one gives
  its canary the posted share and its base the rest, provided the two differ and no other
  enabled rollout names either of them (otherwise the order of the rows decides). A disabled
  one, which is how a canary is stopped, takes the canary's weight away, provided no other
  rollout names the canary; but a model without a weight is scored with the full weight 1,
  so the stopped canary competes on equal terms.\<close>

theorem rollout_post_live:
  fixes s :: "'c router_server"
  assumes "admin_rollout Post (Inr cfg) None (Inr scan) s = (s', reply)"
    and "\<And>rows. mset (scan rows) = mset rows" "\<And>rows. mset (scan' rows) = mset rows"
  shows "fst reply = 200
    \<and> mset (xs_canary s') = add_mset cfg (mset (filter (\<lambda>c. cf_rollout_id c \<noteq> cf_rollout_id cfg)
         (map repo_rollout_of (st_rollouts (xs_store s)))))
    \<and> (\<exists>cfgs. snd (admin_rollout Get body None (Inr scan') s') = (200, RolloutsBody cfgs) \<and> mset cfgs = mset (xs_canary s'))
    \<and> filter (\<lambda>c. cf_rollout_id c = cf_rollout_id cfg) (xs_canary s') = [cfg]
    \<and> (cf_enabled cfg \<and> cf_base cfg \<noteq> cf_canary cfg \<and>
       (\<forall>c \<in> set (xs_canary s'). cf_enabled c \<and> c \<noteq> cfg \<longrightarrow> {cf_base c, cf_canary c} \<inter> {cf_base cfg, cf_canary cfg} = {}) \<longrightarrow>
         sq_rollout_weights (route_sreq s' env req) (cf_canary cfg) = Some (cf_pct cfg) \<and>
         sq_rollout_weights (route_sreq s' env req) (cf_base cfg) = Some (f64_sub f64_one (cf_pct cfg)))
    \<and> (\<not> cf_enabled cfg \<and> (\<forall>c \<in> set (xs_canary s'). c \<noteq> cfg \<longrightarrow> cf_canary cfg \<notin> {cf_base c, cf_canary c}) \<longrightarrow>
         sq_rollout_weights (route_sreq s' env req) (cf_canary cfg) = None \<and> rollout_of (route_sreq s' env req) (cf_canary cfg) = f64_one)"
proof -
  obtain rows where rows: "st_rollouts (xs_store s') = filter (\<lambda>x. pr_rollout_id x \<noteq> cf_rollout_id cfg) (st_rollouts (xs_store s)) @ [rows]"
      "repo_rollout_of rows = cfg"
    and canary: "xs_canary s' = map repo_rollout_of (scan (st_rollouts (xs_store s')))" and r: "fst reply = 200"
    using assms(1) by (auto simp: admin_rollout_def upsert_rollout_def load_rollouts_def canary_reload_def Let_def
        repo_rollout_of_def repo_b2i_def)
  have id: "cf_rollout_id (repo_rollout_of x) = pr_rollout_id x" for x by (simp add: repo_rollout_of_def)
  have table: "mset (xs_canary s') = mset (map repo_rollout_of (st_rollouts (xs_store s')))"
    by (simp add: canary assms(2))
  then have all: "mset (xs_canary s') = add_mset cfg (mset (filter (\<lambda>c. cf_rollout_id c \<noteq> cf_rollout_id cfg)
         (map repo_rollout_of (st_rollouts (xs_store s)))))"
    by (simp add: rows filter_map o_def id)
  have "mset (xs_canary s') = mset (cfg # filter (\<lambda>c. cf_rollout_id c \<noteq> cf_rollout_id cfg) (map repo_rollout_of (st_rollouts (xs_store s))))"
    by (simp add: all)
  then have "mset (filter (\<lambda>c. cf_rollout_id c = cf_rollout_id cfg) (xs_canary s'))
      = mset (filter (\<lambda>c. cf_rollout_id c = cf_rollout_id cfg)
          (cfg # filter (\<lambda>c. cf_rollout_id c \<noteq> cf_rollout_id cfg) (map repo_rollout_of (st_rollouts (xs_store s)))))"
    by (metis mset_filter)
  also have "\<dots> = {#cfg#}" by simp
  finally have "mset (filter (\<lambda>c. cf_rollout_id c = cf_rollout_id cfg) (xs_canary s')) = {#cfg#}" .
  then have one: "filter (\<lambda>c. cf_rollout_id c = cf_rollout_id cfg) (xs_canary s') = [cfg]"
    by (simp only: mset_single_iff_right mset_single_iff)
  have mem: "cfg \<in> set (xs_canary s')" using one by (metis filter_eq_ConsD in_set_conv_decomp)
  have w: "sq_rollout_weights (route_sreq s' env req) = canary_weights (xs_canary s')"
    by (simp add: route_sreq_def route_scoring_request_def)
  have "rollout_of (route_sreq s' env req) k = f64_one" if "sq_rollout_weights (route_sreq s' env req) k = None" for k
  proof -
    have "f64_eq f64_zero f64_zero" by code_simp
    then show ?thesis using that by (simp add: rollout_of_def)
  qed
  moreover have "canary_weights (xs_canary s') (cf_canary cfg) = None"
    if "\<not> cf_enabled cfg" "\<forall>c \<in> set (xs_canary s'). c \<noteq> cfg \<longrightarrow> cf_canary cfg \<notin> {cf_base c, cf_canary c}"
    by (rule router_shares.no_weight) (metis that)
  moreover have "canary_weights (xs_canary s') (cf_canary cfg) = Some (cf_pct cfg) \<and>
      canary_weights (xs_canary s') (cf_base cfg) = Some (f64_sub f64_one (cf_pct cfg))"
    if "cf_enabled cfg" "cf_base cfg \<noteq> cf_canary cfg"
      "\<forall>c \<in> set (xs_canary s'). cf_enabled c \<and> c \<noteq> cfg \<longrightarrow> {cf_base c, cf_canary c} \<inter> {cf_base cfg, cf_canary cfg} = {}"
    using router_shares.weight_alone [of cfg "xs_canary s'"] that mem by blast
  moreover have "\<exists>cfgs. snd (admin_rollout Get body None (Inr scan') s') = (200, RolloutsBody cfgs) \<and> mset cfgs = mset (xs_canary s')"
    by (simp add: admin_rollout_def load_rollouts_def Let_def table assms(3))
  ultimately show ?thesis using r one all unfolding w by blast
qed

definition demo_canary :: repo_rollout where
  "demo_canary = \<lparr>cf_rollout_id = ''r1'', cf_base = ''m'', cf_canary = ''c'', cf_pct = f64_const 1 10, cf_auto = True,
     cf_max_p99_ratio = f64_of_int 2, cf_max_error_rate = f64_const 5 100, cf_enabled = True\<rparr>"

theorem rollout_post_live_witness:
  "sq_rollout_weights (route_sreq (fst (admin_rollout Post (Inr demo_canary) None (Inr rev) (demo_router 0)))
       (demo_route_env (\<lambda>c r. Inl (Plain ''down''))) demo_route_request) ''c'' = Some (f64_const 1 10)"
proof -
  obtain s' reply where r: "admin_rollout Post (Inr demo_canary) None (Inr rev) (demo_router 0) = (s', reply)" by (meson surj_pair)
  have m: "\<And>rows :: repo_rollout_row list. mset (rev rows) = mset rows" by simp
  note live = rollout_post_live [OF r m m]
  have "mset (xs_canary s') = {#demo_canary#}" using live by (simp add: demo_router_def fresh_store_def)
  then have "xs_canary s' = [demo_canary]" by simp
  then show ?thesis
    using live [of undefined "demo_route_env (\<lambda>c r. Inl (Plain ''down''))" demo_route_request] r by (simp add: demo_canary_def)
qed

end
