(* ===== verification/Scheduler.thy ===== *)
theory Scheduler
  imports Batcher
begin

section \<open>The scheduler service\<close>

text \<open>
  \<open>services/scheduler/cmd/main.go\<close>: the service that owns the queue registry and the
  batchers. \<open>Schedule\<close> is two atomic halves with a wait between them: it gets the batcher,
  enqueues the item and blocks in a \<open>select\<close> until a result, the deadline or the context
  is ready; \<open>schedule_submit\<close> is the first half and \<open>schedule_await\<close> the branch the
  \<open>select\<close> takes. The step relation at the end interleaves the halves of all requests with
  the parts of the batcher loops' turns: taking a batch, each reply, and its end.
\<close>

subsection \<open>State\<close>

record scheduler_metrics =
  sm_enqueued :: int64
  sm_dispatched :: int64
  sm_load_shedded :: int64
  sm_errors :: int64

record 'c scheduler_service =
  sv_queues :: registry
  sv_batchers :: "string \<rightharpoonup> 'c batcher"
  sv_metrics :: batch_metrics
  sv_smetrics :: scheduler_metrics
  sv_cfg :: config
  sv_db :: "batch_log_row list option"
  sv_exec_addr :: string
  sv_cancelled :: bool

definition new_scheduler_service :: "batch_log_row list option \<Rightarrow> string \<Rightarrow> 'c scheduler_service" where
  "new_scheduler_service db execAddr =
     \<lparr>sv_queues = new_registry 10000, sv_batchers = Map.empty, sv_metrics = zero_batch_metrics,
      sv_smetrics = \<lparr>sm_enqueued = 0, sm_dispatched = 0, sm_load_shedded = 0, sm_errors = 0\<rparr>,
      sv_cfg = default_config, sv_db = db, sv_exec_addr = execAddr, sv_cancelled = False\<rparr>"

subsection \<open>Operations\<close>

definition get_batcher :: "'c scheduler_service \<Rightarrow> string \<Rightarrow> string \<Rightarrow> 'c scheduler_service \<times> 'c batcher" where
  "get_batcher s modelID execAddr =
     (case sv_batchers s modelID of
        Some b \<Rightarrow> (s, b)
      | None \<Rightarrow>
          let (queues, q) = registry_queue (sv_queues s) modelID;
              b = new_batcher modelID execAddr (sv_cfg s) (sv_db s)
          in (s\<lparr>sv_queues := queues, sv_batchers := (sv_batchers s)(modelID \<mapsto> b)\<rparr>, b))"

definition count_enqueued :: "'c scheduler_service \<Rightarrow> 'c scheduler_service" where
  "count_enqueued s = s\<lparr>sv_smetrics := (sv_smetrics s)\<lparr>sm_enqueued := sm_enqueued (sv_smetrics s) + 1\<rparr>\<rparr>"

definition count_dispatched :: "'c scheduler_service \<Rightarrow> 'c scheduler_service" where
  "count_dispatched s = s\<lparr>sv_smetrics := (sv_smetrics s)\<lparr>sm_dispatched := sm_dispatched (sv_smetrics s) + 1\<rparr>\<rparr>"

definition count_shed :: "'c scheduler_service \<Rightarrow> 'c scheduler_service" where
  "count_shed s = s\<lparr>sv_smetrics := (sv_smetrics s)\<lparr>sm_load_shedded := sm_load_shedded (sv_smetrics s) + 1\<rparr>\<rparr>"

definition count_error :: "'c scheduler_service \<Rightarrow> 'c scheduler_service" where
  "count_error s = s\<lparr>sv_smetrics := (sv_smetrics s)\<lparr>sm_errors := sm_errors (sv_smetrics s) + 1\<rparr>\<rparr>"

definition schedule_submit :: "'c scheduler_service \<Rightarrow> time \<Rightarrow> inference_request \<Rightarrow> string \<Rightarrow> string \<Rightarrow> nat \<Rightarrow>
    'c scheduler_service \<times> item result" where
  "schedule_submit s now req modelID execAddr ch =
     (let s = count_enqueued s;
          (s, b) = get_batcher s modelID execAddr;
          (queues, q) = registry_queue (sv_queues s) modelID;
          item = \<lparr>it_req = req, it_executor_addr = modelID, it_enqueued_at = now, it_result_ch = ch\<rparr>;
          (q, ok) = enqueue q item;
          s = s\<lparr>sv_queues := registry_set queues modelID q\<rparr>
      in if \<not> ok
         then (count_shed s, Inl (Status ResourceExhausted
                (''queue full for model '' @ modelID @ '' (depth='' @ show_nat (depth q) @ '')'')))
         else (s, Inr item))"

definition schedule_deadline :: "time \<Rightarrow> inference_request \<Rightarrow> time" where
  "schedule_deadline now req =
     (if 0 < sint (ir_deadline_unix_ms req) then unix_milli_time (ir_deadline_unix_ms req)
      else now + 60 * second)"

datatype wait_event = Received queue_result | TimerFired | CtxDone

definition schedule_await :: "'c scheduler_service \<Rightarrow> inference_request \<Rightarrow> wait_event \<Rightarrow>
    'c scheduler_service \<times> inference_response option result" where
  "schedule_await s req event =
     (case event of
        Received r \<Rightarrow>
          (case qr_err r of
             Some e \<Rightarrow> (count_error s, Inl e)
           | None \<Rightarrow> (count_dispatched s, Inr (qr_resp r)))
      | TimerFired \<Rightarrow>
          (count_error s, Inl (Status DeadlineExceeded (''request '' @ ir_request_id req @ '' timed out in scheduler'')))
      | CtxDone \<Rightarrow> (s, Inl (Status Canceled (''request '' @ ir_request_id req @ '' cancelled''))))"

definition stop :: "'c scheduler_service \<Rightarrow> 'c scheduler_service" where
  "stop s = s\<lparr>sv_cancelled := True\<rparr>"

record scheduler_stats =
  st_enqueued :: int64
  st_dispatched :: int64
  st_load_shedded :: int64
  st_errors :: int64
  st_avg_batch_size :: f64
  st_batches :: int64
  st_queue_depths :: "string \<rightharpoonup> nat"

definition service_stats :: "'c scheduler_service \<Rightarrow> scheduler_stats" where
  "service_stats s =
     \<lparr>st_enqueued = sm_enqueued (sv_smetrics s), st_dispatched = sm_dispatched (sv_smetrics s),
      st_load_shedded = sm_load_shedded (sv_smetrics s), st_errors = sm_errors (sv_smetrics s),
      st_avg_batch_size = avg_batch_size (sv_metrics s),
      st_batches = bm_batches_dispatched (sv_metrics s), st_queue_depths = all_depths (sv_queues s)\<rparr>"

text \<open>The gRPC endpoint in front of \<open>schedule_submit\<close>.\<close>

record schedule_request =
  sr_request :: "inference_request option"
  sr_model_id :: string
  sr_executor_addr :: string

definition schedule_handler :: "'c scheduler_service \<Rightarrow> time \<Rightarrow> schedule_request \<Rightarrow> nat \<Rightarrow>
    'c scheduler_service \<times> item result" where
  "schedule_handler s now req ch =
     (case sr_request req of
        None \<Rightarrow> (s, Inl (Status InvalidArgument ''request is required''))
      | Some r \<Rightarrow> schedule_submit s now r (sr_model_id req) (sr_executor_addr req) ch)"

interpretation batchers: lazy_registry sv_batchers "\<lambda>s k. get_batcher s k addr"
    "\<lambda>s k. new_batcher k addr (sv_cfg s) (sv_db s)" for addr
  by unfold_locales (auto simp: get_batcher_def Let_def case_prod_unfold split: option.splits)

subsection \<open>Interleaving\<close>

text \<open>
  A batcher's turn is not one step: while the goroutines of a batch wait for \<open>Execute\<close>
  (thirty seconds at most), the drained items are in no queue and have no result. A batch
  in flight is what the loop's stack then holds: the items of the batch, the client, and the
  items not answered yet.
\<close>

record 'c flight =
  fl_items :: "item list"
  fl_client :: "'c option result"
  fl_left :: "item list"

text \<open>
  A state of the whole scheduler: the service, the result channels, the first channel name
  not yet used, the batch in flight of each model, the items whose callers still wait, and
  the number of calls whose context ended (which the service does not count).
\<close>

record 'c sched_state =
  ss_service :: "'c scheduler_service"
  ss_chans :: channels
  ss_next :: nat
  ss_flights :: "string \<rightharpoonup> 'c flight"
  ss_waiting :: "item list"
  ss_shed :: nat
  ss_answered :: nat
  ss_failed :: nat
  ss_cancelled :: nat

definition initial_state :: "batch_log_row list option \<Rightarrow> string \<Rightarrow> 'c sched_state" where
  "initial_state db addr =
     \<lparr>ss_service = new_scheduler_service db addr, ss_chans = (\<lambda>c. []), ss_next = 0,
      ss_flights = Map.empty, ss_waiting = [], ss_shed = 0, ss_answered = 0, ss_failed = 0, ss_cancelled = 0\<rparr>"

text \<open>A turn of a batcher's loop, with its effects stored where the pointers lead.\<close>

definition service_turn :: "'c world \<Rightarrow> string \<Rightarrow> 'c scheduler_service \<Rightarrow> channels \<Rightarrow>
    ('c scheduler_service \<times> channels) option" where
  "service_turn w modelID s ch =
     (case (sv_batchers s modelID, rg_queues (sv_queues s) modelID) of
        (Some b, Some q) \<Rightarrow>
          (case loop_turn w b q (sv_metrics s) ch of
             None \<Rightarrow> None
           | Some (b, q, m, ch) \<Rightarrow>
               Some (s\<lparr>sv_batchers := (sv_batchers s)(modelID \<mapsto> b),
                       sv_queues := registry_set (sv_queues s) modelID q, sv_metrics := m\<rparr>, ch))
      | _ \<Rightarrow> None)"

text \<open>
  The parts of a turn that other goroutines can tell apart: the drain takes the batch out of
  the queue, each item is answered when its call returns (a failed dial answers them in the
  batch's order), and when all are answered the batch is recorded.
\<close>

definition service_take :: "'c world \<Rightarrow> string \<Rightarrow> 'c scheduler_service \<Rightarrow>
    ('c scheduler_service \<times> 'c flight) option" where
  "service_take w modelID s =
     (case (sv_batchers s modelID, rg_queues (sv_queues s) modelID) of
        (Some b, Some q) \<Rightarrow>
          (case take_batch w b q of
             None \<Rightarrow> None
           | Some (b, q, items, client) \<Rightarrow>
               Some (s\<lparr>sv_batchers := (sv_batchers s)(modelID \<mapsto> b),
                       sv_queues := registry_set (sv_queues s) modelID q\<rparr>,
                     \<lparr>fl_items = items, fl_client = client, fl_left = items\<rparr>))
      | _ \<Rightarrow> None)"

definition service_end :: "'c world \<Rightarrow> string \<Rightarrow> 'c scheduler_service \<Rightarrow> 'c flight \<Rightarrow>
    'c scheduler_service option" where
  "service_end w modelID s fl =
     (case sv_batchers s modelID of
        None \<Rightarrow> None
      | Some b \<Rightarrow>
          (case end_batch w b (sv_metrics s) (fl_client fl) (length (fl_items fl)) of
             None \<Rightarrow> None
           | Some (b, m) \<Rightarrow>
               Some (s\<lparr>sv_batchers := (sv_batchers s)(modelID \<mapsto> b), sv_metrics := m\<rparr>)))"

inductive sched_step :: "'c sched_state \<Rightarrow> 'c sched_state \<Rightarrow> bool" where
  submit: "schedule_submit (ss_service st) now req m addr (ss_next st) = (s', Inr i) \<Longrightarrow>
    sched_step st (st\<lparr>ss_service := s', ss_next := ss_next st + 1, ss_waiting := i # ss_waiting st\<rparr>)"
| shed: "schedule_submit (ss_service st) now req m addr (ss_next st) = (s', Inl e) \<Longrightarrow>
    sched_step st (st\<lparr>ss_service := s', ss_next := ss_next st + 1, ss_shed := ss_shed st + 1\<rparr>)"
| take: "ss_flights st m = None \<Longrightarrow> service_take w m (ss_service st) = Some (s', fl) \<Longrightarrow>
    sched_step st (st\<lparr>ss_service := s', ss_flights := (ss_flights st)(m := if fl_items fl = [] then None else Some fl)\<rparr>)"
| reply: "ss_flights st m = Some fl \<Longrightarrow> i \<in> set (fl_left fl) \<Longrightarrow>
    (\<And>e. fl_client fl = Inl e \<Longrightarrow> i = hd (fl_left fl)) \<Longrightarrow>
    reply_of w (fl_client fl) i = Some r \<Longrightarrow> send (it_result_ch i) r (ss_chans st) = Some ch' \<Longrightarrow>
    sched_step st (st\<lparr>ss_chans := ch', ss_flights := (ss_flights st)(m \<mapsto> fl\<lparr>fl_left := remove1 i (fl_left fl)\<rparr>)\<rparr>)"
| finish: "ss_flights st m = Some fl \<Longrightarrow> fl_left fl = [] \<Longrightarrow>
    service_end w m (ss_service st) fl = Some s' \<Longrightarrow>
    sched_step st (st\<lparr>ss_service := s', ss_flights := (ss_flights st)(m := None)\<rparr>)"
| answer: "i \<in> set (ss_waiting st) \<Longrightarrow> ss_chans st (it_result_ch i) = [r] \<Longrightarrow>
    schedule_await (ss_service st) (it_req i) (Received r) = (s', Inr resp) \<Longrightarrow>
    sched_step st (st\<lparr>ss_service := s', ss_chans := (ss_chans st)(it_result_ch i := []), ss_waiting := remove1 i (ss_waiting st), ss_answered := ss_answered st + 1\<rparr>)"
| failure: "i \<in> set (ss_waiting st) \<Longrightarrow> ss_chans st (it_result_ch i) = [r] \<Longrightarrow>
    schedule_await (ss_service st) (it_req i) (Received r) = (s', Inl e) \<Longrightarrow>
    sched_step st (st\<lparr>ss_service := s', ss_chans := (ss_chans st)(it_result_ch i := []), ss_waiting := remove1 i (ss_waiting st), ss_failed := ss_failed st + 1\<rparr>)"
| expire: "i \<in> set (ss_waiting st) \<Longrightarrow>
    schedule_await (ss_service st) (it_req i) TimerFired = (s', Inl e) \<Longrightarrow>
    sched_step st (st\<lparr>ss_service := s', ss_waiting := remove1 i (ss_waiting st), ss_failed := ss_failed st + 1\<rparr>)"
| cancel: "i \<in> set (ss_waiting st) \<Longrightarrow>
    schedule_await (ss_service st) (it_req i) CtxDone = (s', Inl e) \<Longrightarrow>
    sched_step st (st\<lparr>ss_service := s', ss_waiting := remove1 i (ss_waiting st), ss_cancelled := ss_cancelled st + 1\<rparr>)"

inductive_cases sched_stepE: "sched_step st st'"

inductive reachable :: "'c sched_state \<Rightarrow> bool" where
  init: "reachable (initial_state db addr)"
| step: "reachable st \<Longrightarrow> sched_step st st' \<Longrightarrow> reachable st'"

subsection \<open>What the halves do\<close>

definition queue_of :: "'c scheduler_service \<Rightarrow> string \<Rightarrow> model_queue" where
  "queue_of s m = (case rg_queues (sv_queues s) m of Some q \<Rightarrow> q | None \<Rightarrow> new_model_queue (rg_max_depth (sv_queues s)))"

definition batcher_for :: "'c scheduler_service \<Rightarrow> string \<Rightarrow> string \<Rightarrow> 'c batcher" where
  "batcher_for s m addr = (case sv_batchers s m of Some b \<Rightarrow> b | None \<Rightarrow> new_batcher m addr (sv_cfg s) (sv_db s))"

definition pend :: "'c scheduler_service \<Rightarrow> string \<Rightarrow> item list" where
  "pend s m = (case rg_queues (sv_queues s) m of Some q \<Rightarrow> service_order q | None \<Rightarrow> [])"

definition submitted :: "'c scheduler_service \<Rightarrow> string \<Rightarrow> string \<Rightarrow> item \<Rightarrow> 'c scheduler_service" where
  "submitted s m addr i = (count_enqueued s)\<lparr>
     sv_queues := (sv_queues s)\<lparr>rg_queues := (rg_queues (sv_queues s))(m \<mapsto> fst (enqueue (queue_of s m) i))\<rparr>,
     sv_batchers := (sv_batchers s)(m \<mapsto> batcher_for s m addr)\<rparr>"

lemma schedule_submit_eq:
  "schedule_submit s now req m addr c =
     (let i = \<lparr>it_req = req, it_executor_addr = m, it_enqueued_at = now, it_result_ch = c\<rparr>;
          s' = submitted s m addr i
      in if snd (enqueue (queue_of s m) i) then (s', Inr i)
         else (count_shed s', Inl (Status ResourceExhausted
                (''queue full for model '' @ m @ '' (depth='' @ show_nat (depth (fst (enqueue (queue_of s m) i))) @ '')''))))"
  by (cases "sv_batchers s m"; cases "rg_queues (sv_queues s) m"; cases s)
    (simp_all add: count_shed_def schedule_submit_def get_batcher_def registry_queue_def registry_set_def queue_of_def
      batcher_for_def submitted_def count_enqueued_def case_prod_unfold Let_def fun_upd_idem)

lemma pend_queue_of: "service_order (queue_of s m) = pend s m"
  by (simp add: pend_def queue_of_def split: option.split)

lemma pend_submitted:
  "pend (submitted s m addr i) m' = (if m' = m then service_order (fst (enqueue (queue_of s m) i)) else pend s m')"
  by (simp add: pend_def submitted_def)

lemma count_frame [simp, frame]:
  "sv_queues (count_shed s) = sv_queues s" "sv_batchers (count_shed s) = sv_batchers s"
  "sv_queues (count_error s) = sv_queues s" "sv_batchers (count_error s) = sv_batchers s"
  "sv_queues (count_dispatched s) = sv_queues s" "sv_batchers (count_dispatched s) = sv_batchers s"
  "sv_queues (count_enqueued s) = sv_queues s" "sv_batchers (count_enqueued s) = sv_batchers s"
  "pend (count_shed s) = pend s" "pend (count_error s) = pend s"
  "pend (count_dispatched s) = pend s" "pend (count_enqueued s) = pend s"
  by (simp_all add: count_shed_def count_error_def count_dispatched_def count_enqueued_def pend_def fun_eq_iff)

lemma schedule_await_cases:
  assumes "schedule_await s req ev = (s', res)"
  shows "(s' = count_error s \<or> s' = count_dispatched s \<or> s' = s)
    \<and> (s' = s \<or> ev \<noteq> CtxDone) \<and> ((\<exists>r. res = Inr r) \<longrightarrow> s' = count_dispatched s)
    \<and> ((\<exists>e. res = Inl e) \<longrightarrow> ev \<noteq> CtxDone \<longrightarrow> s' = count_error s) \<and> (ev = CtxDone \<longrightarrow> s' = s)"
  using assms by (auto simp: schedule_await_def split: wait_event.splits option.splits)

text \<open>What the parts of a turn do to the batcher and the queue.\<close>

lemma take_batch_Some:
  assumes "take_batch w b q = Some (b', q', items, client)"
  shows "items @ service_order q' = service_order q" "q' = snd (drain q (cf_max_batch_size (b_cfg b)))"
    "b_cfg b' = b_cfg b" "b_latency b' = b_latency b"
  using assms mq.batch_split [of q "cf_max_batch_size (b_cfg b)"]
  by (auto simp: take_batch_def exec_client_lazy_def case_prod_unfold Let_def
      split: option.splits if_splits sum.splits)

lemma batch_done_Some:
  assumes "batcher_of xs b"
  obtains b' where "batch_done w b m n = Some (b', metrics_record m n)"
    "batcher_of (xs @ [f64_of_int (to_millis (w_elapsed w))]) b'" "b_cfg b' = b_cfg b"
proof -
  let ?t = "f64_of_int (to_millis (w_elapsed w))"
  have h: "hist_of 1000 xs (b_latency b)" using assms by (simp add: batcher_of_def)
  obtain h' where h': "hist_record (b_latency b) ?t = Some h'" using hist_record_Some [OF h] by auto
  have bo: "batcher_of (xs @ [?t]) (b\<lparr>b_latency := h'\<rparr>)"
    using hist_record_of [OF h _ h'] by (simp add: batcher_of_def)
  obtain wt where "adaptive_wait (b\<lparr>b_latency := h'\<rparr>) (w_depth w) = Some wt"
    using adaptive_wait_Some [OF bo] by metis
  then show ?thesis
    using bo by (intro that [of "log_batch (b\<lparr>b_latency := h'\<rparr>) (w_nanos w) n (f64_of_int wt) ?t [] (w_insert_ok w)"])
      (simp_all add: batch_done_def h' batcher_of_def)
qed

lemma end_batch_Some:
  assumes "batcher_of xs b"
  obtains b' m' xs' where "end_batch w b m client n = Some (b', m')" "batcher_of xs' b'" "b_cfg b' = b_cfg b"
proof (cases client)
  case (Inl e)
  then show ?thesis using assms by (intro that [of b m xs]) (simp_all add: end_batch_def)
next
  case (Inr c)
  obtain b' where "batch_done w b m n = Some (b', metrics_record m n)"
    "batcher_of (xs @ [f64_of_int (to_millis (w_elapsed w))]) b'" "b_cfg b' = b_cfg b"
    using batch_done_Some [OF assms, of w m n] by metis
  then show ?thesis
    using Inr by (intro that [of b' "metrics_record m n"]) (simp_all add: end_batch_def)
qed

subsection \<open>The invariant of the interleaved system\<close>

definition channels_inv :: "(string \<Rightarrow> item list) \<Rightarrow> channels \<Rightarrow> nat \<Rightarrow> bool" where
  "channels_inv p ch n \<longleftrightarrow>
     (\<forall>m. distinct (map it_result_ch (p m)))
     \<and> (\<forall>m. \<forall>i \<in> set (p m). it_result_ch i < n \<and> ch (it_result_ch i) = [] \<and> it_executor_addr i = m)
     \<and> (\<forall>m m'. \<forall>i \<in> set (p m). \<forall>j \<in> set (p m'). it_result_ch i = it_result_ch j \<longrightarrow> m = m')
     \<and> (\<forall>c \<ge> n. ch c = [])"

definition waiting_inv :: "(string \<Rightarrow> item list) \<Rightarrow> channels \<Rightarrow> nat \<Rightarrow> item list \<Rightarrow> bool" where
  "waiting_inv p ch n w \<longleftrightarrow> distinct (map it_result_ch w)
     \<and> (\<forall>i \<in> set w. it_result_ch i < n
          \<and> (i \<in> set (p (it_executor_addr i)) \<or> (\<exists>r. ch (it_result_ch i) = [r])))"

text \<open>The items of a model that are owed a result: those in flight and those in its queue.\<close>

definition owed :: "(string \<rightharpoonup> 'c flight) \<Rightarrow> 'c scheduler_service \<Rightarrow> string \<Rightarrow> item list" where
  "owed fs s m = (case fs m of None \<Rightarrow> [] | Some fl \<Rightarrow> fl_left fl) @ pend s m"

definition flights_inv :: "(string \<rightharpoonup> 'c flight) \<Rightarrow> 'c scheduler_service \<Rightarrow> bool" where
  "flights_inv fs s \<longleftrightarrow> (\<forall>m. fs m \<noteq> None \<longrightarrow> sv_batchers s m \<noteq> None)"

definition queues_inv :: "'c scheduler_service \<Rightarrow> bool" where
  "queues_inv s \<longleftrightarrow> rg_max_depth (sv_queues s) = 10000
     \<and> (\<forall>m q. rg_queues (sv_queues s) m = Some q \<longrightarrow> queue_inv q \<and> mq_max_depth q = 10000)
     \<and> (\<forall>m b. sv_batchers s m = Some b \<longrightarrow>
          (\<exists>xs. batcher_of xs b) \<and> b_cfg b = sv_cfg s \<and> rg_queues (sv_queues s) m \<noteq> None)"

definition account_inv :: "'c sched_state \<Rightarrow> bool" where
  "account_inv st \<longleftrightarrow> (let k = sv_smetrics (ss_service st) in
     sm_load_shedded k = of_nat (ss_shed st) \<and> sm_dispatched k = of_nat (ss_answered st)
     \<and> sm_errors k = of_nat (ss_failed st)
     \<and> sm_enqueued k = of_nat (ss_shed st + ss_answered st + ss_failed st + ss_cancelled st + length (ss_waiting st)))"

definition sched_inv :: "'c sched_state \<Rightarrow> bool" where
  "sched_inv st \<longleftrightarrow> queues_inv (ss_service st) \<and> account_inv st \<and> flights_inv (ss_flights st) (ss_service st)
     \<and> channels_inv (owed (ss_flights st) (ss_service st)) (ss_chans st) (ss_next st)
     \<and> waiting_inv (owed (ss_flights st) (ss_service st)) (ss_chans st) (ss_next st) (ss_waiting st)"

lemma sched_inv_init: "sched_inv (initial_state db addr)"
  by (simp add: sched_inv_def queues_inv_def account_inv_def channels_inv_def waiting_inv_def
      flights_inv_def owed_def initial_state_def new_scheduler_service_def new_registry_def pend_def)

lemma queues_inv_count [simp]:
  "queues_inv (count_shed s) = queues_inv s" "queues_inv (count_error s) = queues_inv s"
  "queues_inv (count_dispatched s) = queues_inv s" "queues_inv (count_enqueued s) = queues_inv s"
  by (simp_all add: queues_inv_def count_shed_def count_error_def count_dispatched_def count_enqueued_def)

lemma owed_count [simp]:
  "owed fs (count_shed s) = owed fs s" "owed fs (count_error s) = owed fs s"
  "owed fs (count_dispatched s) = owed fs s" "owed fs (count_enqueued s) = owed fs s"
  by (simp_all add: owed_def fun_eq_iff)

lemma flights_inv_count [simp]:
  "flights_inv fs (count_shed s) = flights_inv fs s" "flights_inv fs (count_error s) = flights_inv fs s"
  "flights_inv fs (count_dispatched s) = flights_inv fs s" "flights_inv fs (count_enqueued s) = flights_inv fs s"
  by (simp_all add: flights_inv_def)

lemma flights_inv_submitted [invariants]: "flights_inv fs s \<Longrightarrow> flights_inv fs (submitted s m addr i)"
  by (simp add: flights_inv_def submitted_def)

lemma queues_inv_submitted [invariants]:
  assumes "queues_inv s"
  shows "queues_inv (submitted s m addr i)"
proof -
  have "queue_inv (queue_of s m) \<and> mq_max_depth (queue_of s m) = 10000"
    using assms by (auto simp: queues_inv_def queue_of_def new_model_queue_inv split: option.splits)
      (simp add: new_model_queue_def)
  moreover have "(\<exists>xs. batcher_of xs (batcher_for s m addr)) \<and> b_cfg (batcher_for s m addr) = sv_cfg s"
    using assms batcher_of_new [of m addr "sv_cfg s" "sv_db s"]
    by (auto simp: queues_inv_def batcher_for_def split: option.splits intro: exI)
  moreover have "sv_cfg (submitted s m addr i) = sv_cfg s" by (simp add: submitted_def count_enqueued_def)
  ultimately show ?thesis
    using assms by (auto simp: queues_inv_def submitted_def enqueue_inv)
qed

lemma set_submitted:
  "set (pend (submitted s m addr i) m') =
     (if m' = m \<and> snd (enqueue (queue_of s m) i) then insert i (set (pend s m)) else set (pend s m'))"
proof -
  have "set (service_order (fst (enqueue (queue_of s m) i)))
      = (if snd (enqueue (queue_of s m) i) then insert i (set (pend s m)) else set (pend s m))"
    using arg_cong [OF enqueue_mset [of "queue_of s m" i], of set_mset] by (simp add: pend_queue_of)
  then show ?thesis by (simp add: pend_submitted)
qed

lemma owed_submitted:
  "mset (owed fs (submitted s m addr i) k)
    = mset (owed fs s k) + (if k = m \<and> snd (enqueue (queue_of s m) i) then {#i#} else {#})"
  by (simp add: owed_def pend_submitted enqueue_mset pend_queue_of)

text \<open>A new item, on a new channel.\<close>

lemma channels_inv_add [invariants]:
  assumes "channels_inv p ch n" "it_result_ch i = n" "it_executor_addr i = m"
    and p': "\<And>k. mset (p' k) = mset (p k) + (if k = m \<and> ok then {#i#} else {#})"
  shows "channels_inv p' ch (Suc n)"
proof -
  have fresh: "it_result_ch j \<noteq> n" if "j \<in> set (p k)" for j k
    using assms(1) that by (auto simp: channels_inv_def)
  have dist: "distinct (map it_result_ch (p' k))" for k
  proof -
    have "mset (map it_result_ch (p' k)) = mset (map it_result_ch ((if k = m \<and> ok then [i] else []) @ p k))"
      by (simp add: p')
    then have "distinct (map it_result_ch (p' k))
        = distinct (map it_result_ch ((if k = m \<and> ok then [i] else []) @ p k))"
      by (rule mset_eq_imp_distinct_iff)
    moreover have "it_result_ch i \<notin> it_result_ch ` set (p k)" using fresh assms(2) by fastforce
    ultimately show ?thesis using assms(1) by (cases "k = m \<and> ok") (auto simp: channels_inv_def)
  qed
  have mem: "j = i \<and> k = m \<or> j \<in> set (p k)" if "j \<in> set (p' k)" for j k
    using that arg_cong [OF p' [of k], of set_mset] by (auto split: if_splits)
  have "it_result_ch j < Suc n \<and> ch (it_result_ch j) = [] \<and> it_executor_addr j = k"
    if "j \<in> set (p' k)" for j k
    using mem [OF that] assms(1-3) unfolding channels_inv_def by fastforce
  moreover have "k = k'" if "j \<in> set (p' k)" "j' \<in> set (p' k')" "it_result_ch j = it_result_ch j'" for j j' k k'
    using mem [OF that(1)] mem [OF that(2)] that(3) fresh assms(1,2) unfolding channels_inv_def by metis
  moreover have "\<forall>c \<ge> Suc n. ch c = []" using assms(1) by (simp add: channels_inv_def)
  ultimately show ?thesis using dist unfolding channels_inv_def by blast
qed

lemma waiting_inv_add:
  assumes "waiting_inv p ch n w" "it_result_ch i = n" "it_executor_addr i = m"
    and p': "\<And>k. mset (p' k) = mset (p k) + (if k = m \<and> ok then {#i#} else {#})"
  shows "waiting_inv p' ch (Suc n) w" and "ok \<Longrightarrow> waiting_inv p' ch (Suc n) (i # w)"
proof -
  have "set (p' k) = (if k = m \<and> ok then insert i (set (p k)) else set (p k))" for k
    using arg_cong [OF p' [of k], of set_mset] by simp
  then show "waiting_inv p' ch (Suc n) w" "ok \<Longrightarrow> waiting_inv p' ch (Suc n) (i # w)"
    using assms(1-3) by (auto simp: waiting_inv_def less_Suc_eq split: if_splits)
qed

lemma channels_inv_free:
  assumes "channels_inv p ch n"
  shows "free ch (p m)"
  using assms by (simp add: channels_inv_def free_def)

text \<open>Some items of one model get their results.\<close>

lemma channels_inv_answered:
  assumes "channels_inv p ch n" "waiting_inv p ch n w"
    and m: "mset (p m) = mset out + mset (p' m)" and k: "\<And>k. k \<noteq> m \<Longrightarrow> mset (p' k) = mset (p k)"
    and "\<And>i. i \<in> set out \<Longrightarrow> \<exists>r. ch' (it_result_ch i) = [r]"
    and "\<And>c. c \<notin> it_result_ch ` set out \<Longrightarrow> ch' c = ch c"
  shows "channels_inv p' ch' n \<and> waiting_inv p' ch' n w"
proof -
  have set_m: "set (p m) = set out \<union> set (p' m)" using arg_cong [OF m, of set_mset] by simp
  have set_k: "set (p' k) = set (p k)" if "k \<noteq> m" for k using arg_cong [OF k [OF that], of set_mset] by simp
  have sub: "set (p' k) \<subseteq> set (p k)" for k using set_m set_k by (cases "k = m") auto
  have mm: "mset (map it_result_ch (p m)) = mset (map it_result_ch (out @ p' m))" by (simp add: m)
  have "distinct (map it_result_ch (p m))" using assms(1) unfolding channels_inv_def by blast
  then have dm: "distinct (map it_result_ch (out @ p' m))" using mm mset_eq_imp_distinct_iff by blast
  have dis: "it_result_ch i \<notin> it_result_ch ` set out" if i: "i \<in> set (p' k)" for i k
  proof
    assume "it_result_ch i \<in> it_result_ch ` set out"
    then obtain j where j: "j \<in> set out" "it_result_ch i = it_result_ch j" by blast
    then have "k = m" using assms(1) i sub [of k] set_m unfolding channels_inv_def by blast
    then show False using i j dm by auto
  qed
  have "distinct (map it_result_ch (p' k))" for k
  proof (cases "k = m")
    case True
    then show ?thesis using dm by simp
  next
    case False
    have "mset (map it_result_ch (p' k)) = mset (map it_result_ch (p k))" by (simp add: k [OF False])
    then show ?thesis using assms(1) mset_eq_imp_distinct_iff unfolding channels_inv_def by blast
  qed
  moreover have "it_result_ch i < n \<and> ch' (it_result_ch i) = [] \<and> it_executor_addr i = k"
    if i: "i \<in> set (p' k)" for i k
    using assms(1,6) dis [OF i] sub [of k] i unfolding channels_inv_def by (metis subsetD)
  moreover have "ch' c = []" if "n \<le> c" for c
  proof -
    have "it_result_ch j < n" if "j \<in> set out" for j
      using assms(1) set_m that unfolding channels_inv_def by blast
    then have "c \<notin> it_result_ch ` set out" using that by fastforce
    then show ?thesis using assms(1,6) that by (simp add: channels_inv_def)
  qed
  moreover have "\<forall>k k'. \<forall>i \<in> set (p' k). \<forall>j \<in> set (p' k'). it_result_ch i = it_result_ch j \<longrightarrow> k = k'"
    using assms(1) sub unfolding channels_inv_def by blast
  ultimately have c: "channels_inv p' ch' n" unfolding channels_inv_def by blast
  have "i \<in> set (p' (it_executor_addr i)) \<or> (\<exists>r. ch' (it_result_ch i) = [r])" if i: "i \<in> set w" for i
  proof (cases "it_result_ch i \<in> it_result_ch ` set out")
    case True
    then show ?thesis using assms(5) by auto
  next
    case False
    then have "i \<notin> set out" by blast
    with False show ?thesis
      using assms(2) i set_m set_k assms(6) by (cases "it_executor_addr i = m") (auto simp: waiting_inv_def)
  qed
  then have "waiting_inv p' ch' n w" using assms(2) unfolding waiting_inv_def by blast
  with c show ?thesis by blast
qed

lemmas channels_inv_cong = channels_inv_answered [where out = "[]", simplified]

lemma service_take_inv:
  assumes "queues_inv s" "fs m = None" "flights_inv fs s" "service_take w m s = Some (s', fl)"
  defines "fs' \<equiv> fs(m := if fl_items fl = [] then None else Some fl)"
  shows "queues_inv s'" "sv_smetrics s' = sv_smetrics s" "owed fs' s' = owed fs s" "flights_inv fs' s'"
proof -
  obtain b q b' q' items client where b: "sv_batchers s m = Some b" and q: "rg_queues (sv_queues s) m = Some q"
    and t: "take_batch w b q = Some (b', q', items, client)"
    and s': "s' = s\<lparr>sv_batchers := (sv_batchers s)(m \<mapsto> b'), sv_queues := registry_set (sv_queues s) m q'\<rparr>"
    and fl: "fl = \<lparr>fl_items = items, fl_client = client, fl_left = items\<rparr>"
    using assms(4) by (auto simp: service_take_def split: option.splits)
  note tb = take_batch_Some [OF t]
  obtain xs where "batcher_of xs b" using assms(1) b unfolding queues_inv_def by blast
  then have "batcher_of xs b'" using tb(4) by (simp add: batcher_of_def)
  then show "queues_inv s'"
    using assms(1) b q tb(3) drain_inv [of q "cf_max_batch_size (b_cfg b)"]
    by (auto simp: queues_inv_def s' registry_set_def tb(2))
  show "sv_smetrics s' = sv_smetrics s" by (simp add: s')
  show "owed fs' s' = owed fs s"
    using tb(1) assms(2) q by (auto simp: owed_def fs'_def fl s' pend_def registry_set_def fun_eq_iff)
  show "flights_inv fs' s'" using assms(3) by (simp add: flights_inv_def fs'_def s')
qed

lemma service_end_inv:
  assumes "queues_inv s" "flights_inv fs s" "fs m = Some fl" "fl_left fl = []"
    and "service_end w m s fl = Some s'"
  shows "queues_inv s'" "sv_smetrics s' = sv_smetrics s" "owed (fs(m := None)) s' = owed fs s"
    "flights_inv (fs(m := None)) s'" "pend s' = pend s"
proof -
  obtain b b' m' where b: "sv_batchers s m = Some b"
    and t: "end_batch w b (sv_metrics s) (fl_client fl) (length (fl_items fl)) = Some (b', m')"
    and s': "s' = s\<lparr>sv_batchers := (sv_batchers s)(m \<mapsto> b'), sv_metrics := m'\<rparr>"
    using assms(5) by (auto simp: service_end_def split: option.splits)
  obtain xs where xs: "batcher_of xs b" using assms(1) b unfolding queues_inv_def by blast
  have "(\<exists>xs. batcher_of xs b') \<and> b_cfg b' = b_cfg b"
    using t by (rule_tac end_batch_Some [OF xs, of w "sv_metrics s" "fl_client fl" "length (fl_items fl)"]) auto
  then show "queues_inv s'"
    using assms(1) b by (auto simp: queues_inv_def s')
  show "sv_smetrics s' = sv_smetrics s" by (simp add: s')
  show "pend s' = pend s" by (simp add: pend_def s' fun_eq_iff)
  then show "owed (fs(m := None)) s' = owed fs s" using assms(3,4) by (auto simp: owed_def fun_eq_iff)
  show "flights_inv (fs(m := None)) s'" using assms(2) by (simp add: flights_inv_def s')
qed

lemma owed_reply:
  assumes "fs m = Some fl" "i \<in> set (fl_left fl)"
  shows "mset (owed fs s m) = mset [i] + mset (owed (fs(m \<mapsto> fl\<lparr>fl_left := remove1 i (fl_left fl)\<rparr>)) s m)"
    and "k \<noteq> m \<Longrightarrow> owed (fs(m \<mapsto> fl')) s k = owed fs s k"
  using assms by (simp_all add: owed_def)

lemma waiting_inv_answer:
  assumes "channels_inv p ch n" "waiting_inv p ch n w" "i \<in> set w"
  shows "waiting_inv p ch n (remove1 i w)"
    and "channels_inv p (ch(it_result_ch i := [])) n"
    and "waiting_inv p (ch(it_result_ch i := [])) n (remove1 i w)"
proof -
  have d: "distinct (map it_result_ch w)" using assms(2) by (simp add: waiting_inv_def)
  then have dw: "distinct w" by (simp add: distinct_map)
  have ne: "it_result_ch j \<noteq> it_result_ch i" if "j \<in> set (remove1 i w)" for j
    using d dw that assms(3) by (auto simp: distinct_map inj_on_def)
  have dr: "distinct (map it_result_ch (remove1 i w))"
    using d dw by (simp add: distinct_map inj_on_def)
  show "waiting_inv p ch n (remove1 i w)"
    using assms(2) dr notin_set_remove1 by (auto simp: waiting_inv_def dw)
  show "channels_inv p (ch(it_result_ch i := [])) n"
    using assms(1) by (simp add: channels_inv_def)
  show "waiting_inv p (ch(it_result_ch i := [])) n (remove1 i w)"
    using assms(2) dr ne dw by (auto simp: waiting_inv_def)
qed

lemma length_remove1_Suc: "i \<in> set w \<Longrightarrow> length w = Suc (length (remove1 i w))"
  by (auto simp: length_remove1 dest: length_pos_if_in_set)

lemma sm_count [simp, counts]:
  "sv_smetrics (count_shed s) = (sv_smetrics s)\<lparr>sm_load_shedded := sm_load_shedded (sv_smetrics s) + 1\<rparr>"
  "sv_smetrics (count_error s) = (sv_smetrics s)\<lparr>sm_errors := sm_errors (sv_smetrics s) + 1\<rparr>"
  "sv_smetrics (count_dispatched s) = (sv_smetrics s)\<lparr>sm_dispatched := sm_dispatched (sv_smetrics s) + 1\<rparr>"
  "sv_smetrics (submitted s m addr i) = (sv_smetrics s)\<lparr>sm_enqueued := sm_enqueued (sv_smetrics s) + 1\<rparr>"
  by (simp_all add: count_shed_def count_error_def count_dispatched_def count_enqueued_def submitted_def)

lemma schedule_submit_ok:
  assumes "schedule_submit s now req m addr c = (s', Inr i)"
  shows "s' = submitted s m addr i" "it_result_ch i = c" "it_executor_addr i = m"
    "snd (enqueue (queue_of s m) i)" "it_req i = req"
  using assms by (auto simp: schedule_submit_eq Let_def split: if_splits)

lemma schedule_submit_shed:
  assumes "schedule_submit s now req m addr c = (s', Inl e)"
  obtains i where "s' = count_shed (submitted s m addr i)" "it_result_ch i = c" "it_executor_addr i = m"
    "\<not> snd (enqueue (queue_of s m) i)"
  using assms by (auto simp: schedule_submit_eq Let_def split: if_splits)

lemma sched_inv_finish:
  assumes "sched_inv st" "i \<in> set (ss_waiting st)"
    and "s' = count_error (ss_service st) \<and> f = 1 \<and> a = 0 \<and> c = 0
      \<or> s' = count_dispatched (ss_service st) \<and> a = 1 \<and> f = 0 \<and> c = 0
      \<or> s' = ss_service st \<and> c = 1 \<and> f = 0 \<and> a = 0"
    and "ch = ss_chans st \<or> ch = (ss_chans st)(it_result_ch i := [])"
  shows "sched_inv (st\<lparr>ss_service := s', ss_chans := ch, ss_waiting := remove1 i (ss_waiting st),
    ss_answered := ss_answered st + a, ss_failed := ss_failed st + f, ss_cancelled := ss_cancelled st + c\<rparr>)"
proof -
  let ?fs = "ss_flights st"
  have "queues_inv s'" "owed ?fs s' = owed ?fs (ss_service st)" "flights_inv ?fs s'"
    using assms(1,3) by (auto simp: sched_inv_def)
  moreover note waiting_inv_answer [of "owed ?fs (ss_service st)" "ss_chans st" "ss_next st" "ss_waiting st" i]
  moreover have "account_inv (st\<lparr>ss_service := s', ss_chans := ch, ss_waiting := remove1 i (ss_waiting st),
    ss_answered := ss_answered st + a, ss_failed := ss_failed st + f, ss_cancelled := ss_cancelled st + c\<rparr>)"
    using assms(1,3) length_remove1_Suc [OF assms(2)]
    by (auto simp: sched_inv_def account_inv_def Let_def)
  ultimately show ?thesis using assms(1,2,4) by (auto simp: sched_inv_def)
qed

lemma sched_inv_step [invariants]:
  assumes "sched_inv st" "sched_step st st'"
  shows "sched_inv st'"
  using assms(2)
proof cases
  case (submit now req m addr s' i)
  note ok = schedule_submit_ok [OF submit(2)]
  note add = owed_submitted [of "ss_flights st" "ss_service st" m addr i]
  show ?thesis
    using assms(1) ok channels_inv_add [OF _ ok(2,3) add] waiting_inv_add(2) [OF _ ok(2,3) add]
    by (auto simp: submit(1) sched_inv_def queues_inv_submitted flights_inv_submitted account_inv_def Let_def)
next
  case (shed now req m addr s' e)
  then obtain i where i: "s' = count_shed (submitted (ss_service st) m addr i)"
    "it_result_ch i = ss_next st" "it_executor_addr i = m"
    by (elim schedule_submit_shed)
  note add = owed_submitted [of "ss_flights st" "ss_service st" m addr i]
  show ?thesis
    using assms(1) i(1) channels_inv_add [OF _ i(2,3) add] waiting_inv_add(1) [OF _ i(2,3) add]
    by (auto simp: shed(1) sched_inv_def queues_inv_submitted flights_inv_submitted account_inv_def Let_def)
next
  case (take m w s' fl)
  have inv: "queues_inv (ss_service st)" "flights_inv (ss_flights st) (ss_service st)"
    using assms(1) by (simp_all add: sched_inv_def)
  note t = service_take_inv [where fs = "ss_flights st", OF inv(1) take(2) inv(2) take(3)]
  show ?thesis using assms(1) t by (simp add: take(1) sched_inv_def account_inv_def Let_def)
next
  case (reply m fl i w r ch')
  let ?fs = "(ss_flights st)(m \<mapsto> fl\<lparr>fl_left := remove1 i (fl_left fl)\<rparr>)"
  have "ch' = (ss_chans st)(it_result_ch i := [r])"
    using reply(6) by (simp add: send_def split: if_splits)
  then have "channels_inv (owed ?fs (ss_service st)) ch' (ss_next st)
      \<and> waiting_inv (owed ?fs (ss_service st)) ch' (ss_next st) (ss_waiting st)"
    using assms(1) owed_reply(1) [where fs = "ss_flights st" and s = "ss_service st", OF reply(2,3)]
      owed_reply(2) [where fs = "ss_flights st" and s = "ss_service st", OF reply(2,3)]
    by (intro channels_inv_answered [where p = "owed (ss_flights st) (ss_service st)" and m = m and out = "[i]"])
      (simp_all add: sched_inv_def)
  moreover have "flights_inv ?fs (ss_service st)" using assms(1) reply(2) by (simp add: sched_inv_def flights_inv_def)
  ultimately show ?thesis using assms(1) by (simp add: reply(1) sched_inv_def account_inv_def Let_def)
next
  case (finish m fl w s')
  have inv: "queues_inv (ss_service st)" "flights_inv (ss_flights st) (ss_service st)"
    using assms(1) by (simp_all add: sched_inv_def)
  note t = service_end_inv [where fs = "ss_flights st", OF inv finish(2,3,4)]
  show ?thesis using assms(1) t by (simp add: finish(1) sched_inv_def account_inv_def Let_def)
next
  case (answer i r s' resp)
  have "s' = count_dispatched (ss_service st)" using schedule_await_cases [OF answer(4)] by simp
  then show ?thesis
    using sched_inv_finish [OF assms(1) answer(2), of s' 0 1 0 "(ss_chans st)(it_result_ch i := [])"]
    by (simp add: answer(1))
next
  case (failure i r s' e)
  have "s' = count_error (ss_service st)" using schedule_await_cases [OF failure(4)] by simp
  then show ?thesis
    using sched_inv_finish [OF assms(1) failure(2), of s' 1 0 0 "(ss_chans st)(it_result_ch i := [])"]
    by (simp add: failure(1))
next
  case (expire i s' e)
  have "s' = count_error (ss_service st)" using schedule_await_cases [OF expire(3)] by simp
  then show ?thesis
    using sched_inv_finish [OF assms(1) expire(2), of s' 1 0 0 "ss_chans st"] by (simp add: expire(1))
next
  case (cancel i s' e)
  have "s' = ss_service st" using schedule_await_cases [OF cancel(3)] by simp
  then show ?thesis
    using sched_inv_finish [OF assms(1) cancel(2), of s' 0 0 1 "ss_chans st"] by (simp add: cancel(1))
qed

lemma reachable_inv: "reachable st \<Longrightarrow> sched_inv st"
  by (induction rule: reachable.induct) (auto intro: sched_inv_init sched_inv_step)

lemma queue_of_inv:
  assumes "queues_inv s"
  shows "queue_inv (queue_of s m)" "mq_max_depth (queue_of s m) = 10000"
    "depth (queue_of s m) = length (pend s m)" "length (pend s m) \<le> 10000"
proof -
  show q: "queue_inv (queue_of s m)" "mq_max_depth (queue_of s m) = 10000"
    using assms by (auto simp: queues_inv_def queue_of_def new_model_queue_inv split: option.splits)
      (simp add: new_model_queue_def)
  show d: "depth (queue_of s m) = length (pend s m)" by (metis length_service_order pend_queue_of)
  show "length (pend s m) \<le> 10000" using q by (simp add: queue_inv_def flip: d)
qed

subsection \<open>Runs of a batch\<close>

lemma reply_of_Some:
  assumes "client \<noteq> Inr None"
  obtains f where "\<And>i. reply_of w client i = Some (f i)"
  using assms by (cases client) (auto simp: reply_of_def intro: that split: option.splits)

text \<open>The goroutines of a batch answer in any order, a failed dial in the batch's.\<close>

lemma replies_run:
  assumes "ss_flights st m = Some fl" "mset js = mset (fl_left fl)"
    and "\<And>e. fl_client fl = Inl e \<Longrightarrow> js = fl_left fl"
    and "\<And>i. reply_of w (fl_client fl) i = Some (f i)"
    and "send_all f js (ss_chans st) = Some ch'"
  shows "sched_step\<^sup>*\<^sup>* st (st\<lparr>ss_chans := ch', ss_flights := (ss_flights st)(m \<mapsto> fl\<lparr>fl_left := []\<rparr>)\<rparr>)"
  using assms
proof (induction js arbitrary: st fl)
  case Nil
  then have "fl\<lparr>fl_left := []\<rparr> = fl" by (cases fl) simp
  then have "st\<lparr>ss_chans := ch', ss_flights := (ss_flights st)(m \<mapsto> fl\<lparr>fl_left := []\<rparr>)\<rparr> = st"
    using Nil.prems(1,5) by (cases st) (simp add: fun_upd_idem)
  then show ?case by (simp only: rtranclp.rtrancl_refl)
next
  case (Cons i js)
  let ?fl = "fl\<lparr>fl_left := remove1 i (fl_left fl)\<rparr>"
  obtain ch1 where ch1: "send (it_result_ch i) (f i) (ss_chans st) = Some ch1" "send_all f js ch1 = Some ch'"
    using Cons.prems(5) by (auto split: option.splits)
  let ?st = "st\<lparr>ss_chans := ch1, ss_flights := (ss_flights st)(m \<mapsto> ?fl)\<rparr>"
  have i: "i \<in> set (fl_left fl)" using Cons.prems(2) by (metis list.set_intros(1) mset_eq_setD)
  have one: "sched_step st ?st"
    by (rule reply [OF Cons.prems(1) i _ Cons.prems(4) ch1(1)]) (use Cons.prems(3) in \<open>metis list.sel(1)\<close>)
  have run: "sched_step\<^sup>*\<^sup>* ?st (?st\<lparr>ss_chans := ch', ss_flights := (ss_flights ?st)(m \<mapsto> ?fl\<lparr>fl_left := []\<rparr>)\<rparr>)"
  proof (rule Cons.IH)
    show "mset js = mset (fl_left ?fl)" using Cons.prems(2) by (simp flip: Cons.prems(2))
    show "js = fl_left ?fl" if "fl_client ?fl = Inl e" for e
      using Cons.prems(3) [of e] that by (simp flip: Cons.prems(3))
    show "reply_of w (fl_client ?fl) j = Some (f j)" for j using Cons.prems(4) by simp
  qed (simp_all add: ch1)
  have "?st\<lparr>ss_chans := ch', ss_flights := (ss_flights ?st)(m \<mapsto> ?fl\<lparr>fl_left := []\<rparr>)\<rparr>
      = st\<lparr>ss_chans := ch', ss_flights := (ss_flights st)(m \<mapsto> fl\<lparr>fl_left := []\<rparr>)\<rparr>" by simp
  then show ?case using converse_rtranclp_into_rtranclp [where r = sched_step, OF one run] by (simp only:)
qed

lemma service_end_Some:
  assumes "queues_inv s" "flights_inv fs s" "fs m = Some fl"
  obtains s' where "service_end w m s fl = Some s'" "pend s' = pend s"
proof -
  obtain b where b: "sv_batchers s m = Some b" using assms(2,3) unfolding flights_inv_def by fastforce
  obtain xs where xs: "batcher_of xs b" using assms(1) b unfolding queues_inv_def by blast
  obtain b' m' where "end_batch w b (sv_metrics s) (fl_client fl) (length (fl_items fl)) = Some (b', m')"
    by (rule end_batch_Some [OF xs])
  then show ?thesis using b by (intro that) (auto simp: service_end_def pend_def fun_eq_iff)
qed

text \<open>A turn is such a run.\<close>

lemma turn_is_run:
  assumes "queues_inv (ss_service st)" "channels_inv (owed (ss_flights st) (ss_service st)) (ss_chans st) (ss_next st)"
    and "sv_batchers (ss_service st) m = Some b" "usable (w_dial w) b" "\<forall>is. mset (w_order w is) = mset is"
    and "ss_flights st m = None" "service_turn w m (ss_service st) (ss_chans st) = Some (s', ch')"
  shows "sched_step\<^sup>*\<^sup>* st (st\<lparr>ss_service := s', ss_chans := ch'\<rparr>)"
proof -
  let ?s = "ss_service st"
  obtain q xs where q: "rg_queues (sv_queues ?s) m = Some q" and xs: "batcher_of xs b"
    using assms(1,3) unfolding queues_inv_def by blast
  obtain wt where wt: "adaptive_wait b (w_depth_before w) = Some wt" using adaptive_wait_Some [OF xs] by metis
  let ?n = "cf_max_batch_size (b_cfg b)"
  let ?o = "fst (drain q ?n)" and ?q = "snd (drain q ?n)" and ?c = "client_of (w_dial w) b"
  let ?b = "b\<lparr>b_conn_once := True, b_exec_client := Some ?c\<rparr>"
  show ?thesis
  proof (cases "?o = []")
    case True
    have tk: "service_take w m ?s = Some (?s\<lparr>sv_batchers := (sv_batchers ?s)(m \<mapsto> b),
        sv_queues := registry_set (sv_queues ?s) m ?q\<rparr>, \<lparr>fl_items = [], fl_client = Inr (b_exec_client b), fl_left = []\<rparr>)"
      using assms(3) q wt True by (simp add: service_take_def take_batch_def case_prod_unfold Let_def)
    have "s' = ?s\<lparr>sv_batchers := (sv_batchers ?s)(m \<mapsto> b), sv_queues := registry_set (sv_queues ?s) m ?q\<rparr>" "ch' = ss_chans st"
      using assms(3,7) q wt True by (auto simp: service_turn_def loop_turn_def case_prod_unfold Let_def)
    then show ?thesis using take [OF assms(6) tk] assms(6) by (cases st) (simp add: fun_upd_idem r_into_rtranclp)
  next
    case False
    let ?f = "item_result (w_now w) (w_execute w) ?c"
    let ?s1 = "?s\<lparr>sv_batchers := (sv_batchers ?s)(m \<mapsto> ?b), sv_queues := registry_set (sv_queues ?s) m ?q\<rparr>"
    let ?fl = "\<lparr>fl_items = ?o, fl_client = Inr (Some ?c), fl_left = ?o\<rparr>"
    let ?st1 = "st\<lparr>ss_service := ?s1, ss_flights := (ss_flights st)(m \<mapsto> ?fl)\<rparr>"
    have tk: "service_take w m ?s = Some (?s1, ?fl)"
      using assms(3) q wt False exec_client_usable [OF assms(4)]
      by (simp add: service_take_def take_batch_def case_prod_unfold Let_def)
    have r1: "sched_step st ?st1" using take [OF assms(6) tk] False by simp
    obtain b2 where b2: "batch_done w ?b (sv_metrics ?s) (length ?o) = Some (b2, metrics_record (sv_metrics ?s) (length ?o))"
      using batch_done_Some [of xs ?b w "sv_metrics ?s" "length ?o"] xs by (auto simp: batcher_of_def)
    obtain ch1 where sa: "send_all ?f (w_order w ?o) (ss_chans st) = Some ch1"
        and s': "s' = ?s\<lparr>sv_batchers := (sv_batchers ?s)(m \<mapsto> b2), sv_queues := registry_set (sv_queues ?s) m ?q,
            sv_metrics := metrics_record (sv_metrics ?s) (length ?o)\<rparr>" "ch' = ch1"
      using assms(3,7) q wt False b2 exec_client_usable [OF assms(4)]
      by (auto simp: service_turn_def loop_turn_def dispatch_def default_dispatch_def case_prod_unfold Let_def
          split: option.splits)
    let ?st2 = "?st1\<lparr>ss_chans := ch1, ss_flights := (ss_flights ?st1)(m \<mapsto> ?fl\<lparr>fl_left := []\<rparr>)\<rparr>"
    have r2: "sched_step\<^sup>*\<^sup>* ?st1 ?st2"
      by (rule replies_run [where w = w and f = ?f and js = "w_order w ?o"])
        (use assms(5) sa in \<open>simp_all add: reply_of_def\<close>)
    have "sched_step ?st2 (?st2\<lparr>ss_service := s', ss_flights := (ss_flights ?st2)(m := None)\<rparr>)"
      by (rule finish [of _ m "?fl\<lparr>fl_left := []\<rparr>" w])
        (use b2 s'(1) in \<open>simp_all add: service_end_def end_batch_def\<close>)
    then have "sched_step\<^sup>*\<^sup>* st (?st2\<lparr>ss_service := s', ss_flights := (ss_flights ?st2)(m := None)\<rparr>)"
      using r1 r2 by (meson converse_rtranclp_into_rtranclp rtranclp.rtrancl_into_rtrancl)
    then show ?thesis using assms(6) s'(2) by (cases st) (simp add: fun_upd_idem)
  qed
qed

subsection \<open>Properties\<close>

text \<open>A scheduler in which one request waits.\<close>

definition demo_waiting :: item where
  "demo_waiting = \<lparr>it_req = zero_request, it_executor_addr = ''m'', it_enqueued_at = 0, it_result_ch = 0\<rparr>"

definition demo_start :: "nat sched_state" where
  "demo_start = initial_state None ''a''"

definition demo_st :: "nat sched_state" where
  "demo_st = demo_start\<lparr>ss_service := submitted (ss_service demo_start) ''m'' ''b'' demo_waiting,
     ss_next := ss_next demo_start + 1, ss_waiting := demo_waiting # ss_waiting demo_start\<rparr>"

lemma demo_submit:
  "schedule_submit (ss_service demo_start) 0 zero_request ''m'' ''b'' (ss_next demo_start)
    = (submitted (ss_service demo_start) ''m'' ''b'' demo_waiting, Inr demo_waiting)"
  by (simp add: schedule_submit_eq Let_def enqueue_accepts queue_of_def demo_start_def initial_state_def
      new_scheduler_service_def new_registry_def depth_def new_model_queue_def demo_waiting_def)

lemma demo_reachable: "reachable demo_start" "reachable demo_st"
proof -
  show s: "reachable demo_start" unfolding demo_start_def by (rule init)
  show "reachable demo_st" using step [OF s submit [OF demo_submit]] by (simp only: demo_st_def)
qed

lemma demo_pend: "pend (ss_service demo_st) ''m'' = [demo_waiting]"
  by (simp add: demo_st_def pend_submitted service_order_def enqueue_def queue_of_def demo_start_def
      initial_state_def new_scheduler_service_def new_registry_def new_model_queue_def Let_def demo_waiting_def
      zero_request_def)

text \<open>Its batcher takes it, and the executor has not answered.\<close>

definition demo_flight :: "nat flight" where
  "demo_flight = \<lparr>fl_items = [demo_waiting], fl_client = Inr (Some 7), fl_left = [demo_waiting]\<rparr>"

definition demo_taken :: "nat scheduler_service" where
  "demo_taken = fst (the (service_take demo_world ''m'' (ss_service demo_st)))"

definition demo_flying :: "nat sched_state" where
  "demo_flying = demo_st\<lparr>ss_service := demo_taken, ss_flights := (ss_flights demo_st)(''m'' \<mapsto> demo_flight)\<rparr>"

lemma demo_batcher_for:
  "sv_batchers (ss_service demo_st) ''m'' = Some (new_batcher ''m'' ''b'' default_config None)"
  by (simp add: demo_st_def submitted_def batcher_for_def demo_start_def initial_state_def
      new_scheduler_service_def count_enqueued_def)

lemma demo_take: "service_take demo_world ''m'' (ss_service demo_st) = Some (demo_taken, demo_flight)"
proof -
  obtain q where q: "rg_queues (sv_queues (ss_service demo_st)) ''m'' = Some q" "service_order q = [demo_waiting]"
    using demo_pend by (auto simp: pend_def split: option.splits)
  obtain wt where "adaptive_wait (new_batcher ''m'' ''b'' default_config None :: nat batcher) (w_depth_before demo_world) = Some wt"
    using adaptive_wait_Some [OF batcher_of_new] by metis
  then have "\<exists>s'. service_take demo_world ''m'' (ss_service demo_st) = Some (s', demo_flight)"
    using q by (auto simp: service_take_def demo_batcher_for take_batch_def drain_out case_prod_unfold Let_def
        exec_client_lazy_def new_batcher_def demo_flight_def demo_world_def)
  then show ?thesis by (auto simp: demo_taken_def)
qed

lemma demo_no_flight: "ss_flights demo_st ''m'' = None"
  by (simp add: demo_st_def demo_start_def initial_state_def)

lemma demo_flying_reachable: "reachable demo_flying"
proof -
  note n = demo_no_flight
  have "fl_items demo_flight \<noteq> []" by (simp add: demo_flight_def)
  then show ?thesis using step [OF demo_reachable(2) take [OF n demo_take]] by (simp add: demo_flying_def)
qed

lemma demo_flying_flight [simp]: "ss_flights demo_flying ''m'' = Some demo_flight"
  by (simp add: demo_flying_def)

lemma demo_flying_waiting: "ss_waiting demo_flying = [demo_waiting]" "ss_service demo_flying = demo_taken"
  by (simp_all add: demo_flying_def demo_st_def demo_start_def initial_state_def)

lemma demo_flying_pend: "pend demo_taken ''m'' = []"
proof -
  have "owed (ss_flights demo_flying) demo_taken ''m'' = [demo_waiting] @ pend demo_taken ''m''"
    by (simp add: owed_def) (simp add: demo_flight_def)
  moreover have "channels_inv (owed (ss_flights demo_flying) demo_taken) (ss_chans demo_flying) (ss_next demo_flying)"
    using reachable_inv [OF demo_flying_reachable] by (simp add: sched_inv_def demo_flying_waiting)
  moreover have "ss_next demo_flying = 1" by (simp add: demo_flying_def demo_st_def demo_start_def initial_state_def)
  ultimately have "distinct (map it_result_ch ([demo_waiting] @ pend demo_taken ''m''))"
    "\<forall>i \<in> set ([demo_waiting] @ pend demo_taken ''m''). it_result_ch i < 1"
    unfolding channels_inv_def by metis+
  then show ?thesis
    by (cases "pend demo_taken ''m''") (auto simp: demo_waiting_def)
qed

text \<open>C1. No accepted request is lost, in any interleaving of callers, batcher loops, the
  calls to the executor, results, deadlines and cancellations: a caller that still waits has
  its item in the queue of its model, or among the items of the batch in flight that are not
  answered yet, and then nothing on its channel, or it has exactly one result there. The
  items owed a result are never owed two, no two callers share a channel, and no queue holds
  more than ten thousand items.\<close>

theorem waiting_requests_tracked:
  assumes "reachable st" "i \<in> set (ss_waiting st)"
  shows "((i \<in> set (pend (ss_service st) (it_executor_addr i)) \<and> ss_chans st (it_result_ch i) = [])
      \<or> (\<exists>fl. ss_flights st (it_executor_addr i) = Some fl \<and> i \<in> set (fl_left fl)
           \<and> ss_chans st (it_result_ch i) = [])
      \<or> (\<exists>r. ss_chans st (it_result_ch i) = [r]))
    \<and> distinct (map it_result_ch
        ((case ss_flights st m of None \<Rightarrow> [] | Some fl \<Rightarrow> fl_left fl) @ pend (ss_service st) m))
    \<and> distinct (map it_result_ch (ss_waiting st))
    \<and> length (pend (ss_service st) m) \<le> 10000"
proof -
  let ?owed = "owed (ss_flights st) (ss_service st)"
  have inv: "queues_inv (ss_service st)" "channels_inv ?owed (ss_chans st) (ss_next st)"
    "waiting_inv ?owed (ss_chans st) (ss_next st) (ss_waiting st)"
    using reachable_inv [OF assms(1)] by (simp_all add: sched_inv_def)
  have "length (pend (ss_service st) m) \<le> 10000" using inv(1) by (rule queue_of_inv(4))
  moreover have "distinct (map it_result_ch (?owed m))" using inv(2) by (simp add: channels_inv_def)
  moreover have "distinct (map it_result_ch (ss_waiting st))" using inv(3) by (simp add: waiting_inv_def)
  moreover have "i \<in> set (?owed (it_executor_addr i)) \<and> ss_chans st (it_result_ch i) = []
      \<or> (\<exists>r. ss_chans st (it_result_ch i) = [r])"
    using inv(2,3) assms(2) unfolding waiting_inv_def channels_inv_def by blast
  ultimately show ?thesis by (auto simp: owed_def split: option.splits)
qed

theorem waiting_requests_tracked_witness:
  "reachable demo_flying \<and> demo_waiting \<in> set (ss_waiting demo_flying)
   \<and> demo_waiting \<notin> set (pend (ss_service demo_flying) ''m'')
   \<and> (\<exists>fl. ss_flights demo_flying ''m'' = Some fl \<and> demo_waiting \<in> set (fl_left fl)
        \<or> (\<exists>r. ss_chans demo_flying 0 = [r]))"
  using waiting_requests_tracked [OF demo_flying_reachable, of demo_waiting "''m''"] demo_flying_reachable
    demo_flying_pend
  by (simp add: demo_flying_waiting) (auto simp: demo_waiting_def)

text \<open>C20. A batch in flight is a promise kept: from every reachable state with a batch whose
  client exists or whose dial failed, and for whatever the executor answers, the goroutines
  of the batch can finish on their own, whatever the callers did meanwhile. Each item that
  was unanswered gets on its channel exactly the reply the executor (or the dial) gave for
  it, no send blocks, nothing panics, and queues, other channels, other batches and waiting
  callers are untouched.\<close>

theorem flight_lands:
  assumes "reachable st" "ss_flights st m = Some fl" "fl_client fl \<noteq> Inr None"
  shows "\<exists>st'. sched_step\<^sup>*\<^sup>* st st' \<and> ss_flights st' = (ss_flights st)(m := None)
    \<and> (\<forall>i \<in> set (fl_left fl). Some (ss_chans st' (it_result_ch i)) = map_option (\<lambda>r. [r]) (reply_of w (fl_client fl) i))
    \<and> (\<forall>c. c \<notin> it_result_ch ` set (fl_left fl) \<longrightarrow> ss_chans st' c = ss_chans st c)
    \<and> pend (ss_service st') = pend (ss_service st) \<and> ss_waiting st' = ss_waiting st"
proof -
  have inv: "queues_inv (ss_service st)" "flights_inv (ss_flights st) (ss_service st)"
    and f: "free (ss_chans st) (owed (ss_flights st) (ss_service st) m)"
    using reachable_inv [OF assms(1)] channels_inv_free by (auto simp: sched_inv_def)
  obtain f where f: "\<And>i. reply_of w (fl_client fl) i = Some (f i)" using reply_of_Some [OF assms(3)] by metis
  have fr: "free (ss_chans st) (fl_left fl)" using \<open>free _ _\<close> assms(2) by (auto simp: owed_def free_def)
  let ?st1 = "st\<lparr>ss_chans := answered f (fl_left fl) (ss_chans st),
    ss_flights := (ss_flights st)(m \<mapsto> fl\<lparr>fl_left := []\<rparr>)\<rparr>"
  have run: "sched_step\<^sup>*\<^sup>* st ?st1"
    by (rule replies_run [OF assms(2) refl _ f send_all_free [OF fr]]) simp
  obtain s' where s': "service_end w m (ss_service st) fl = Some s'" "pend s' = pend (ss_service st)"
    using service_end_Some [OF inv assms(2)] by metis
  have e: "service_end w m s (fl\<lparr>fl_left := x\<rparr>) = service_end w m s fl" for s x
    by (cases "sv_batchers s m") (simp_all add: service_end_def)
  have "sched_step ?st1 (?st1\<lparr>ss_service := s', ss_flights := (ss_flights ?st1)(m := None)\<rparr>)"
    by (rule finish [of _ m "fl\<lparr>fl_left := []\<rparr>" w]) (simp_all add: e s')
  with run have r: "sched_step\<^sup>*\<^sup>* st (?st1\<lparr>ss_service := s', ss_flights := (ss_flights ?st1)(m := None)\<rparr>)"
    by (rule rtranclp.rtrancl_into_rtrancl)
  have "answered f (fl_left fl) (ss_chans st) (it_result_ch i) = [f i]" if "i \<in> set (fl_left fl)" for i
    using answered_item [OF _ that] fr by (simp add: free_def)
  then show ?thesis
    using s'(2) by (intro exI [of _ "?st1\<lparr>ss_service := s', ss_flights := (ss_flights ?st1)(m := None)\<rparr>"] conjI r)
      (simp_all add: f)
qed

theorem flight_lands_witness:
  "\<exists>st'. sched_step\<^sup>*\<^sup>* demo_flying st' \<and> ss_flights st' ''m'' = None
     \<and> ss_chans st' 0 = [item_result (w_now demo_world) (w_execute demo_world) 7 demo_waiting]"
proof -
  have "\<exists>st'. sched_step\<^sup>*\<^sup>* demo_flying st' \<and> ss_flights st' = (ss_flights demo_flying)(''m'' := None)
    \<and> (\<forall>i \<in> set [demo_waiting]. Some (ss_chans st' (it_result_ch i)) = map_option (\<lambda>r. [r]) (reply_of demo_world (Inr (Some 7)) i))"
    using flight_lands [OF demo_flying_reachable, of "''m''" demo_flight demo_world]
    by (auto simp: demo_flying_flight demo_flight_def)
  then show ?thesis by (auto simp: reply_of_def) (auto simp: demo_waiting_def)
qed

text \<open>C38. The scheduler's books balance in every reachable state: the calls counted as enqueued
  are those shed, dispatched or failed plus those that still wait and those whose context
  ended, which no counter of the service records.\<close>

theorem scheduler_accounting:
  assumes "reachable st"
  shows "st_enqueued (service_stats (ss_service st))
    = st_load_shedded (service_stats (ss_service st)) + st_dispatched (service_stats (ss_service st))
      + st_errors (service_stats (ss_service st)) + of_nat (ss_cancelled st) + of_nat (length (ss_waiting st))"
  using reachable_inv [OF assms]
  by (simp add: sched_inv_def account_inv_def service_stats_def Let_def)

theorem scheduler_accounting_witness:
  "reachable demo_st \<and> st_enqueued (service_stats (ss_service demo_st)) = 1"
  using scheduler_accounting [OF demo_reachable(2)] demo_reachable(2)
  by (simp add: service_stats_def demo_st_def demo_start_def initial_state_def new_scheduler_service_def)

text \<open>C21. A batcher that has its executor client, or can get it, is never stuck: in every
  reachable state its next turn ends without a panic and without blocking on a result
  channel, and answers every item it takes. When no batch of the model is in flight, the turn
  is a run of the system's steps.\<close>

theorem turn_never_blocks:
  assumes "reachable st" "sv_batchers (ss_service st) m = Some b" "usable (w_dial w) b"
    and "\<forall>is. mset (w_order w is) = mset is"
  shows "\<exists>s' ch'. service_turn w m (ss_service st) (ss_chans st) = Some (s', ch')
    \<and> length (pend s' m) = length (pend (ss_service st) m) - nat (cf_max_batch_size (b_cfg b))
    \<and> (\<forall>i \<in> set (pend (ss_service st) m). i \<notin> set (pend s' m) \<longrightarrow> (\<exists>r. ch' (it_result_ch i) = [r]))
    \<and> (ss_flights st m = None \<longrightarrow> sched_step\<^sup>*\<^sup>* st (st\<lparr>ss_service := s', ss_chans := ch'\<rparr>))"
proof -
  let ?s = "ss_service st" and ?n = "cf_max_batch_size (b_cfg b)"
  have inv: "queues_inv ?s" "channels_inv (owed (ss_flights st) ?s) (ss_chans st) (ss_next st)"
    using reachable_inv [OF assms(1)] by (simp_all add: sched_inv_def)
  obtain q xs where q: "rg_queues (sv_queues ?s) m = Some q" and xs: "batcher_of xs b"
    using inv(1) assms(2) unfolding queues_inv_def by blast
  have p: "pend ?s m = service_order q" using q by (simp add: pend_def)
  have f: "free (ss_chans st) (service_order q)" 
    using channels_inv_free [OF inv(2), of m] by (auto simp: p owed_def free_def)
  have perm: "\<And>is. mset (w_order w is) = mset is" using assms(4) by simp
  have split: "set (service_order q) = set (fst (drain q ?n)) \<union> set (service_order (snd (drain q ?n)))"
    by (metis mq.batch_split set_append)
  show ?thesis
  proof (rule loop_turn_usable [OF xs assms(3) f perm, of "sv_metrics ?s"])
    fix b' m' ch'
    assume t: "loop_turn w b q (sv_metrics ?s) (ss_chans st) = Some (b', snd (drain q ?n), m', ch')"
      and a: "\<And>i. i \<in> set (fst (drain q ?n)) \<Longrightarrow> \<exists>r. ch' (it_result_ch i) = [r]"
    then obtain s' where s': "service_turn w m ?s (ss_chans st) = Some (s', ch')"
        "pend s' m = service_order (snd (drain q ?n))"
      using assms(2) q by (auto simp: service_turn_def pend_def registry_set_def)
    have "\<exists>r. ch' (it_result_ch i) = [r]" if "i \<in> set (pend ?s m)" "i \<notin> set (pend s' m)" for i
      using that split a by (auto simp: p s'(2))
    then show ?thesis
      using s' turn_is_run [OF inv assms(2,3,4) _ s'(1)] by (auto simp: p drain_depth)
  qed
qed

theorem turn_never_blocks_witness:
  "\<exists>s' ch'. service_turn demo_world ''m'' (ss_service demo_st) (ss_chans demo_st) = Some (s', ch')
     \<and> pend s' ''m'' = [] \<and> (\<exists>r. ch' 0 = [r])
     \<and> sched_step\<^sup>*\<^sup>* demo_st (demo_st\<lparr>ss_service := s', ss_chans := ch'\<rparr>)"
proof -
  note b = demo_batcher_for
  have u: "usable (w_dial demo_world) (new_batcher ''m'' ''b'' default_config None)"
    by (simp add: usable_def new_batcher_def demo_world_def)
  have p: "\<forall>is. mset (w_order demo_world is) = mset is" by (simp add: demo_world_def)
  obtain s' ch' where t: "service_turn demo_world ''m'' (ss_service demo_st) (ss_chans demo_st) = Some (s', ch')"
      "pend s' ''m'' = []" "\<exists>r. ch' (it_result_ch demo_waiting) = [r]"
      "sched_step\<^sup>*\<^sup>* demo_st (demo_st\<lparr>ss_service := s', ss_chans := ch'\<rparr>)"
    using turn_never_blocks [OF demo_reachable(2) b u p] by (auto simp: demo_pend demo_no_flight)
  moreover have "it_result_ch demo_waiting = 0" by (simp add: demo_waiting_def)
  ultimately show ?thesis by auto
qed

text \<open>Load shedding: a call is refused exactly when its model's queue is full, with
  ResourceExhausted, whatever its priority; then no item is queued, and otherwise the item is
  queued behind the earlier ones of its lane and carries the model's name for the executor.\<close>

theorem schedule_submit_sheds:
  assumes "reachable st"
  defines "s \<equiv> ss_service st"
  shows "(\<exists>s' e. schedule_submit s now req m addr c = (s', Inl e)) = (length (pend s m) = 10000)
    \<and> (case schedule_submit s now req m addr c of
         (s', Inl e) \<Rightarrow> (\<exists>t. e = Status ResourceExhausted t) \<and> pend s' = pend s
       | (s', Inr i) \<Rightarrow> i \<in> set (pend s' m) \<and> mset (pend s' m) = add_mset i (mset (pend s m))
           \<and> it_executor_addr i = m \<and> it_req i = req)"
proof -
  have inv: "queues_inv s" using reachable_inv [OF assms(1)] by (simp add: sched_inv_def s_def)
  note q = queue_of_inv [OF inv, of m]
  have ok: "snd (enqueue (queue_of s m) i) \<longleftrightarrow> length (pend s m) \<noteq> 10000" for i
    using q by (auto simp: enqueue_accepts)
  have "mset (pend (submitted s m addr i) m)
      = mset (pend s m) + (if snd (enqueue (queue_of s m) i) then {#i#} else {#})" for i
    by (simp add: pend_submitted enqueue_mset pend_queue_of)
  moreover have "pend (submitted s m addr i) = pend s" if "\<not> snd (enqueue (queue_of s m) i)" for i
  proof
    fix k
    have "service_order (fst (enqueue (queue_of s m) i)) = service_order (queue_of s m)"
      by (simp add: enqueue_rejected [OF that] service_order_def)
    then show "pend (submitted s m addr i) k = pend s k"
      by (simp only: pend_submitted pend_queue_of if_cancel split: if_split) simp
  qed
  ultimately show ?thesis
    by (cases "length (pend s m) = 10000") (simp_all add: schedule_submit_eq Let_def ok set_submitted)
qed

theorem schedule_submit_sheds_witness:
  "reachable demo_st \<and> \<not> (\<exists>s' e. schedule_submit (ss_service demo_st) 5 zero_request ''m'' ''c'' 1 = (s', Inl e))"
  using schedule_submit_sheds [OF demo_reachable(2), of 5 zero_request "''m''" "''c''" 1] demo_reachable(2)
  by (simp add: demo_pend)

text \<open>A batcher keeps the executor address of the call that created it: a later call for
  the same model with another address gets the same batcher and starts no second loop.\<close>

theorem batcher_address_pinned:
  assumes "sv_batchers s m = None" "get_batcher s m addr = (s1, b)"
  shows "get_batcher s1 m addr' = (s1, b) \<and> b_exec_addr b = addr \<and> b_model_id b = m
    \<and> rg_queues (sv_queues s1) m \<noteq> None"
proof -
  have "sv_batchers s1 m = Some b" using batchers.find_get [of s m addr] assms(2) by simp
  then have "get_batcher s1 m addr' = (s1, b)" by (rule batchers.get_found)
  then show ?thesis
    using assms by (auto simp: get_batcher_def new_batcher_def registry_queue_def Let_def split: option.splits)
qed

theorem batcher_address_pinned_witness:
  "sv_batchers (ss_service demo_start) ''m'' = None
   \<and> b_exec_addr (snd (get_batcher (fst (get_batcher (ss_service demo_start) ''m'' ''b'')) ''m'' ''c'')) = ''b''"
proof -
  have n: "sv_batchers (ss_service demo_start) ''m'' = None"
    by (simp add: demo_start_def initial_state_def new_scheduler_service_def)
  then show ?thesis
    using batcher_address_pinned [OF n, of "''b''" "fst (get_batcher (ss_service demo_start) ''m'' ''b'')"
        "snd (get_batcher (ss_service demo_start) ''m'' ''b'')" "''c''"] by simp
qed

text \<open>How a call ends: the executor's answer is passed on unchanged, the executor's error
  as it is, a missed deadline as DeadlineExceeded and an ended context as Canceled; a request
  with a positive deadline waits until that instant, any other sixty seconds.\<close>

theorem schedule_await_outcome:
  "snd (schedule_await s req ev) =
     (case ev of
        Received r \<Rightarrow> (case qr_err r of None \<Rightarrow> Inr (qr_resp r) | Some e \<Rightarrow> Inl e)
      | TimerFired \<Rightarrow> Inl (Status DeadlineExceeded (''request '' @ ir_request_id req @ '' timed out in scheduler''))
      | CtxDone \<Rightarrow> Inl (Status Canceled (''request '' @ ir_request_id req @ '' cancelled'')))
   \<and> schedule_deadline now (req\<lparr>ir_deadline_unix_ms := 0\<rparr>) = now + 60000000000
   \<and> schedule_deadline now (req\<lparr>ir_deadline_unix_ms := 5\<rparr>) = 5000000
   \<and> schedule_deadline now (req\<lparr>ir_deadline_unix_ms := - 5\<rparr>) = now + 60000000000"
  by (auto simp: schedule_await_def schedule_deadline_def unix_milli_time_def
      split: wait_event.split option.split)

end
