(* ===== verification/Protobuf.thy ===== *)
theory Protobuf
  imports Wire "HOL-Library.Char_ord"
begin

section \<open>The published wire format is a wire format\<close>

text \<open>
  The hypotheses of \<open>wire_format\<close> hold of the encoding that the protocol buffer
  documentation describes: base-128 varints, little-endian fixed64 values, length-prefixed
  strings, tags \<open>(num << 3) | type\<close>. This theory writes that encoding down and interprets
  the locale on it. Groups, which proto3 does not have, are refused.
\<close>

subsection \<open>Varints\<close>

fun varint_bytes :: "nat \<Rightarrow> bytes" where
  "varint_bytes n =
     (if n < 128 then [char_of n] else char_of (128 + n mod 128) # varint_bytes (n div 128))"

declare varint_bytes.simps [simp del]

fun read_varint :: "nat \<Rightarrow> bytes \<Rightarrow> (nat \<times> bytes) option" where
  "read_varint 0 b = None"
| "read_varint (Suc k) [] = None"
| "read_varint (Suc k) (c # cs) =
     (if of_char c < (128 :: nat) then Some (of_char c, cs)
      else map_option (\<lambda>(v, r). (of_char c - 128 + 128 * v, r)) (read_varint k cs))"

lemma read_varint_bytes:
  "n < 128 ^ Suc k \<Longrightarrow> read_varint (Suc k) (varint_bytes n @ rest) = Some (n, rest)"
proof (induction k arbitrary: n)
  case 0
  then show ?case by (subst varint_bytes.simps) (simp add: of_char_of)
next
  case (Suc k)
  have "(128 + n mod 128) mod 256 = 128 + n mod 128"
    by (rule mod_less) (use mod_less_divisor [of 128 n] in linarith)
  moreover have "n div 128 < 128 ^ Suc k" using Suc.prems by (simp add: less_mult_imp_div_less mult.commute)
  moreover have "n mod 256 = n" if "n < 128" using that by simp
  ultimately show ?case
    using Suc.IH [of "n div 128"] by (subst varint_bytes.simps) (auto simp: of_char_of mod_mult_div_eq)
qed

text \<open>Ten bytes hold every 64-bit value.\<close>

lemma read_varint_10: "n < 2 ^ 70 \<Longrightarrow> read_varint 10 (varint_bytes n @ rest) = Some (n, rest)"
proof -
  assume "n < 2 ^ 70"
  moreover have "(128 :: nat) ^ Suc 9 = 2 ^ 70" "Suc 9 = 10" by simp_all
  ultimately show ?thesis using read_varint_bytes [of n 9 rest] by metis
qed

lemma read_varint_shorter: "read_varint k b = Some (v, r) \<Longrightarrow> length r < length b"
  by (induction k b arbitrary: v r rule: read_varint.induct) (fastforce split: if_splits)+

subsection \<open>Fixed-width values\<close>

fun fixed_bytes :: "nat \<Rightarrow> nat \<Rightarrow> bytes" where
  "fixed_bytes 0 n = []"
| "fixed_bytes (Suc k) n = char_of n # fixed_bytes k (n div 256)"

fun read_fixed :: "bytes \<Rightarrow> nat" where
  "read_fixed [] = 0"
| "read_fixed (c # cs) = of_char c + 256 * read_fixed cs"

lemma length_fixed_bytes [simp]: "length (fixed_bytes k n) = k"
  by (induction k arbitrary: n) simp_all

lemma read_fixed_bytes: "n < 256 ^ k \<Longrightarrow> read_fixed (fixed_bytes k n) = n"
  by (induction k arbitrary: n) (simp_all add: of_char_of less_mult_imp_div_less mult.commute)

subsection \<open>The functions of protowire\<close>

definition pb_consume_varint :: "bytes \<Rightarrow> 64 word \<times> int" where
  "pb_consume_varint b =
     (case read_varint 10 b of None \<Rightarrow> (0, -1)
      | Some (v, r) \<Rightarrow> if v < 2 ^ 64 then (of_nat v, int (length b - length r)) else (0, -3))"

definition pb_consume_fixed64 :: "bytes \<Rightarrow> 64 word \<times> int" where
  "pb_consume_fixed64 b = (if length b < 8 then (0, -1) else (of_nat (read_fixed (take 8 b)), 8))"

definition pb_consume_bytes :: "bytes \<Rightarrow> bytes \<times> int" where
  "pb_consume_bytes b =
     (case read_varint 10 b of None \<Rightarrow> ([], -1)
      | Some (n, r) \<Rightarrow> if n \<le> length r then (take n r, int (length b - length r + n)) else ([], -1))"

definition pb_consume_tag :: "bytes \<Rightarrow> int32 \<times> wire_type \<times> int" where
  "pb_consume_tag b =
     (case read_varint 10 b of None \<Rightarrow> (0, 0, -1)
      | Some (v, r) \<Rightarrow>
          if 0 < v div 8 \<and> v div 8 < 2 ^ 29 then (of_nat (v div 8), of_nat (v mod 8), int (length b - length r))
          else (0, 0, -2))"

definition pb_consume_field_value :: "int32 \<Rightarrow> wire_type \<Rightarrow> bytes \<Rightarrow> int" where
  "pb_consume_field_value num typ b =
     (if typ = 0 then snd (pb_consume_varint b)
      else if typ = 1 then snd (pb_consume_fixed64 b)
      else if typ = 2 then snd (pb_consume_bytes b)
      else if typ = 5 then (if length b < 4 then -1 else 4)
      else -4)"

definition protobuf :: protowire where
  "protobuf = \<lparr>
     varint_type = 0, fixed64_type = 1, bytes_type = 2,
     append_tag = (\<lambda>b num typ. b @ varint_bytes (nat (sint num) * 8 + unat typ)),
     append_varint = (\<lambda>b v. b @ varint_bytes (unat v)),
     append_fixed64 = (\<lambda>b v. b @ fixed_bytes 8 (unat v)),
     append_string = (\<lambda>b s. b @ varint_bytes (length s) @ s),
     append_bytes = (\<lambda>b s. b @ varint_bytes (length s) @ s),
     consume_tag = pb_consume_tag,
     consume_varint = pb_consume_varint,
     consume_fixed64 = pb_consume_fixed64,
     consume_string = pb_consume_bytes,
     consume_bytes = pb_consume_bytes,
     consume_field_value = pb_consume_field_value,
     parse_error = (\<lambda>n. Plain (''proto: parse error '' @ show_int n))\<rparr>"

lemma pb_varint: "pb_consume_varint (varint_bytes (unat v) @ rest) = (v, int (length (varint_bytes (unat v))))"
  using unsigned_less [of v, where 'a = nat] by (simp add: pb_consume_varint_def read_varint_10)

lemma pb_fixed64: "pb_consume_fixed64 (fixed_bytes 8 (unat v) @ rest) = (v, 8)"
proof -
  have "unat v < 256 ^ 8" using unsigned_less [of v, where 'a = nat] by simp
  then have "read_fixed (fixed_bytes 8 (unat v)) = unat v" by (rule read_fixed_bytes)
  then show ?thesis by (simp add: pb_consume_fixed64_def)
qed

lemma pb_bytes:
  "length s < max_slice \<Longrightarrow>
     pb_consume_bytes (varint_bytes (length s) @ s @ rest) = (s, int (length (varint_bytes (length s)) + length s))"
  by (simp add: pb_consume_bytes_def read_varint_10)

lemma pb_tag:
  assumes "0 < sint num" "sint num < 2 ^ 29" "unat typ < 8"
  shows "pb_consume_tag (varint_bytes (nat (sint num) * 8 + unat typ) @ rest) =
    (num, typ, int (length (varint_bytes (nat (sint num) * 8 + unat typ))))"
proof -
  let ?v = "nat (sint num) * 8 + unat typ"
  have n: "nat (sint num) < 2 ^ 29" "0 < nat (sint num)" using assms(1,2) by auto
  then have "?v < 2 ^ 70" using assms(3) by simp
  then have r: "read_varint 10 (varint_bytes ?v @ rest) = Some (?v, rest)" by (rule read_varint_10)
  have d: "?v div 8 = nat (sint num)" "?v mod 8 = unat typ" using assms(3) by auto
  have "(of_nat (nat (sint num)) :: int32) = num" using assms(1) by (simp add: of_nat_nat)
  then show ?thesis using n using assms(3) by (simp add: pb_consume_tag_def r)
qed

lemma pb_tag_progress: "pb_consume_tag b = (num, typ, n) \<Longrightarrow> n \<noteq> 0 \<and> n \<le> int (length b)"
  using read_varint_shorter [of 10 b]
  by (fastforce simp: pb_consume_tag_def split: option.splits if_splits)

lemma pb_bounds:
  "snd (pb_consume_varint b) \<le> int (length b)" "snd (pb_consume_fixed64 b) \<le> int (length b)"
  "snd (pb_consume_bytes b) \<le> int (length b)"
  using read_varint_shorter [of 10 b]
  by (force simp: pb_consume_varint_def pb_consume_fixed64_def pb_consume_bytes_def split: option.splits)+

lemma pb_field_value: "pb_consume_field_value num typ b \<le> int (length b)"
  using pb_bounds [of b] by (auto simp: pb_consume_field_value_def)

interpretation protobuf: wire_format protobuf
proof
  show "distinct [varint_type protobuf, fixed64_type protobuf, bytes_type protobuf]"
    by (simp add: protobuf_def)
next
  fix num :: int32 and "typ" :: wire_type and rest :: bytes
  assume "0 < sint num" "sint num < 2 ^ 29" "typ \<in> {varint_type protobuf, fixed64_type protobuf, bytes_type protobuf}"
  then show "consume_tag protobuf (append_tag protobuf [] num typ @ rest) =
      (num, typ, int (length (append_tag protobuf [] num typ)))"
    using pb_tag [of num "typ" rest] by (auto simp: protobuf_def)
qed (simp_all add: protobuf_def pb_varint pb_fixed64 pb_bytes pb_tag_progress pb_bounds pb_field_value)

subsection \<open>Lengths\<close>

text \<open>How much each field adds to an encoding, at most.\<close>

lemma varint_length: "length (varint_bytes n) \<le> Suc n"
proof (induction n rule: varint_bytes.induct)
  case (1 n)
  then show ?case by (subst varint_bytes.simps) fastforce
qed

lemma varint_length_10: "n < 128 ^ Suc k \<Longrightarrow> length (varint_bytes n) \<le> Suc k"
proof (induction k arbitrary: n)
  case (Suc k)
  then have "n div 128 < 128 ^ Suc k" by (simp add: less_mult_imp_div_less mult.commute)
  then show ?case using Suc.IH [of "n div 128"] by (subst varint_bytes.simps) simp
qed (subst varint_bytes.simps, simp)

lemma varint_word_length: "length (varint_bytes (unat (v :: 64 word))) \<le> 10"
proof -
  have "unat v < 128 ^ Suc 9" using unsigned_less [of v, where 'a = nat] by simp
  then show ?thesis using varint_length_10 [of "unat v" 9] by simp
qed

lemma tag_length: "length (append_tag protobuf b num (bytes_type protobuf)) \<le> length b + 10"
  "length (append_tag protobuf b num (varint_type protobuf)) \<le> length b + 10"
  "length (append_tag protobuf b num (fixed64_type protobuf)) \<le> length b + 10"
proof -
  have n: "sint num < 2 ^ 31" using sint_lt [of num] by simp
  have len: "length (varint_bytes (nat (sint num) * 8 + t)) \<le> 10" if "t \<le> 2" for t
  proof -
    have "nat (sint num) * 8 + t < 128 ^ Suc 9" using n that by simp
    then show ?thesis using varint_length_10 [of "nat (sint num) * 8 + t" 9] by simp
  qed
  show
    "length (append_tag protobuf b num (bytes_type protobuf)) \<le> length b + 10"
    "length (append_tag protobuf b num (varint_type protobuf)) \<le> length b + 10"
    "length (append_tag protobuf b num (fixed64_type protobuf)) \<le> length b + 10"
    using len [of 2] len [of 0] len [of 1] by (simp_all add: protobuf_def)
qed

lemma put_lengths:
  assumes "length b \<le> k"
  shows "length (put_string protobuf num s b) \<le> k + (20 + 2 * length s)" "length (put_int32 protobuf num v b) \<le> k + 20"
    "length (put_bool protobuf num c b) \<le> k + 20" "length (put_double protobuf num x b) \<le> k + 20"
proof -
  have a: "length (append_string protobuf b s) \<le> length b + 1 + 2 * length s" "length (append_varint protobuf b w) \<le> length b + 10"
    "length (append_fixed64 protobuf b w) = length b + 8" for b w
    using varint_length [of "length s"] varint_word_length [of w] by (simp_all add: protobuf_def)
  show "length (put_string protobuf num s b) \<le> k + (20 + 2 * length s)"
    using assms a(1) [of "append_tag protobuf b num (bytes_type protobuf)"] tag_length(1) [of b num] by (simp add: put_string_def)
  show "length (put_int32 protobuf num v b) \<le> k + 20" "length (put_bool protobuf num c b) \<le> k + 20"
    using assms a(2) [of "append_tag protobuf b num (varint_type protobuf)" "scast v"]
      a(2) [of "append_tag protobuf b num (varint_type protobuf)" 1] tag_length(2) [of b num]
    by (simp_all add: put_int32_def put_bool_def put_varint_def)
  show "length (put_double protobuf num x b) \<le> k + 20"
    using assms a(3) [of "append_tag protobuf b num (fixed64_type protobuf)"] tag_length(3) [of b num] by (simp add: put_double_def)
qed

end
