(* ===== verification/Codec.thy ===== *)
theory Codec
  imports ExecutionWire Protobuf
begin

section \<open>The gRPC codec\<close>

text \<open>
  \<open>ProtoCodec\<close> of \<open>gen/go/codec/codec.go\<close>: gRPC hands it values of any type, and it encodes
  those that implement \<open>ProtoMessage\<close>. \<open>go_value\<close> is the union of the message types and of
  every other type, the latter known by the name that \<open>%T\<close> prints.
\<close>

datatype go_value =
    VChat chat_message
  | VInferenceRequest inference_request
  | VInferenceResponse inference_response
  | VStreamChunk stream_chunk
  | VExecuteRequest execute_request
  | VExecuteResponse execute_response
  | VExecuteChunk execute_chunk
  | VHealthRequest health_request
  | VHealthResponse health_response
  | VSetStatusRequest set_status_request
  | VSetStatusResponse set_status_response
  | VOther string

definition codec_name :: string where
  "codec_name = ''proto''"

definition not_proto_message :: "string \<Rightarrow> err" where
  "not_proto_message t = Plain (''codec: '' @ t @ '' does not implement ProtoMessage; run `make proto`'')"

fun codec_marshal :: "protowire \<Rightarrow> (string \<times> string) list \<Rightarrow> go_value \<Rightarrow> bytes result" where
  "codec_marshal pw order (VChat m) = Inr (marshal_chat pw m)"
| "codec_marshal pw order (VInferenceRequest m) = Inr (marshal_request pw order m)"
| "codec_marshal pw order (VInferenceResponse m) = Inr (marshal_response pw m)"
| "codec_marshal pw order (VStreamChunk m) = Inr (marshal_stream_chunk pw m)"
| "codec_marshal pw order (VExecuteRequest m) = Inr (marshal_execute_request pw m)"
| "codec_marshal pw order (VExecuteResponse m) = Inr (marshal_execute_response pw m)"
| "codec_marshal pw order (VExecuteChunk m) = Inr (marshal_execute_chunk pw m)"
| "codec_marshal pw order (VHealthRequest m) = Inr (marshal_health_request m)"
| "codec_marshal pw order (VHealthResponse m) = Inr (marshal_health_response pw m)"
| "codec_marshal pw order (VSetStatusRequest m) = Inr (marshal_set_status_request pw m)"
| "codec_marshal pw order (VSetStatusResponse m) = Inr (marshal_set_status_response pw m)"
| "codec_marshal pw order (VOther t) = Inl (not_proto_message t)"

text \<open>\<open>Unmarshal\<close> fills the value it is given; the result is that value, filled.\<close>

fun codec_unmarshal :: "protowire \<Rightarrow> bytes \<Rightarrow> go_value \<Rightarrow> go_value result option" where
  "codec_unmarshal pw data (VChat m) = map_option (map_sum id VChat) (unmarshal_chat pw data m)"
| "codec_unmarshal pw data (VInferenceRequest m) = map_option (map_sum id VInferenceRequest) (unmarshal_request pw data m)"
| "codec_unmarshal pw data (VInferenceResponse m) = map_option (map_sum id VInferenceResponse) (unmarshal_response pw data m)"
| "codec_unmarshal pw data (VStreamChunk m) = map_option (map_sum id VStreamChunk) (unmarshal_stream_chunk pw data m)"
| "codec_unmarshal pw data (VExecuteRequest m) = map_option (map_sum id VExecuteRequest) (unmarshal_execute_request pw data m)"
| "codec_unmarshal pw data (VExecuteResponse m) = map_option (map_sum id VExecuteResponse) (unmarshal_execute_response pw data m)"
| "codec_unmarshal pw data (VExecuteChunk m) = map_option (map_sum id VExecuteChunk) (unmarshal_execute_chunk pw data m)"
| "codec_unmarshal pw data (VHealthRequest m) = map_option (map_sum id VHealthRequest) (unmarshal_health_request data m)"
| "codec_unmarshal pw data (VHealthResponse m) = map_option (map_sum id VHealthResponse) (unmarshal_health_response pw data m)"
| "codec_unmarshal pw data (VSetStatusRequest m) = map_option (map_sum id VSetStatusRequest) (unmarshal_set_status_request pw data m)"
| "codec_unmarshal pw data (VSetStatusResponse m) = map_option (map_sum id VSetStatusResponse) (unmarshal_set_status_response pw data m)"
| "codec_unmarshal pw data (VOther t) = Some (Inl (not_proto_message t))"

text \<open>\<open>new(T)\<close>, which the receiver decodes into.\<close>

fun zero_of :: "go_value \<Rightarrow> go_value" where
  "zero_of (VChat m) = VChat zero_chat"
| "zero_of (VInferenceRequest m) = VInferenceRequest zero_request"
| "zero_of (VInferenceResponse m) = VInferenceResponse zero_response"
| "zero_of (VStreamChunk m) = VStreamChunk zero_stream_chunk"
| "zero_of (VExecuteRequest m) = VExecuteRequest zero_execute_request"
| "zero_of (VExecuteResponse m) = VExecuteResponse zero_execute_response"
| "zero_of (VExecuteChunk m) = VExecuteChunk zero_execute_chunk"
| "zero_of (VHealthRequest m) = VHealthRequest HealthRequest"
| "zero_of (VHealthResponse m) = VHealthResponse zero_health_response"
| "zero_of (VSetStatusRequest m) = VSetStatusRequest zero_set_status_request"
| "zero_of (VSetStatusResponse m) = VSetStatusResponse zero_set_status_response"
| "zero_of (VOther t) = VOther t"

text \<open>What arrives when a value is sent: the value, up to nil maps and negative zeros.\<close>

fun sent :: "go_value \<Rightarrow> go_value" where
  "sent (VInferenceRequest m) = VInferenceRequest (sent_request m)"
| "sent (VInferenceResponse m) = VInferenceResponse (sent_response m)"
| "sent (VStreamChunk m) = VStreamChunk (sent_stream_chunk m)"
| "sent (VExecuteResponse m) = VExecuteResponse (sent_execute_response m)"
| "sent (VHealthResponse m) = VHealthResponse (sent_health_response m)"
| "sent (VSetStatusRequest m) = VSetStatusRequest (sent_set_status_request m)"
| "sent v = v"

text \<open>The entries of the map a value has, in some order of iteration.\<close>

fun iteration :: "(string \<times> string) list \<Rightarrow> go_value \<Rightarrow> bool" where
  "iteration order (VInferenceRequest m) \<longleftrightarrow> iterates order (ir_metadata m)"
| "iteration order v \<longleftrightarrow> order = []"

text \<open>A float survives exactly when it is not \<open>-0\<close>.\<close>

lemma sent_double_iff: "sent_double x = x \<longleftrightarrow> x \<noteq> F64 (2 ^ 63)"
proof -
  have "f64_eq x f64_zero \<longleftrightarrow> x = f64_zero \<or> x = F64 (2 ^ 63)"
  proof
    assume "f64_eq x f64_zero"
    then have "f64_mag x = 0" by (simp add: f64_eq_def f64_zero_def f64_key_def f64_mag_def f64_sign_def split: if_splits)
    then have "x = f64_make (f64_sign x) 0" using f64_make_sign_mag [of x] by simp
    then show "x = f64_zero \<or> x = F64 (2 ^ 63)"
      by (cases "f64_sign x") (simp_all add: f64_make_def f64_zero_def)
  next
    have "f64_eq f64_zero f64_zero \<and> f64_eq (F64 (2 ^ 63)) f64_zero" by code_simp
    then show "x = f64_zero \<or> x = F64 (2 ^ 63) \<Longrightarrow> f64_eq x f64_zero" by auto
  qed
  then show ?thesis by (auto simp: sent_double_def f64_zero_def)
qed

lemma sent_idem: "sent (sent v) = sent v"
  by (cases v) (simp_all add: sent_request_def sent_response_def sent_stream_chunk_def sent_execute_response_def
      sent_health_response_def sent_set_status_request_def sent_double_def)

lemma codec_back:
  assumes "wire_format pw" "iteration order v"
    and "codec_marshal pw order v = Inr b" "length b < max_slice"
  shows "codec_unmarshal pw b (zero_of v) = Some (Inr (sent v))"
proof (cases v)
  case (VHealthRequest m)
  then show ?thesis by (cases m) (simp add: unmarshal_health_request_def)
next
  case (VOther t)
  then show ?thesis using assms(3) by simp
qed (use assms in \<open>auto simp: wire_format.chat_roundtrip wire_format.sent_request_fields
    wire_format.sent_response_fields wire_format.sent_stream_chunk_fields
    wire_format.sent_execute_request_fields wire_format.sent_execute_response_fields
    wire_format.sent_execute_chunk_fields wire_format.sent_health_response_fields
    wire_format.sent_set_status_request_fields wire_format.sent_set_status_response_fields\<close>)

text \<open>C22. Encoding a message of any type with \<open>ProtoCodec.Marshal\<close> and decoding the bytes with
  \<open>ProtoCodec.Unmarshal\<close> into a fresh value of its type gives the message back, whatever the order
  in which Go iterated over its metadata: every field, negative integers and NaNs included, except
  that a nil metadata map arrives empty and a floating-point \<open>-0\<close> arrives as \<open>+0\<close>.\<close>

theorem codec_roundtrip:
  assumes "wire_format pw" "iteration order v"
    and "codec_marshal pw order v = Inr b" "length b < max_slice"
  shows "codec_unmarshal pw b (zero_of v) = Some (Inr (sent v))"
  using codec_back [OF assms] .

text \<open>A request with a message, a negative number and two metadata entries.\<close>

definition demo_sent :: inference_request where
  "demo_sent = zero_request\<lparr>ir_request_id := ''r1'', ir_task_type := TaskChat,
     ir_messages := [\<lparr>cm_role = ''user'', cm_content = ''hi''\<rparr>], ir_max_tokens := -1,
     ir_metadata := Some [''a'' \<mapsto> ''x'', ''b'' \<mapsto> ''y'']\<rparr>"

lemma demo_sent_wire:
  "length (marshal_request protobuf [(''b'', ''y''), (''a'', ''x'')] demo_sent) < max_slice"
  by (simp add: marshal_request_def demo_sent_def zero_request_def protobuf_def put_string_def put_strings_def
      put_int32_def put_int64_def put_bool_def put_varint_def put_bytes_def metadata_entry_def marshal_chat_def
      varint_bytes.simps unsigned_minus_1_eq_mask mask_eq_exp_minus_1)

theorem codec_roundtrip_witness:
  "codec_unmarshal protobuf (marshal_request protobuf [(''b'', ''y''), (''a'', ''x'')] demo_sent)
     (VInferenceRequest zero_request) = Some (Inr (VInferenceRequest demo_sent))"
proof -
  have i: "iteration [(''b'', ''y''), (''a'', ''x'')] (VInferenceRequest demo_sent)"
    by (auto simp: demo_sent_def iterates_def)
  have "sent (VInferenceRequest demo_sent) = VInferenceRequest demo_sent"
    by (simp add: sent_request_def demo_sent_def)
  then show ?thesis
    using codec_roundtrip [OF protobuf.wire_format_axioms i codec_marshal.simps(2)] demo_sent_wire by simp
qed

text \<open>C23. Decoding terminates: on every input, well-formed or not, and for a value of every type and
  content, \<open>ProtoCodec.Unmarshal\<close> returns a value or an error; it neither loops nor slices past the
  end of the buffer.\<close>

theorem codec_unmarshal_returns:
  assumes "wire_format pw"
  shows "\<exists>r. codec_unmarshal pw b v = Some r"
proof -
  note total = wire_format.decode_total [OF assms wire_format.chat_progress [OF assms]]
    wire_format.unmarshal_request_total [OF assms] wire_format.unmarshal_response_total [OF assms]
    wire_format.unmarshal_stream_chunk_total [OF assms] wire_format.unmarshal_execute_request_total [OF assms]
    wire_format.unmarshal_execute_response_total [OF assms] wire_format.unmarshal_execute_chunk_total [OF assms]
    wire_format.unmarshal_health_response_total [OF assms] wire_format.unmarshal_set_status_request_total [OF assms]
    wire_format.unmarshal_set_status_response_total [OF assms]
  show ?thesis
    by (cases v) (use total in \<open>simp_all add: unmarshal_chat_def unmarshal_health_request_def\<close>)
qed

theorem codec_unmarshal_returns_witness:
  "\<exists>r. codec_unmarshal protobuf [CHR 0x0A, CHR 0xFF] (VInferenceRequest demo_sent) = Some r"
  by (rule codec_unmarshal_returns [OF protobuf.wire_format_axioms])

end
