(* ===== verification/SchedulerServer.thy ===== *)
theory SchedulerServer
  imports Scheduler Codec Grpc
begin

section \<open>The scheduler's endpoints\<close>

text \<open>
  The rest of \<open>services/scheduler/cmd/main.go\<close>: the gRPC method that \<open>registerScheduler\<close>
  registers, with the codec that decodes its request, and the admin endpoints. \<open>ScheduleRequest\<close>
  has no \<open>MarshalProto\<close> and no \<open>UnmarshalProto\<close>, so for the codec it is a value of another type.
\<close>

subsection \<open>The method\<close>

definition scheduler_service_name :: string where
  "scheduler_service_name = ''scheduling.v1.SchedulerService''"

definition scheduler_schedule_handler ::
  "(schedule_request, 's, inference_response) unary_handler \<Rightarrow> schedule_request result \<Rightarrow>
   (schedule_request, 's, inference_response) interceptor option \<Rightarrow> call_ctx \<Rightarrow> 's grpc_server \<Rightarrow>
   's grpc_server \<times> inference_response outcome" where
  "scheduler_schedule_handler f dec i ctx s =
    (case dec of Inl e \<Rightarrow> (s, Done (Inl e))
     | Inr req \<Rightarrow> (case i of None \<Rightarrow> f ctx req s
         | Some ic \<Rightarrow> ic (''/'' @ scheduler_service_name @ ''/Schedule'') f ctx req s))"

text \<open>\<open>dec(in)\<close>: the codec on the bytes of the call. The codec's other answers are of message types.\<close>

definition decode_schedule_request :: "protowire \<Rightarrow> bytes \<Rightarrow> schedule_request result option" where
  "decode_schedule_request pw data =
    (case codec_unmarshal pw data (VOther ''*main.ScheduleRequest'') of
       Some (Inl e) \<Rightarrow> Some (Inl e) | _ \<Rightarrow> None)"

text \<open>A call as the server sees it; its server has no interceptor.\<close>

definition schedule_call ::
  "protowire \<Rightarrow> (schedule_request, 's, inference_response) unary_handler \<Rightarrow> bytes \<Rightarrow> call_ctx \<Rightarrow> 's grpc_server \<Rightarrow>
   ('s grpc_server \<times> inference_response outcome) option" where
  "schedule_call pw f data ctx s =
    map_option (\<lambda>dec. scheduler_schedule_handler f dec None ctx s) (decode_schedule_request pw data)"

subsection \<open>Start\<close>

text \<open>\<open>main\<close> up to the listeners, whose ports are the first two results; an \<open>Inl\<close> is an exit. \<open>opens\<close> gives
  the table of the file.\<close>

definition sched_getenv :: "(string \<rightharpoonup> string) \<Rightarrow> string \<Rightarrow> string \<Rightarrow> string" where
  "sched_getenv os k fb = (case os k of None \<Rightarrow> fb | Some v \<Rightarrow> if v \<noteq> [] then v else fb)"

definition start_scheduler ::
  "(string \<rightharpoonup> string) \<Rightarrow> (string \<Rightarrow> batch_log_row list result) \<Rightarrow> (string \<times> string \<times> 'c scheduler_service) result" where
  "start_scheduler os opens =
    (case opens (sched_getenv os ''DB_PATH'' ''/data/scheduler.db'') of
       Inl e \<Rightarrow> Inl e
     | Inr db \<Rightarrow> Inr (sched_getenv os ''GRPC_PORT'' ''50053'', sched_getenv os ''HTTP_PORT'' ''8082'',
         new_scheduler_service (Some db) (sched_getenv os ''EXECUTOR_ADDR'' ''model-executor:50051'')))"

subsection \<open>Admin endpoints\<close>

datatype sched_admin_body = SchedStatus string | SchedStats scheduler_stats | SchedText "(string \<times> string) list" | SchedNotFound

definition sched_live :: "nat \<times> sched_admin_body" where
  "sched_live = (200, SchedStatus ''alive'')"

definition sched_ready :: "nat \<times> sched_admin_body" where
  "sched_ready = (200, SchedStatus ''ready'')"

definition sched_stats_endpoint :: "'c scheduler_service \<Rightarrow> nat \<times> sched_admin_body" where
  "sched_stats_endpoint s = (200, SchedStats (service_stats s))"

text \<open>\<open>show\<close> is how \<open>%v\<close> prints a float.\<close>

definition sched_metrics_endpoint :: "(f64 \<Rightarrow> string) \<Rightarrow> 'c scheduler_service \<Rightarrow> nat \<times> sched_admin_body" where
  "sched_metrics_endpoint show_float s =
    (let stats = service_stats s in
     (200, SchedText
       [(''scheduler_enqueued'', show_int (sint (st_enqueued stats))), (''scheduler_dispatched'', show_int (sint (st_dispatched stats))),
        (''scheduler_load_shedded'', show_int (sint (st_load_shedded stats))), (''scheduler_avg_batch_size'', show_float (st_avg_batch_size stats))]))"

text \<open>The routes of \<open>httpAdmin\<close>; the multiplexer answers 404 to any other path.\<close>

definition sched_http_admin :: "(f64 \<Rightarrow> string) \<Rightarrow> string \<Rightarrow> 'c scheduler_service \<Rightarrow> nat \<times> sched_admin_body" where
  "sched_http_admin show_float path s =
    (if path = ''/healthz/live'' then sched_live
     else if path = ''/healthz/ready'' then sched_ready
     else if path = ''/v1/stats'' then sched_stats_endpoint s
     else if path = ''/metrics'' then sched_metrics_endpoint show_float s
     else (404, SchedNotFound))"

subsection \<open>No call arrives\<close>

text \<open>No call of \<open>Schedule\<close> reaches the scheduler: whatever the bytes, the codec refuses to decode into a
  \<open>ScheduleRequest\<close>, so the call fails before the handler and the state stays as it is; and a client
  cannot even encode the request.\<close>

theorem schedule_rpc_unreachable:
  "schedule_call pw f data ctx s = Some (s, Done (Inl (not_proto_message ''*main.ScheduleRequest''))) \<and>
   codec_marshal pw order (VOther ''*main.ScheduleRequest'') = Inl (not_proto_message ''*main.ScheduleRequest'')"
  by (simp add: schedule_call_def decode_schedule_request_def scheduler_schedule_handler_def)

end
