(* ===== verification/Mains.thy ===== *)
theory Mains
  imports RouterAdmin SchedulerServer
begin

section \<open>The starts of the router and of the scheduler\<close>

text \<open>
  \<open>main\<close> of the router (\<open>services/router/cmd/main.go\<close>) and of the scheduler (\<open>services/scheduler/cmd/main.go\<close>), from the
  environment up to the point where the listeners are served: open the store, make the server, listen, register the service. Each
  registers a descriptor whose \<open>HandlerType\<close> is a pointer to the struct of the server. \<open>RegisterService\<close> is gRPC's, so it is the
  parameter \<open>register\<close>, which gives what it panics with; gRPC calls \<open>Implements\<close> of \<open>reflect\<close> with the element type of
  \<open>HandlerType\<close>, and that panics for a type that is not an interface.
\<close>

subsection \<open>The router\<close>

definition router_getenv :: "(string \<rightharpoonup> string) \<Rightarrow> string \<Rightarrow> string \<Rightarrow> string" where
  "router_getenv os k fb = (case os k of None \<Rightarrow> fb | Some v \<Rightarrow> if v \<noteq> [] then v else fb)"

definition router_service_desc :: service_desc where
  "router_service_desc = \<lparr>sd_name = router_service_name, sd_handler_type = StructPtr ''RouterServer'',
     sd_methods = [''Route''], sd_server_streams = []\<rparr>"

text \<open>\<open>None\<close> when \<open>NewRouterServer\<close> does not return, \<open>Inl\<close> an exit or a panic, \<open>Inr\<close> the server that is served. \<open>files\<close> are
  the databases, \<open>seeder\<close> is \<open>Seed\<close> with the executor's address, \<open>listen\<close> the error of the listener on a port.\<close>

definition router_main ::
  "(string \<rightharpoonup> string) \<Rightarrow> (string \<Rightarrow> repo_file) \<Rightarrow> (string \<Rightarrow> repo_store \<Rightarrow> repo_store \<times> err option) \<Rightarrow> err option \<Rightarrow> err option \<Rightarrow>
   err option \<Rightarrow> (string \<Rightarrow> bool) \<Rightarrow> rollout_scan \<Rightarrow> (string \<Rightarrow> err option) \<Rightarrow> (service_desc \<Rightarrow> err option) \<Rightarrow> 'c router_server result option" where
  "router_main os files seeder open_fails migrate_fails models_fail tasks_work rollouts listen register =
    (let db_path = router_getenv os ''DB_PATH'' ''/data/router.db'';
         grpc_port = router_getenv os ''GRPC_PORT'' ''50052'';
         exec_addr = router_getenv os ''EXECUTOR_ADDR'' ''model-executor:50051''
     in map_option (\<lambda>r. case r of
          Inl e \<Rightarrow> Inl e
        | Inr srv \<Rightarrow> (case listen ('':'' @ grpc_port) of Some e \<Rightarrow> Inl e
            | None \<Rightarrow> (case register router_service_desc of Some e \<Rightarrow> Inl e | None \<Rightarrow> Inr srv)))
        (start_router store_pool open_fails migrate_fails (seeder exec_addr) models_fail tasks_work rollouts (files db_path)))"

subsection \<open>The scheduler\<close>

definition scheduler_service_desc :: service_desc where
  "scheduler_service_desc = \<lparr>sd_name = scheduler_service_name, sd_handler_type = StructPtr ''schedulerServer'',
     sd_methods = [''Schedule''], sd_server_streams = []\<rparr>"

definition scheduler_main ::
  "(string \<rightharpoonup> string) \<Rightarrow> (string \<Rightarrow> batch_log_row list result) \<Rightarrow> (string \<Rightarrow> err option) \<Rightarrow> (service_desc \<Rightarrow> err option) \<Rightarrow> 'c scheduler_service result" where
  "scheduler_main os opens listen register =
    (case start_scheduler os opens of
       Inl e \<Rightarrow> Inl e
     | Inr (grpc_port, http_port, svc) \<Rightarrow> (case listen ('':'' @ grpc_port) of Some e \<Rightarrow> Inl e
         | None \<Rightarrow> (case register scheduler_service_desc of Some e \<Rightarrow> Inl e | None \<Rightarrow> Inr svc)))"

subsection \<open>Properties\<close>

text \<open>C37. Neither process ever serves, whatever its environment, its database and the port do, with a gRPC that panics on a \<open>HandlerType\<close> that points to a
  struct. Which way a router fails is fixed by its database: when that cannot be opened \<open>main\<close> exits with the error; when, after
  the seeding, a model is enabled and the query of the models works, it waits for ever for the one connection of the store; and when no model is enabled and
  the port is free, \<open>main\<close> gets as far as the registration and panics there. A scheduler whose database opens and whose port
  is free panics in the registration as well.\<close>

theorem mains_never_serve:
  fixes os :: "string \<rightharpoonup> string" and register :: "service_desc \<Rightarrow> err option" and seeder :: "string \<Rightarrow> repo_store \<Rightarrow> repo_store \<times> err option"
  assumes "\<forall>d n. sd_handler_type d = StructPtr n \<longrightarrow> register d = Some (panic d)"
  defines "path \<equiv> router_getenv os ''DB_PATH'' ''/data/router.db''"
    and "addr \<equiv> router_getenv os ''EXECUTOR_ADDR'' ''model-executor:50051''"
  shows "(\<forall>srv :: 'c router_server. router_main os files seeder ofail mf mof tw rs listen register \<noteq> Some (Inr srv))
    \<and> (\<forall>svc :: 'c scheduler_service. scheduler_main os opens listen register \<noteq> Inr svc)
    \<and> (case open_store ofail mf (files path) of
         Inl e \<Rightarrow> router_main os files seeder ofail mf mof tw rs listen register = (Some (Inl e) :: 'c router_server result option)
       | Inr store \<Rightarrow> let enabled = (\<exists>r \<in> set (st_models (fst (seeder addr store))). pm_enabled r = 1) in
           (enabled \<and> mof = None \<longrightarrow> router_main os files seeder ofail mf mof tw rs listen register = (None :: 'c router_server result option))
           \<and> (\<not> enabled \<and> mof = None \<and> listen ('':'' @ router_getenv os ''GRPC_PORT'' ''50052'') = None \<longrightarrow>
                router_main os files seeder ofail mf mof tw rs listen register = (Some (Inl (panic router_service_desc)) :: 'c router_server result option)))
    \<and> (opens (sched_getenv os ''DB_PATH'' ''/data/scheduler.db'') = Inr rows \<and> listen ('':'' @ sched_getenv os ''GRPC_PORT'' ''50053'') = None \<longrightarrow>
         scheduler_main os opens listen register = (Inl (panic scheduler_service_desc) :: 'c scheduler_service result))"
proof -
  have reg: "register router_service_desc = Some (panic router_service_desc)" "register scheduler_service_desc = Some (panic scheduler_service_desc)"
    using assms(1) by (simp_all add: router_service_desc_def scheduler_service_desc_def)
  let ?main = "router_main os files seeder ofail mf mof tw rs listen register :: 'c router_server result option"
  have 1: "?main \<noteq> Some (Inr srv)" for srv
    by (auto simp: router_main_def Let_def reg split: sum.splits option.splits)
  have 2: "scheduler_main os opens listen register \<noteq> (Inr svc :: 'c scheduler_service result)" for svc
    by (auto simp: scheduler_main_def reg split: sum.splits option.splits prod.splits)
  have 3: "?main = Some (Inl e)" if "open_store ofail mf (files path) = Inl e" for e
    using that by (simp add: router_main_def start_router_def Let_def path_def)
  have 4: "?main = None" if "open_store ofail mf (files path) = Inr store" "\<exists>r \<in> set (st_models (fst (seeder addr store))). pm_enabled r = 1" "mof = None" for store
    using that new_router_server_None [of store_pool "fst (seeder addr store)" mof tw rs] load_models_one [of "fst (seeder addr store)" tw]
    by (simp add: router_main_def start_router_def Let_def path_def addr_def)
  have 5: "?main = Some (Inl (panic router_service_desc))"
    if "open_store ofail mf (files path) = Inr store" "\<not> (\<exists>r \<in> set (st_models (fst (seeder addr store))). pm_enabled r = 1)" "mof = None"
      "listen ('':'' @ router_getenv os ''GRPC_PORT'' ''50052'') = None" for store
  proof -
    note h = that
    obtain ms where "load_models store_pool (fst (seeder addr store)) None tw = Some (Inr ms)"
      using h(2) load_models_one [of "fst (seeder addr store)" tw] by (auto simp: load_models_def store_pool_def)
    then show ?thesis
      using h by (simp add: router_main_def start_router_def new_router_server_def Let_def path_def addr_def reg)
  qed
  have 6: "scheduler_main os opens listen register = (Inl (panic scheduler_service_desc) :: 'c scheduler_service result)"
    if "opens (sched_getenv os ''DB_PATH'' ''/data/scheduler.db'') = Inr rows" "listen ('':'' @ sched_getenv os ''GRPC_PORT'' ''50053'') = None"
    using that by (simp add: scheduler_main_def start_scheduler_def reg)
  show ?thesis using 1 2 3 4 5 6 by (auto simp: Let_def split: sum.split)
qed

theorem mains_never_serve_witness:
  "router_main Map.empty (\<lambda>_. empty_file) (\<lambda>addr. seed True (\<lambda>_. None) (\<lambda>_. True) True seed_capabilities addr) None None None (\<lambda>_. True) (Inr id)
       (\<lambda>_. None) (\<lambda>d. case sd_handler_type d of StructPtr n \<Rightarrow> Some (Plain n) | InterfacePtr n \<Rightarrow> None) = (None :: string router_server result option)
   \<and> scheduler_main Map.empty (\<lambda>_. Inr []) (\<lambda>_. None) (\<lambda>d. case sd_handler_type d of StructPtr n \<Rightarrow> Some (Plain n) | InterfacePtr n \<Rightarrow> None)
       = (Inl (Plain ''schedulerServer'') :: string scheduler_service result)"
proof -
  let ?register = "\<lambda>d. case sd_handler_type d of StructPtr n \<Rightarrow> Some (Plain n) | InterfacePtr n \<Rightarrow> None"
  let ?panic = "\<lambda>d. case sd_handler_type d of StructPtr n \<Rightarrow> Plain n | InterfacePtr n \<Rightarrow> Plain []"
  have r: "\<forall>d n. sd_handler_type d = StructPtr n \<longrightarrow> ?register d = Some (?panic d)" by simp
  have "\<exists>r \<in> set (st_models (fst (seed True (\<lambda>_. None) (\<lambda>_. True) True seed_capabilities addr fresh_store))). pm_enabled r = 1" for addr
    using seeded_enabled [of addr] by (simp add: seeded_def)
  then show ?thesis
    using mains_never_serve [where 'c = string and register = ?register and panic = ?panic and os = Map.empty and files = "\<lambda>_. empty_file" and ofail = None and mf = None and mof = None
        and seeder = "\<lambda>addr. seed True (\<lambda>_. None) (\<lambda>_. True) True seed_capabilities addr"
        and tw = "\<lambda>_. True" and rs = "Inr id" and listen = "\<lambda>_. None" and opens = "\<lambda>_. Inr []" and rows = "[]", OF r]
    by (simp add: open_empty scheduler_service_desc_def)
qed

end
