(* ===== verification/RouterSteps.thy ===== *)
theory RouterSteps
  imports RouterAdmin
begin

section \<open>\<open>Route\<close>, one locked section at a time\<close>

text \<open>
  \<open>Router\<close> models a call of \<open>Route\<close> as one function of the server, which is what a single caller
  sees. The server runs many calls at once, and a call holds no lock for long: it takes the mutex of
  the policy cache, of the limiter, of the canaries, of the models, of each breaker, of the health
  tracker and of the pool in turn, and adds to each counter atomically. Here a call is a frame, its
  position in the code with the local variables of \<open>Route\<close>, and a step runs the code up to the end
  of the next locked section. Run alone, the steps are \<open>route\<close>; \<open>RouterConcurrent\<close> interleaves them.
\<close>

subsection \<open>Frames\<close>

datatype 'c route_pc =
    AtPolicyGet | AtPolicyLoad | AtPolicySet | AtLimiter | AtWeights | AtModels | AtBreaker | AtBlocked
  | AtScore | AtClient | AtExecute 'c | AtFailBreaker | AtFailHealth | AtCountError | AtOkBreaker
  | AtOkHealth | AtCountRouted | AtCountCanary | AtCountFallback | AtLog
  | AtReturn "inference_response outcome"

record 'c route_frame =
  rf_pc :: "'c route_pc"
  rf_req :: inference_request
  rf_start :: time
  rf_trace_id :: string
  rf_policy :: tenant_policy
  rf_sreq :: scoring_request
  rf_models :: "model_record list"
  rf_todo :: "model_record list"
  rf_candidates :: "model_record list"
  rf_results :: "candidate_score list"
  rf_ranked :: "candidate_score list"
  rf_exec :: execute_response
  rf_latency_ms :: f64
  rf_err :: err

text \<open>A call that has read the clock and drawn its trace id. The variables that the code has not
  assigned hold values that no step reads.\<close>

definition no_scoring_request :: scoring_request where
  "no_scoring_request = \<lparr>sq_task = [], sq_cost_budget = [], sq_latency_target_ms = 0, sq_prompt_len = 0,
     sq_tenant_mode = [], sq_allowed_models = [], sq_rollout_weights = Map.empty\<rparr>"

definition no_execution :: execute_response where
  "no_execution = \<lparr>ex_request_id = [], ex_model_id = [], ex_content = [], ex_embedding = [], ex_scores = [],
     ex_tokens_input = 0, ex_tokens_output = 0, ex_latency_ms = f64_zero\<rparr>"

definition new_frame :: "time \<Rightarrow> string \<Rightarrow> inference_request \<Rightarrow> 'c route_frame" where
  "new_frame start trace_id req =
    \<lparr>rf_pc = AtPolicyGet, rf_req = req, rf_start = start, rf_trace_id = trace_id,
     rf_policy = default_policy (route_tenant req), rf_sreq = no_scoring_request, rf_models = [], rf_todo = [],
     rf_candidates = [], rf_results = [], rf_ranked = [], rf_exec = no_execution, rf_latency_ms = f64_zero,
     rf_err = Plain []\<rparr>"

subsection \<open>What the code computes from its variables\<close>

definition frame_primary :: "'c route_frame \<Rightarrow> candidate_score" where
  "frame_primary fr = hd (rf_ranked fr)"

definition frame_model :: "'c route_frame \<Rightarrow> string" where
  "frame_model fr = cs_model_id (frame_primary fr)"

definition frame_fallback :: "'c route_frame \<Rightarrow> bool" where
  "frame_fallback fr \<longleftrightarrow> length (rf_ranked fr) > 0 \<and> frame_primary fr \<noteq> hd (rf_ranked fr)"

definition frame_canary :: "'c route_frame \<Rightarrow> bool" where
  "frame_canary fr \<longleftrightarrow> (let w = weight_or_zero (sq_rollout_weights (rf_sreq fr)) (frame_model fr) in f64_lt f64_zero w \<and> f64_lt w f64_one)"

definition frame_cost :: "'c route_frame \<Rightarrow> f64" where
  "frame_cost fr = route_cost (rf_models fr) (frame_model fr) (ex_tokens_output (rf_exec fr))"

definition frame_response :: "'c route_frame \<Rightarrow> inference_response" where
  "frame_response fr = zero_response\<lparr>rs_request_id := ir_request_id (rf_req fr), rs_trace_id := rf_trace_id fr,
      rs_task_type := ir_task_type (rf_req fr), rs_model_id := ex_model_id (rf_exec fr),
      rs_model_tier := tier_enum (cs_version (frame_primary fr)), rs_content := ex_content (rf_exec fr),
      rs_embedding := ex_embedding (rf_exec fr), rs_scores := ex_scores (rf_exec fr),
      rs_tokens_input := ex_tokens_input (rf_exec fr), rs_tokens_output := ex_tokens_output (rf_exec fr),
      rs_latency_ms := rf_latency_ms fr, rs_fallback_used := frame_fallback fr, rs_is_canary := frame_canary fr,
      rs_cost_usd := frame_cost fr, rs_executor_id := cs_executor_addr (frame_primary fr)\<rparr>"

definition frame_entry :: "'c route_frame \<Rightarrow> log_entry" where
  "frame_entry fr = \<lparr>le_request_id = ir_request_id (rf_req fr), le_trace_id = rf_trace_id fr,
     le_tenant_id = route_tenant (rf_req fr), le_task_type = task_string (ir_task_type (rf_req fr)),
     le_model_id = ex_model_id (rf_exec fr), le_tokens_input = ex_tokens_input (rf_exec fr),
     le_tokens_output = ex_tokens_output (rf_exec fr), le_latency_ms = rf_latency_ms fr,
     le_queue_wait_ms = f64_zero, le_cost_usd = frame_cost fr, le_cached = False,
     le_fallback_used = frame_fallback fr, le_is_canary = frame_canary fr,
     le_routing_mode = tp_routing_mode (rf_policy fr)\<rparr>"

subsection \<open>Steps\<close>

text \<open>The server after the section, the goroutines that were started (each writes a row of the audit
  log), and the frame.\<close>

fun route_at :: "'c route_pc \<Rightarrow> 'c route_env \<Rightarrow> 'c router_server \<Rightarrow> 'c route_frame \<Rightarrow>
    'c router_server \<times> log_entry list \<times> 'c route_frame" where
  "route_at AtPolicyGet env s fr =
    (case policy_get (xs_policies s) (route_tenant (rf_req fr)) (xe_policy_now env) of
       Some p \<Rightarrow> (s, [], fr\<lparr>rf_policy := p, rf_pc := AtLimiter\<rparr>)
     | None \<Rightarrow> (s, [], fr\<lparr>rf_pc := AtPolicyLoad\<rparr>))"
| "route_at AtPolicyLoad env s fr =
    (let tenant = route_tenant (rf_req fr);
         p = (case load_tenant_policy (xe_unmarshal env) (xs_store s) (xe_policy_fails env) tenant of
                Inl e \<Rightarrow> default_policy tenant | Inr p \<Rightarrow> p)
     in (s, [], fr\<lparr>rf_policy := p, rf_pc := AtPolicySet\<rparr>))"
| "route_at AtPolicySet env s fr =
    (s\<lparr>xs_policies := policy_set (xs_policies s) (rf_policy fr) (xe_policy_stored env)\<rparr>, [], fr\<lparr>rf_pc := AtLimiter\<rparr>)"
| "route_at AtLimiter env s fr =
    (let tenant = route_tenant (rf_req fr)
     in case limiter_allow (xs_limiter s) tenant (tp_rate_limit (rf_policy fr)) (tp_burst_limit (rf_policy fr))
          (xe_limiter_now env) of (limiter, ok) \<Rightarrow>
          (s\<lparr>xs_limiter := limiter\<rparr>, [],
           fr\<lparr>rf_pc := (if ok then AtWeights
              else AtReturn (Done (Inl (Status ResourceExhausted (''rate limit exceeded for tenant '' @ tenant)))))\<rparr>))"
| "route_at AtWeights env s fr =
    (s, [], fr\<lparr>rf_sreq := route_scoring_request s (rf_policy fr) (rf_req fr), rf_pc := AtModels\<rparr>)"
| "route_at AtModels env s fr =
    (s, [], fr\<lparr>rf_models := xs_models s, rf_todo := xs_models s, rf_candidates := [], rf_pc := AtBreaker\<rparr>)"
| "route_at AtBreaker env s fr =
    (case rf_todo fr of
       [] \<Rightarrow> (s, [], fr\<lparr>rf_todo := rf_candidates fr, rf_results := [], rf_pc := AtScore\<rparr>)
     | m # ms \<Rightarrow>
         (case breaker_allow (xs_breakers s) (mr_model_id m) (xe_breaker_now env (mr_model_id m)) of (brs, ok) \<Rightarrow>
            (s\<lparr>xs_breakers := brs\<rparr>, [],
             if ok then fr\<lparr>rf_todo := ms, rf_candidates := rf_candidates fr @ [m]\<rparr>
             else fr\<lparr>rf_todo := ms, rf_pc := AtBlocked\<rparr>)))"
| "route_at AtBlocked env s fr =
    (s\<lparr>xs_metrics := (xs_metrics s)\<lparr>xm_cb_blocked := xm_cb_blocked (xs_metrics s) + 1\<rparr>\<rparr>, [], fr\<lparr>rf_pc := AtBreaker\<rparr>)"
| "route_at AtScore env s fr =
    (case rf_todo fr of
       m # ms \<Rightarrow>
         (s, [], fr\<lparr>rf_todo := ms,
            rf_results := rf_results fr @ score_loop (router_scorer s) (request_weights (rf_sreq fr)) (rf_sreq fr) [m]\<rparr>)
     | [] \<Rightarrow>
         let ranked = sort_results (rf_results fr)
         in (s, [], if length ranked = 0
              then fr\<lparr>rf_ranked := ranked,
                rf_err := Status Unavailable (''no available models for task '' @ task_string (ir_task_type (rf_req fr))),
                rf_pc := AtCountError\<rparr>
              else fr\<lparr>rf_ranked := ranked, rf_pc := AtClient\<rparr>))"
| "route_at AtClient env s fr =
    (case pool_client (xs_pool s) (cs_executor_addr (frame_primary fr)) (xe_dial env) of
       (pool, Inl e) \<Rightarrow> (s\<lparr>xs_pool := pool\<rparr>, [],
          fr\<lparr>rf_err := Status Unavailable (''executor dial failed: '' @ err_text e), rf_pc := AtFailBreaker\<rparr>)
     | (pool, Inr c) \<Rightarrow> (s\<lparr>xs_pool := pool\<rparr>, [], fr\<lparr>rf_pc := AtExecute c\<rparr>))"
| "route_at (AtExecute c) env s fr =
    (case xe_execute env c (route_execute_request (rf_req fr) (frame_primary fr)) of
       Inl e \<Rightarrow> (s, [], fr\<lparr>rf_err := Status Internal (''executor error: '' @ err_text e), rf_pc := AtFailBreaker\<rparr>)
     | Inr er \<Rightarrow> (s, [], fr\<lparr>rf_exec := er,
          rf_latency_ms := f64_of_int (to_millis (time_sub (xe_end env) (rf_start fr))), rf_pc := AtOkBreaker\<rparr>))"
| "route_at AtFailBreaker env s fr =
    (s\<lparr>xs_breakers := breaker_failure (xs_breakers s) (frame_model fr) (xe_outcome_now env)\<rparr>, [], fr\<lparr>rf_pc := AtFailHealth\<rparr>)"
| "route_at AtFailHealth env s fr =
    (s\<lparr>xs_health := record_failure (xs_health s) (frame_model fr) (xe_outcome_now env)\<rparr>, [], fr\<lparr>rf_pc := AtCountError\<rparr>)"
| "route_at AtCountError env s fr = (count_route_error s, [], fr\<lparr>rf_pc := AtReturn (Done (Inl (rf_err fr)))\<rparr>)"
| "route_at AtOkBreaker env s fr =
    (s\<lparr>xs_breakers := breaker_success (xs_breakers s) (frame_model fr)\<rparr>, [], fr\<lparr>rf_pc := AtOkHealth\<rparr>)"
| "route_at AtOkHealth env s fr =
    (case record_success (xs_health s) (frame_model fr) (rf_latency_ms fr) (xe_outcome_now env) of
       None \<Rightarrow> (s, [], fr\<lparr>rf_pc := AtReturn (Panicked ''index out of range'')\<rparr>)
     | Some health \<Rightarrow> (s\<lparr>xs_health := health\<rparr>, [], fr\<lparr>rf_pc := AtCountRouted\<rparr>))"
| "route_at AtCountRouted env s fr =
    (s\<lparr>xs_metrics := (xs_metrics s)\<lparr>xm_routed := xm_routed (xs_metrics s) + 1\<rparr>\<rparr>, [], fr\<lparr>rf_pc := AtCountCanary\<rparr>)"
| "route_at AtCountCanary env s fr =
    (if frame_canary fr then s\<lparr>xs_metrics := (xs_metrics s)\<lparr>xm_canary := xm_canary (xs_metrics s) + 1\<rparr>\<rparr> else s,
     [], fr\<lparr>rf_pc := AtCountFallback\<rparr>)"
| "route_at AtCountFallback env s fr =
    (if frame_fallback fr then s\<lparr>xs_metrics := (xs_metrics s)\<lparr>xm_fallbacks := xm_fallbacks (xs_metrics s) + 1\<rparr>\<rparr> else s,
     [], fr\<lparr>rf_pc := AtLog\<rparr>)"
| "route_at AtLog env s fr = (s, [frame_entry fr], fr\<lparr>rf_pc := AtReturn (Done (Inr (frame_response fr)))\<rparr>)"
| "route_at (AtReturn out) env s fr = (s, [], fr)"

definition route_step :: "'c route_env \<Rightarrow> 'c router_server \<Rightarrow> 'c route_frame \<Rightarrow> 'c router_server \<times> log_entry list \<times> 'c route_frame" where
  "route_step env s fr = route_at (rf_pc fr) env s fr"

definition returned :: "'c route_frame \<Rightarrow> bool" where
  "returned fr \<longleftrightarrow> (\<exists>out. rf_pc fr = AtReturn out)"

text \<open>The goroutine of \<open>LogRequest\<close>.\<close>

definition log_row :: "bool \<Rightarrow> string \<Rightarrow> 'c router_server \<Rightarrow> log_entry \<Rightarrow> 'c router_server" where
  "log_row works created s e = s\<lparr>xs_store := log_request (xs_store s) works created e\<rparr>"

subsection \<open>How many steps a call takes\<close>

text \<open>A bound on the steps that are left, if no list of models has more than \<open>n\<close> entries.\<close>

fun pc_rank :: "nat \<Rightarrow> 'c route_frame \<Rightarrow> 'c route_pc \<Rightarrow> nat" where
  "pc_rank n fr AtPolicyGet = 16 + 3 * n"
| "pc_rank n fr AtPolicyLoad = 15 + 3 * n"
| "pc_rank n fr AtPolicySet = 14 + 3 * n"
| "pc_rank n fr AtLimiter = 13 + 3 * n"
| "pc_rank n fr AtWeights = 12 + 3 * n"
| "pc_rank n fr AtModels = 11 + 3 * n"
| "pc_rank n fr AtBreaker = 10 + 3 * length (rf_todo fr) + length (rf_candidates fr)"
| "pc_rank n fr AtBlocked = 11 + 3 * length (rf_todo fr) + length (rf_candidates fr)"
| "pc_rank n fr AtScore = 9 + length (rf_todo fr)"
| "pc_rank n fr AtClient = 8"
| "pc_rank n fr (AtExecute c) = 7"
| "pc_rank n fr AtFailBreaker = 3"
| "pc_rank n fr AtFailHealth = 2"
| "pc_rank n fr AtCountError = 1"
| "pc_rank n fr AtOkBreaker = 6"
| "pc_rank n fr AtOkHealth = 5"
| "pc_rank n fr AtCountRouted = 4"
| "pc_rank n fr AtCountCanary = 3"
| "pc_rank n fr AtCountFallback = 2"
| "pc_rank n fr AtLog = 1"
| "pc_rank n fr (AtReturn out) = 0"

definition frame_rank :: "nat \<Rightarrow> 'c route_frame \<Rightarrow> nat" where
  "frame_rank n fr = pc_rank n fr (rf_pc fr)"

lemma frame_rank_0: "frame_rank n fr = 0 \<longleftrightarrow> returned fr"
  by (cases "rf_pc fr") (simp_all add: frame_rank_def returned_def)

lemma route_step_rank:
  assumes "length (xs_models s) \<le> n" "\<not> returned fr"
  shows "frame_rank n (snd (snd (route_step env s fr))) < frame_rank n fr"
proof (cases "rf_pc fr")
  case (AtReturn out)
  then show ?thesis using assms(2) by (simp add: returned_def)
qed (use assms(1) in \<open>simp_all add: route_step_def frame_rank_def Let_def split: option.split list.split prod.split sum.split\<close>)

lemma route_step_returned: "returned fr \<Longrightarrow> route_step env s fr = (s, [], fr)"
  by (auto simp: returned_def route_step_def)

subsection \<open>A call alone\<close>

fun route_run :: "nat \<Rightarrow> 'c route_env \<Rightarrow> 'c router_server \<Rightarrow> 'c route_frame \<Rightarrow> 'c router_server \<times> log_entry list \<times> 'c route_frame" where
  "route_run 0 env s fr = (s, [], fr)"
| "route_run (Suc n) env s fr =
    (case route_step env s fr of (s, es, fr) \<Rightarrow> (case route_run n env s fr of (s, es', fr) \<Rightarrow> (s, es @ es', fr)))"

lemma route_run_returned: "returned fr \<Longrightarrow> route_run n env s fr = (s, [], fr)"
  by (induction n) (simp_all add: route_step_returned)

lemma route_run_add:
  "route_run (m + n) env s fr =
    (case route_run m env s fr of (s, es, fr) \<Rightarrow> (case route_run n env s fr of (s, es', fr) \<Rightarrow> (s, es @ es', fr)))"
  by (induction m arbitrary: s fr) (simp_all split: prod.split)

lemma route_step_models [simp]: "xs_models (fst (route_step env s fr)) = xs_models s"
  by (cases "rf_pc fr") (auto simp: route_step_def Let_def count_route_error_def split: option.split list.split prod.split sum.split)

lemma route_run_ends:
  assumes "frame_rank (length (xs_models s)) fr \<le> n"
  shows "returned (snd (snd (route_run n env s fr)))"
  using assms
proof (induction n arbitrary: s fr)
  case (Suc n)
  show ?case
  proof (cases "returned fr")
    case True
    then show ?thesis by (simp only: route_run_returned snd_conv)
  next
    case False
    obtain s1 es fr1 where r: "route_step env s fr = (s1, es, fr1)" by (metis prod_cases3)
    have "xs_models s1 = xs_models s" using route_step_models [of env s fr] by (simp add: r)
    then have "frame_rank (length (xs_models s1)) fr1 \<le> n"
      using route_step_rank [OF order_refl False, of s env] Suc.prems by (simp add: r)
    from Suc.IH [OF this] show ?thesis by (cases "route_run n env s1 fr1") (simp add: r)
  qed
qed (simp add: frame_rank_0)

text \<open>Once the steps have ended, more of them change nothing.\<close>

lemma route_run_more:
  assumes "frame_rank (length (xs_models s)) fr \<le> n"
  shows "route_run n env s fr = route_run (frame_rank (length (xs_models s)) fr) env s fr"
proof -
  let ?k = "frame_rank (length (xs_models s)) fr"
  obtain t es fr' where r: "route_run ?k env s fr = (t, es, fr')" by (metis prod_cases3)
  then have "returned fr'" using route_run_ends [OF order_refl, of s fr env] by simp
  moreover obtain d where "n = ?k + d" using assms le_Suc_ex by blast
  ultimately show ?thesis by (simp add: route_run_add r route_run_returned)
qed

text \<open>The server and the answer in the end, with the row of the audit log written.\<close>

definition frame_outcome :: "'c route_frame \<Rightarrow> inference_response outcome" where
  "frame_outcome fr = (case rf_pc fr of AtReturn out \<Rightarrow> out | _ \<Rightarrow> Panicked ''not returned'')"

definition finish :: "'c route_env \<Rightarrow> 'c router_server \<Rightarrow> 'c route_frame \<Rightarrow> 'c router_server \<times> inference_response outcome" where
  "finish env s fr = (case route_run (frame_rank (length (xs_models s)) fr) env s fr of (s', es, fr') \<Rightarrow>
     (foldl (log_row (xe_log_works env) (xe_created_at env)) s' es, frame_outcome fr'))"

lemma finish_returned: "rf_pc fr = AtReturn out \<Longrightarrow> finish env s fr = (s, out)"
  by (simp add: finish_def frame_rank_def frame_outcome_def)

lemma finish_step:
  assumes "route_step env s fr = (s1, es, fr1)" "\<not> returned fr" "es = [] \<or> returned fr1"
  shows "finish env s fr = (case finish env s1 fr1 of (s2, out) \<Rightarrow> (foldl (log_row (xe_log_works env) (xe_created_at env)) s2 es, out))"
proof -
  let ?n = "length (xs_models s)"
  have m: "xs_models s1 = xs_models s" using route_step_models [of env s fr] assms(1) by simp
  have less: "frame_rank ?n fr1 < frame_rank ?n fr" using route_step_rank [OF order_refl assms(2), of s env] assms(1) by simp
  obtain d where "frame_rank ?n fr = Suc (frame_rank ?n fr1 + d)" using less_imp_Suc_add [OF less] by blast
  then obtain k where k: "frame_rank ?n fr = Suc k" "frame_rank ?n fr1 \<le> k" by (meson le_add1)
  obtain s2 es2 fr2 where r: "route_run (frame_rank ?n fr1) env s1 fr1 = (s2, es2, fr2)" by (metis prod_cases3)
  then have "route_run k env s1 fr1 = (s2, es2, fr2)" using route_run_more [of s1 fr1 k env] k(2) by (simp add: m)
  moreover have "es2 = [] \<and> s2 = s1" if "returned fr1" using r that by (simp add: route_run_returned)
  ultimately show ?thesis using assms(1,3) r by (auto simp: finish_def k(1) m)
qed

lemma route_at_spawns: "fst (snd (route_at pc env s fr)) = (if pc = AtLog then [frame_entry fr] else [])"
  by (cases pc) (simp_all add: Let_def split: option.split list.split prod.split sum.split)

lemma finish_pc:
  assumes "rf_pc fr = pc" "\<nexists>out. pc = AtReturn out"
  shows "finish env s fr = (case route_at pc env s fr of (s1, es, fr1) \<Rightarrow>
    (case finish env s1 fr1 of (s2, out) \<Rightarrow> (foldl (log_row (xe_log_works env) (xe_created_at env)) s2 es, out)))"
proof -
  obtain s1 es fr1 where r: "route_at pc env s fr = (s1, es, fr1)" by (metis prod_cases3)
  moreover have "es = [] \<or> returned fr1"
    using route_at_spawns [of pc env s fr] r by (cases "pc = AtLog") (auto simp: returned_def)
  ultimately show ?thesis using finish_step [of env s fr s1 es fr1] assms by (simp add: route_step_def returned_def)
qed

subsection \<open>The loops\<close>

lemma breaker_loop:
  assumes "rf_pc fr = AtBreaker" "route_candidates (xe_breaker_now env) s (rf_todo fr) = (s', cs)"
  shows "finish env s fr = finish env s' (fr\<lparr>rf_candidates := rf_candidates fr @ cs, rf_todo := rf_candidates fr @ cs,
    rf_results := [], rf_pc := AtScore\<rparr>)"
  using assms
proof (induction "rf_todo fr" arbitrary: s fr cs)
  case Nil
  then show ?case using finish_pc [OF Nil(2), of env s] by simp
next
  case (Cons m ms)
  obtain brs ok where b: "breaker_allow (xs_breakers s) (mr_model_id m) (xe_breaker_now env (mr_model_id m)) = (brs, ok)"
    by (meson surj_pair)
  let ?s = "s\<lparr>xs_breakers := brs\<rparr>"
  let ?t = "?s\<lparr>xs_metrics := (xs_metrics ?s)\<lparr>xm_cb_blocked := xm_cb_blocked (xs_metrics ?s) + 1\<rparr>\<rparr>"
  note todo = Cons.hyps(2) [symmetric]
  show ?case
  proof (cases ok)
    case True
    obtain cs' where cs: "route_candidates (xe_breaker_now env) ?s ms = (s', cs')" "cs = m # cs'"
      using Cons.prems(2) todo b True by (auto simp: Let_def split: prod.splits)
    show ?thesis
      using finish_pc [OF Cons.prems(1), of env s] Cons.hyps(1) [of "fr\<lparr>rf_todo := ms, rf_candidates := rf_candidates fr @ [m]\<rparr>" ?s cs']
        Cons.prems(1) todo b True cs by simp
  next
    case False
    have cs: "route_candidates (xe_breaker_now env) ?t ms = (s', cs)"
      using Cons.prems(2) todo b False by (simp add: Let_def)
    show ?thesis
      using finish_pc [OF Cons.prems(1), of env s] finish_pc [of "fr\<lparr>rf_todo := ms, rf_pc := AtBlocked\<rparr>" AtBlocked env ?s]
        Cons.hyps(1) [of "fr\<lparr>rf_todo := ms, rf_pc := AtBreaker\<rparr>" ?t cs] Cons.prems(1) todo b False cs by simp
  qed
qed

lemma score_loop_append: "score_loop s w req (ms @ ns) = score_loop s w req ms @ score_loop s w req ns"
  by (simp add: score_loop_filter)

lemma scoring_loop:
  assumes "rf_pc fr = AtScore"
  shows "finish env s fr = finish env s (fr\<lparr>rf_results := rf_results fr @ score_loop (router_scorer s) (request_weights (rf_sreq fr)) (rf_sreq fr) (rf_todo fr),
      rf_todo := []\<rparr>)"
  using assms
proof (induction "rf_todo fr" arbitrary: fr)
  case Nil
  then have "fr\<lparr>rf_results := rf_results fr @ score_loop (router_scorer s) (request_weights (rf_sreq fr)) (rf_sreq fr) (rf_todo fr),
      rf_todo := []\<rparr> = fr" by (cases fr) simp
  then show ?case by (simp only:)
next
  case (Cons m ms)
  let ?rs = "rf_results fr @ score_loop (router_scorer s) (request_weights (rf_sreq fr)) (rf_sreq fr) [m]"
  show ?case
    using finish_pc [OF Cons.prems, of env s] Cons.hyps(1) [of "fr\<lparr>rf_todo := ms, rf_results := ?rs\<rparr>"] Cons.hyps(2) [symmetric] Cons.prems
      score_loop_append [of "router_scorer s" "request_weights (rf_sreq fr)" "rf_sreq fr" "[m]" ms]
    by (simp del: score_loop.simps)
qed


subsection \<open>The whole call\<close>

lemma finish_dispatch:
  assumes "rf_pc fr = AtClient" "rf_models fr = xs_models s" "rf_start fr = xe_start env" "rf_trace_id fr = xe_trace_id env"
  shows "finish env s fr = route_dispatch s env (route_tenant (rf_req fr)) (rf_policy fr) (rf_sreq fr) (rf_req fr) (rf_ranked fr)"
proof -
  note pcs = finish_pc [of _ AtFailBreaker] finish_pc [of _ AtFailHealth] finish_pc [of _ AtCountError]
    finish_pc [of _ "AtExecute c" for c] finish_pc [of _ AtOkBreaker] finish_pc [of _ AtOkHealth] finish_pc [of _ AtCountRouted]
    finish_pc [of _ AtCountCanary] finish_pc [of _ AtCountFallback] finish_pc [of _ AtLog] finish_returned
  note vars = frame_primary_def frame_model_def frame_fallback_def frame_canary_def frame_cost_def
  obtain pool r where pool: "pool_client (xs_pool s) (cs_executor_addr (hd (rf_ranked fr))) (xe_dial env) = (pool, r)"
    by (meson surj_pair)
  show ?thesis
  proof (cases r)
    case (Inl e)
    then show ?thesis
      using finish_pc [OF assms(1), of env s] assms pool
      by (simp add: pcs vars route_dispatch_def route_failure_def Let_def)
  next
    case r: (Inr c)
    show ?thesis
    proof (cases "xe_execute env c (route_execute_request (rf_req fr) (hd (rf_ranked fr)))")
      case (Inl e)
      then show ?thesis
        using finish_pc [OF assms(1), of env s] assms pool r
        by (simp add: pcs vars route_dispatch_def route_failure_def Let_def)
    next
      case (Inr er)
      then show ?thesis
        using finish_pc [OF assms(1), of env s] assms pool r
        by (simp add: pcs vars route_dispatch_def Let_def count_routed_def frame_response_def frame_entry_def
            route_response_def route_log_entry_def log_row_def split: option.split)
    qed
  qed
qed

lemma finish_ranked:
  assumes "rf_pc fr = AtScore" "rf_results fr = []" "rf_models fr = xs_models s" "rf_start fr = xe_start env" "rf_trace_id fr = xe_trace_id env"
  defines "ranked \<equiv> score (router_scorer s) (rf_sreq fr) (rf_todo fr)"
  shows "finish env s fr = (if length ranked = 0
      then (count_route_error s, Done (Inl (Status Unavailable (''no available models for task '' @ task_string (ir_task_type (rf_req fr))))))
      else route_dispatch s env (route_tenant (rf_req fr)) (rf_policy fr) (rf_sreq fr) (rf_req fr) ranked)"
proof -
  let ?fr = "fr\<lparr>rf_results := score_loop (router_scorer s) (request_weights (rf_sreq fr)) (rf_sreq fr) (rf_todo fr), rf_todo := []\<rparr>"
  have "finish env s fr = finish env s ?fr" using scoring_loop [OF assms(1), of env s] assms(2) by simp
  also have "\<dots> = (if length ranked = 0 then finish env s (?fr\<lparr>rf_ranked := ranked,
        rf_err := Status Unavailable (''no available models for task '' @ task_string (ir_task_type (rf_req fr))), rf_pc := AtCountError\<rparr>)
      else finish env s (?fr\<lparr>rf_ranked := ranked, rf_pc := AtClient\<rparr>))"
    using finish_pc [of ?fr AtScore env s] assms(1) by (simp add: ranked_def score_def Let_def)
  finally show ?thesis
    using assms(3-5) by (simp add: finish_pc [of _ AtCountError] finish_returned finish_dispatch)
qed

lemma finish_route:
  fixes s :: "'c router_server"
  shows "finish env s (new_frame (xe_start env) (xe_trace_id env) req) = route s env req"
proof -
  note pcs = finish_pc [of _ AtPolicyGet] finish_pc [of _ AtPolicyLoad] finish_pc [of _ AtPolicySet] finish_returned
  let ?tenant = "route_tenant req"
  obtain s1 p where p: "tenant_policy_of s env ?tenant = (s1, p)" by (meson surj_pair)
  define fr :: "'c route_frame" where "fr = (new_frame (xe_start env) (xe_trace_id env) req)\<lparr>rf_policy := p, rf_pc := AtLimiter\<rparr>"
  have fr: "rf_pc fr = AtLimiter" "rf_policy fr = p" "rf_req fr = req" "rf_start fr = xe_start env" "rf_trace_id fr = xe_trace_id env"
    by (simp_all add: fr_def new_frame_def)
  have 1: "finish env s (new_frame (xe_start env) (xe_trace_id env) req) = finish env s1 fr"
  proof (cases "policy_get (xs_policies s) ?tenant (xe_policy_now env)")
    case None
    then have "s1 = s\<lparr>xs_policies := policy_set (xs_policies s) p (xe_policy_stored env)\<rparr>"
      "p = (case load_tenant_policy (xe_unmarshal env) (xs_store s) (xe_policy_fails env) ?tenant of Inl e \<Rightarrow> default_policy ?tenant | Inr p \<Rightarrow> p)"
      using p None by (auto simp: tenant_policy_of_def Let_def)
    then show ?thesis using None by (simp add: fr_def new_frame_def pcs Let_def)
  qed (use p in \<open>simp add: fr_def new_frame_def pcs tenant_policy_of_def\<close>)
  obtain limiter ok where l: "limiter_allow (xs_limiter s1) ?tenant (tp_rate_limit p) (tp_burst_limit p) (xe_limiter_now env) = (limiter, ok)"
    by (meson surj_pair)
  let ?s2 = "s1\<lparr>xs_limiter := limiter\<rparr>"
  obtain s3 cs where c: "route_candidates (xe_breaker_now env) ?s2 (xs_models ?s2) = (s3, cs)" by (meson surj_pair)
  have m: "xs_models s3 = xs_models ?s2"
    using route_candidates_eq [of "xe_breaker_now env" ?s2 "xs_models ?s2"] c by auto
  let ?sreq = "route_scoring_request ?s2 p req"
  let ?fr = "fr\<lparr>rf_sreq := ?sreq, rf_models := xs_models ?s2, rf_todo := xs_models ?s2, rf_candidates := [], rf_pc := AtBreaker\<rparr>"
  have 2: "finish env s1 fr = (if ok then finish env ?s2 ?fr
      else (?s2, Done (Inl (Status ResourceExhausted (''rate limit exceeded for tenant '' @ ?tenant)))))"
    using finish_pc [OF fr(1), of env s1] l fr
    by (simp add: finish_pc [of _ AtWeights] finish_pc [of _ AtModels] finish_returned)
  have 3: "finish env ?s2 ?fr = finish env s3 (?fr\<lparr>rf_candidates := cs, rf_todo := cs, rf_results := [], rf_pc := AtScore\<rparr>)"
    using breaker_loop [of ?fr env ?s2 s3 cs] c by simp
  show ?thesis
    unfolding 1 2 3 route_def Let_def p prod.case l c
    by (simp add: finish_ranked m fr c [simplified])
qed

text \<open>Run alone, the steps are \<open>route\<close>, with the row of the goroutine that the call may have started.\<close>

lemma route_alone:
  fixes s :: "'c router_server"
  shows "\<exists>s' es fr' out. route_run (16 + 3 * length (xs_models s)) env s (new_frame (xe_start env) (xe_trace_id env) req) = (s', es, fr')
     \<and> rf_pc fr' = AtReturn out
     \<and> route s env req = (foldl (log_row (xe_log_works env) (xe_created_at env)) s' es, out)"
proof -
  let ?fr = "new_frame (xe_start env) (xe_trace_id env) req :: 'c route_frame"
  obtain s' es fr' where r: "route_run (16 + 3 * length (xs_models s)) env s ?fr = (s', es, fr')" by (metis prod_cases3)
  have rank: "frame_rank (length (xs_models s)) ?fr = 16 + 3 * length (xs_models s)" by (simp add: frame_rank_def new_frame_def)
  then obtain out where "rf_pc fr' = AtReturn out"
    using route_run_ends [of s ?fr "16 + 3 * length (xs_models s)" env] unfolding r by (auto simp: returned_def)
  then show ?thesis
    using r finish_route [of env s req] by (auto simp: finish_def rank frame_outcome_def)
qed

end
