(* ===== verification/RouterConcurrent.thy ===== *)
theory RouterConcurrent
  imports RouterSteps
begin

section \<open>Many calls of \<open>Route\<close> at once\<close>

text \<open>
  The router as its goroutines work on it: any number of calls, each at its own place in \<open>Route\<close>,
  the goroutines that write the audit log, the reload loop and the handler that stores rollouts. One step
  is one locked section or one read of the store, in any order; what a goroutine has read and not yet put in place is
  \<open>wd_models_read\<close> and \<open>wd_rollouts_read\<close>. The clock that they read does not go back. A goroutine that waits for a
  connection of the store takes no step, so nothing here says that a call returns. The store may have any number
  of connections: with the one that \<open>Open\<close> sets, the routers that start have no enabled model (\<open>router_start_blocks\<close>).
\<close>

subsection \<open>The interleaved router\<close>

record 'c route_world =
  wd_server :: "'c router_server"
  wd_frames :: "'c route_frame list"
  wd_logs :: "log_entry list"
  wd_models_read :: "model_record list list"
  wd_rollouts_read :: "repo_rollout list list"
  wd_now :: time

definition env_at :: "time \<Rightarrow> 'c route_env \<Rightarrow> bool" where
  "env_at t env \<longleftrightarrow> xe_policy_now env = t \<and> xe_policy_stored env = t \<and> xe_limiter_now env = t
     \<and> (\<forall>k. xe_breaker_now env k = t) \<and> xe_outcome_now env = t \<and> xe_end env = t"

text \<open>\<open>ok\<close> is what is taken of the environment of a step of a call: nothing, for \<open>world_step\<close>.\<close>

inductive world_step_in :: "('c route_env \<Rightarrow> bool) \<Rightarrow> 'c route_world \<Rightarrow> 'c route_world \<Rightarrow> bool" for ok where
  arrive: "wd_now w \<le> t \<Longrightarrow>
    world_step_in ok w (w\<lparr>wd_frames := wd_frames w @ [new_frame t trace_id req], wd_now := t\<rparr>)"
| move: "i < length (wd_frames w) \<Longrightarrow> wd_now w \<le> t \<Longrightarrow> env_at t env \<Longrightarrow>
    route_step env (wd_server w) (wd_frames w ! i) = (s', es, fr') \<Longrightarrow> ok env \<Longrightarrow>
    world_step_in ok w (w\<lparr>wd_server := s', wd_frames := (wd_frames w)[i := fr'], wd_logs := wd_logs w @ es, wd_now := t\<rparr>)"
| log: "wd_logs w = es @ e # es' \<Longrightarrow>
    world_step_in ok w (w\<lparr>wd_server := log_row works created (wd_server w) e, wd_logs := es @ es'\<rparr>)"
| read_models: "load_models conns (xs_store (wd_server w)) fails works = Some (Inr ms) \<Longrightarrow>
    world_step_in ok w (w\<lparr>wd_models_read := ms # wd_models_read w\<rparr>)"
| set_models: "wd_models_read w = mss @ ms # mss' \<Longrightarrow>
    world_step_in ok w (w\<lparr>wd_server := (wd_server w)\<lparr>xs_models := ms\<rparr>, wd_models_read := mss @ mss'\<rparr>)"
| store_rollout: "upsert_rollout (xs_store (wd_server w)) fails cfg = (store, e) \<Longrightarrow>
    world_step_in ok w (w\<lparr>wd_server := (wd_server w)\<lparr>xs_store := store\<rparr>\<rparr>)"
| read_rollouts: "cfgs = (case load_rollouts (xs_store (wd_server w)) outcome of Inl e \<Rightarrow> [] | Inr cfgs \<Rightarrow> cfgs) \<Longrightarrow>
    world_step_in ok w (w\<lparr>wd_rollouts_read := cfgs # wd_rollouts_read w\<rparr>)"
| set_rollouts: "wd_rollouts_read w = css @ cfgs # css' \<Longrightarrow>
    world_step_in ok w (w\<lparr>wd_server := (wd_server w)\<lparr>xs_canary := canary_reload (xs_canary (wd_server w)) cfgs\<rparr>, wd_rollouts_read := css @ css'\<rparr>)"

abbreviation world_step :: "'c route_world \<Rightarrow> 'c route_world \<Rightarrow> bool" where
  "world_step \<equiv> world_step_in (\<lambda>_. True)"

lemma world_step_any: "world_step_in ok w w' \<Longrightarrow> world_step w w'"
  by (induction rule: world_step_in.induct) (auto intro: world_step_in.intros)

lemma world_run_any: "(world_step_in ok)\<^sup>*\<^sup>* w w' \<Longrightarrow> world_step\<^sup>*\<^sup>* w w'"
  by (metis mono_rtranclp world_step_any)

text \<open>\<open>NewRouterServer\<close> has returned, and no call has arrived.\<close>

definition world_start :: "repo_store \<Rightarrow> 'c route_world \<Rightarrow> bool" where
  "world_start store w \<longleftrightarrow> (\<exists>conns mf works rf. new_router_server conns store mf works rf = Some (Inr (wd_server w)))
     \<and> wd_frames w = [] \<and> wd_logs w = [] \<and> wd_models_read w = [] \<and> wd_rollouts_read w = []"

subsection \<open>What the variables of a call hold\<close>

definition asked :: "'c route_frame \<Rightarrow> bool" where
  "asked fr \<longleftrightarrow> sq_task (rf_sreq fr) = task_string (ir_task_type (rf_req fr))
     \<and> sq_allowed_models (rf_sreq fr) = tp_allowed_models (rf_policy fr)"

definition from_candidates :: "'c route_frame \<Rightarrow> candidate_score list \<Rightarrow> bool" where
  "from_candidates fr cs \<longleftrightarrow> (\<forall>c \<in> set cs. \<exists>m \<in> set (rf_candidates fr). eligible (rf_sreq fr) m
     \<and> cs_model_id c = mr_model_id m \<and> cs_executor_addr c = mr_executor_addr m)"

definition dispatched :: "'c route_frame \<Rightarrow> bool" where
  "dispatched fr \<longleftrightarrow> asked fr \<and> set (rf_candidates fr) \<subseteq> set (rf_models fr) \<and> rf_ranked fr \<noteq> []
     \<and> from_candidates fr (rf_ranked fr)"

lemma dispatched_primary:
  assumes "dispatched fr"
  obtains m where "m \<in> set (rf_candidates fr)" "m \<in> set (rf_models fr)" "eligible (rf_sreq fr) m" "frame_model fr = mr_model_id m"
    "cs_executor_addr (frame_primary fr) = mr_executor_addr m"
  using assms hd_in_set [of "rf_ranked fr"]
  by (fastforce simp: dispatched_def from_candidates_def frame_model_def frame_primary_def)

fun unserved :: "err \<Rightarrow> bool" where
  "unserved (Status c m) \<longleftrightarrow> c = Unavailable \<or> c = Internal"
| "unserved (Plain m) \<longleftrightarrow> False"

fun turned_away :: "err \<Rightarrow> bool" where
  "turned_away (Status c m) \<longleftrightarrow> c = ResourceExhausted"
| "turned_away (Plain m) \<longleftrightarrow> False"

fun pc_ok :: "'c route_frame \<Rightarrow> 'c route_pc \<Rightarrow> bool" where
  "pc_ok fr AtPolicyGet \<longleftrightarrow> rf_ranked fr = [] \<and> rf_candidates fr = []"
| "pc_ok fr AtPolicyLoad \<longleftrightarrow> rf_ranked fr = [] \<and> rf_candidates fr = []"
| "pc_ok fr AtPolicySet \<longleftrightarrow> rf_ranked fr = [] \<and> rf_candidates fr = []"
| "pc_ok fr AtLimiter \<longleftrightarrow> rf_ranked fr = [] \<and> rf_candidates fr = []"
| "pc_ok fr AtWeights \<longleftrightarrow> rf_ranked fr = [] \<and> rf_candidates fr = []"
| "pc_ok fr AtModels \<longleftrightarrow> rf_ranked fr = [] \<and> rf_candidates fr = [] \<and> asked fr"
| "pc_ok fr AtBreaker \<longleftrightarrow> rf_ranked fr = [] \<and> asked fr \<and> set (rf_todo fr) \<union> set (rf_candidates fr) \<subseteq> set (rf_models fr)"
| "pc_ok fr AtBlocked \<longleftrightarrow> rf_ranked fr = [] \<and> asked fr \<and> set (rf_todo fr) \<union> set (rf_candidates fr) \<subseteq> set (rf_models fr)"
| "pc_ok fr AtScore \<longleftrightarrow> rf_ranked fr = [] \<and> asked fr \<and> set (rf_candidates fr) \<subseteq> set (rf_models fr)
     \<and> set (rf_todo fr) \<subseteq> set (rf_candidates fr) \<and> from_candidates fr (rf_results fr)"
| "pc_ok fr AtFailBreaker \<longleftrightarrow> dispatched fr \<and> unserved (rf_err fr)"
| "pc_ok fr AtFailHealth \<longleftrightarrow> dispatched fr \<and> unserved (rf_err fr)"
| "pc_ok fr AtCountError \<longleftrightarrow> (rf_ranked fr = [] \<or> dispatched fr) \<and> unserved (rf_err fr)"
| "pc_ok fr (AtReturn (Done (Inr resp))) \<longleftrightarrow> dispatched fr \<and> resp = frame_response fr"
| "pc_ok fr (AtReturn (Done (Inl e))) \<longleftrightarrow> (if rf_ranked fr = [] then unserved e \<or> turned_away e else dispatched fr \<and> unserved e)"
| "pc_ok fr (AtReturn (Panicked p)) \<longleftrightarrow> False"
| "pc_ok fr pc \<longleftrightarrow> dispatched fr"

definition frame_ok :: "'c route_frame \<Rightarrow> bool" where
  "frame_ok fr \<longleftrightarrow> pc_ok fr (rf_pc fr)"

text \<open>Which calls a counter has counted, and which the health tracker knows.\<close>

fun counted_routed :: "'c route_pc \<Rightarrow> bool" where
  "counted_routed AtCountCanary = True"
| "counted_routed AtCountFallback = True"
| "counted_routed AtLog = True"
| "counted_routed (AtReturn (Done (Inr resp))) = True"
| "counted_routed pc = False"

fun counted_canary :: "'c route_pc \<Rightarrow> bool" where
  "counted_canary AtCountFallback = True"
| "counted_canary AtLog = True"
| "counted_canary (AtReturn (Done (Inr resp))) = True"
| "counted_canary pc = False"

fun counted_error :: "'c route_pc \<Rightarrow> bool" where
  "counted_error (AtReturn (Done (Inl e))) = unserved e"
| "counted_error pc = False"

fun answered_ok :: "'c route_pc \<Rightarrow> bool" where
  "answered_ok (AtReturn (Done (Inr resp))) = True"
| "answered_ok pc = False"

fun known_success :: "'c route_pc \<Rightarrow> bool" where
  "known_success AtCountRouted = True"
| "known_success pc = counted_routed pc"

fun known_failure :: "'c route_pc \<Rightarrow> bool" where
  "known_failure AtCountError = True"
| "known_failure (AtReturn (Done (Inl e))) = True"
| "known_failure pc = False"

definition succeeded_with :: "string \<Rightarrow> 'c route_frame \<Rightarrow> bool" where
  "succeeded_with k fr \<longleftrightarrow> known_success (rf_pc fr) \<and> frame_model fr = k"

definition failed_with :: "string \<Rightarrow> 'c route_frame \<Rightarrow> bool" where
  "failed_with k fr \<longleftrightarrow> known_failure (rf_pc fr) \<and> rf_ranked fr \<noteq> [] \<and> frame_model fr = k"

definition is_answered :: "'c route_frame \<Rightarrow> bool" where
  "is_answered fr \<longleftrightarrow> answered_ok (rf_pc fr)"

subsection \<open>One step of a call\<close>

lemma frame_pc_frame [simp]:
  "frame_primary (fr\<lparr>rf_pc := pc\<rparr>) = frame_primary fr" "frame_model (fr\<lparr>rf_pc := pc\<rparr>) = frame_model fr"
  "frame_canary (fr\<lparr>rf_pc := pc\<rparr>) = frame_canary fr" "frame_entry (fr\<lparr>rf_pc := pc\<rparr>) = frame_entry fr"
  "frame_response (fr\<lparr>rf_pc := pc\<rparr>) = frame_response fr" "dispatched (fr\<lparr>rf_pc := pc\<rparr>) = dispatched fr"
  "asked (fr\<lparr>rf_pc := pc\<rparr>) = asked fr" "from_candidates (fr\<lparr>rf_pc := pc\<rparr>) cs = from_candidates fr cs"
  by (simp_all add: frame_primary_def frame_model_def frame_canary_def frame_entry_def frame_response_def frame_cost_def
      frame_fallback_def dispatched_def asked_def from_candidates_def)

lemma frame_outcome_frame [simp]:
  "dispatched (fr\<lparr>rf_err := e\<rparr>) = dispatched fr" "dispatched (fr\<lparr>rf_exec := er, rf_latency_ms := l\<rparr>) = dispatched fr"
  "frame_model (fr\<lparr>rf_err := e\<rparr>) = frame_model fr" "frame_model (fr\<lparr>rf_exec := er, rf_latency_ms := l\<rparr>) = frame_model fr"
  by (simp_all add: dispatched_def asked_def from_candidates_def frame_model_def frame_primary_def)

lemma no_fallback [simp]: "frame_fallback fr = False"
  by (simp add: frame_fallback_def frame_primary_def)


lemma frame_ok_step:
  assumes "frame_ok fr" "tracker_of ev (xs_health s)" "route_step env s fr = (s', es, fr')"
  shows "frame_ok fr'"
proof -
  have ok: "pc_ok fr (rf_pc fr)" using assms(1) by (simp add: frame_ok_def)
  note r = assms(3) [unfolded route_step_def]
  show ?thesis
  proof (cases "rf_pc fr")
    case AtOkHealth
    obtain h where "record_success (xs_health s) (frame_model fr) (rf_latency_ms fr) (xe_outcome_now env) = Some h"
      using record_success_Some [OF assms(2)] by blast
    then show ?thesis using r ok AtOkHealth by (auto simp: frame_ok_def)
  next
    case AtScore
    show ?thesis
    proof (cases "rf_todo fr")
      case Nil
      have "set (sort_results (rf_results fr)) = set (rf_results fr)" by (simp add: sort_results_def)
      then show ?thesis using r ok AtScore Nil
        by (auto simp: frame_ok_def Let_def dispatched_def from_candidates_def asked_def split: if_splits)
    next
      case (Cons m ms)
      have "from_candidates fr (rf_results fr @ score_loop (router_scorer s) (request_weights (rf_sreq fr)) (rf_sreq fr) [m])"
        using ok AtScore Cons by (auto simp: from_candidates_def score_loop_filter)
      then show ?thesis using r ok AtScore Cons by (auto simp: frame_ok_def asked_def from_candidates_def)
    qed
  next
    case AtBreaker
    then show ?thesis
      using r ok by (auto simp: frame_ok_def from_candidates_def asked_def split: list.splits prod.splits if_splits)
  next
    case AtClient
    then show ?thesis using r ok by (auto simp: frame_ok_def split: prod.splits sum.splits)
  next
    case (AtExecute c)
    then show ?thesis using r ok by (auto simp: frame_ok_def split: sum.splits)
  next
    case AtPolicyGet
    then show ?thesis using r ok by (auto simp: frame_ok_def split: option.splits)
  next
    case AtLimiter
    then show ?thesis using r ok by (auto simp: frame_ok_def Let_def split: prod.splits)
  next
    case AtCountError
    then show ?thesis using r ok by (auto simp: frame_ok_def)
  next
    case AtWeights
    then show ?thesis using r ok by (auto simp: frame_ok_def asked_def route_scoring_request_def)
  next
    case AtModels
    then show ?thesis using r ok by (auto simp: frame_ok_def asked_def)
  qed (use r ok in \<open>auto simp: frame_ok_def Let_def\<close>)
qed

text \<open>What a step does to the counters, the store and the health tracker.\<close>

lemma route_step_metrics:
  assumes "route_step env s fr = (s', es, fr')"
  shows "xm_routed (xs_metrics s') = xm_routed (xs_metrics s) + of_bool (rf_pc fr = AtCountRouted)"
    "xm_errors (xs_metrics s') = xm_errors (xs_metrics s) + of_bool (rf_pc fr = AtCountError)"
    "xm_canary (xs_metrics s') = xm_canary (xs_metrics s) + of_bool (rf_pc fr = AtCountCanary \<and> frame_canary fr)"
    "xm_fallbacks (xs_metrics s') = xm_fallbacks (xs_metrics s)" "xs_store s' = xs_store s" "xs_models s' = xs_models s"
    "es = (if rf_pc fr = AtLog then [frame_entry fr] else [])"
proof -
  have e: "s' = fst (route_at (rf_pc fr) env s fr)" "es = fst (snd (route_at (rf_pc fr) env s fr))"
    using assms by (simp_all add: route_step_def)
  show "es = (if rf_pc fr = AtLog then [frame_entry fr] else [])" unfolding e(2) by (rule route_at_spawns)
  show "xm_routed (xs_metrics s') = xm_routed (xs_metrics s) + of_bool (rf_pc fr = AtCountRouted)"
    "xm_errors (xs_metrics s') = xm_errors (xs_metrics s) + of_bool (rf_pc fr = AtCountError)"
    "xm_canary (xs_metrics s') = xm_canary (xs_metrics s) + of_bool (rf_pc fr = AtCountCanary \<and> frame_canary fr)"
    "xm_fallbacks (xs_metrics s') = xm_fallbacks (xs_metrics s)" "xs_store s' = xs_store s" "xs_models s' = xs_models s"
    unfolding e(1)
    by (cases "rf_pc fr"; simp add: Let_def count_route_error_def split: option.split list.split prod.split sum.split)+
qed

lemma route_step_counted:
  assumes "frame_ok fr" "route_step env s fr = (s', es, fr')"
  shows "(of_bool (counted_routed (rf_pc fr')) :: nat) = of_bool (counted_routed (rf_pc fr)) + of_bool (rf_pc fr = AtCountRouted)"
    "(of_bool (counted_error (rf_pc fr')) :: nat) = of_bool (counted_error (rf_pc fr)) + of_bool (rf_pc fr = AtCountError)"
    "(of_bool (counted_canary (rf_pc fr') \<and> frame_canary fr') :: nat) =
      of_bool (counted_canary (rf_pc fr) \<and> frame_canary fr) + of_bool (rf_pc fr = AtCountCanary \<and> frame_canary fr)"
    "is_answered fr' \<longleftrightarrow> is_answered fr \<or> rf_pc fr = AtLog" "is_answered fr' \<Longrightarrow> frame_entry fr' = frame_entry fr"
proof -
  have ok: "pc_ok fr (rf_pc fr)" using assms(1) by (simp add: frame_ok_def)
  have e: "fr' = snd (snd (route_at (rf_pc fr) env s fr))" using assms(2) by (simp add: route_step_def)
  show "(of_bool (counted_routed (rf_pc fr')) :: nat) = of_bool (counted_routed (rf_pc fr)) + of_bool (rf_pc fr = AtCountRouted)"
    unfolding e by (cases "rf_pc fr") (simp_all add: Let_def split: option.split list.split prod.split sum.split)
  show "(of_bool (counted_error (rf_pc fr')) :: nat) = of_bool (counted_error (rf_pc fr)) + of_bool (rf_pc fr = AtCountError)"
    unfolding e using ok by (cases "rf_pc fr") (simp_all add: Let_def split: option.split list.split prod.split sum.split)
  show "(of_bool (counted_canary (rf_pc fr') \<and> frame_canary fr') :: nat) =
      of_bool (counted_canary (rf_pc fr) \<and> frame_canary fr) + of_bool (rf_pc fr = AtCountCanary \<and> frame_canary fr)"
    unfolding e by (cases "rf_pc fr") (simp_all add: Let_def split: option.split list.split prod.split sum.split)
  show "is_answered fr' \<longleftrightarrow> is_answered fr \<or> rf_pc fr = AtLog"
    unfolding e is_answered_def by (cases "rf_pc fr") (simp_all add: Let_def split: option.split list.split prod.split sum.split)
  show "is_answered fr' \<Longrightarrow> frame_entry fr' = frame_entry fr"
    unfolding e is_answered_def by (cases "rf_pc fr") (simp_all add: Let_def split: option.splits list.splits prod.splits sum.splits if_splits)
qed

text \<open>A success and a failure are one event of the model that the call was sent to.\<close>

lemma route_step_health:
  assumes "frame_ok fr" "tracker_of ev (xs_health s)" "route_step env s fr = (s', es, fr')"
  shows "\<exists>ev'. tracker_of ev' (xs_health s')
    \<and> (\<forall>k. tally (\<lambda>e. fst e = 1) (ev' k) + of_bool (succeeded_with k fr) = tally (\<lambda>e. fst e = 1) (ev k) + of_bool (succeeded_with k fr')
         \<and> tally (\<lambda>e. fst e = 0) (ev' k) + of_bool (failed_with k fr) = tally (\<lambda>e. fst e = 0) (ev k) + of_bool (failed_with k fr'))"
proof -
  have ok: "pc_ok fr (rf_pc fr)" using assms(1) by (simp add: frame_ok_def)
  note r = assms(3) [unfolded route_step_def]
  consider (success) "rf_pc fr = AtOkHealth" | (failure) "rf_pc fr = AtFailHealth" | (other) "rf_pc fr \<noteq> AtOkHealth" "rf_pc fr \<noteq> AtFailHealth"
    by blast
  then show ?thesis
  proof cases
    case success
    obtain h where h: "record_success (xs_health s) (frame_model fr) (rf_latency_ms fr) (xe_outcome_now env) = Some h"
      "tracker_of (ev(frame_model fr := ev (frame_model fr) @ [(1, rf_latency_ms fr)])) h"
      using record_success_Some [OF assms(2)] by blast
    then show ?thesis using r success
      by (intro exI [of _ "ev(frame_model fr := ev (frame_model fr) @ [(1, rf_latency_ms fr)])"])
        (auto simp: succeeded_with_def failed_with_def)
  next
    case failure
    then show ?thesis using r record_failure_of [OF assms(2), of "frame_model fr" "xe_outcome_now env"] ok
      by (intro exI [of _ "ev(frame_model fr := ev (frame_model fr) @ [(0, f64_zero)])"])
        (auto simp: succeeded_with_def failed_with_def dispatched_def)
  next
    case other
    have e: "fr' = snd (snd (route_at (rf_pc fr) env s fr))" "s' = fst (route_at (rf_pc fr) env s fr)" using r by simp_all
    have "xs_health s' = xs_health s"
      unfolding e(2) using other
      by (cases "rf_pc fr") (simp_all add: Let_def count_route_error_def split: option.split list.split prod.split sum.split)
    moreover have "succeeded_with k fr' = succeeded_with k fr" for k
      unfolding e(1) succeeded_with_def using other
      by (cases "rf_pc fr") (simp_all add: Let_def split: option.split list.split prod.split sum.split)
    moreover have "failed_with k fr' = failed_with k fr" for k
      unfolding e(1) failed_with_def using other ok
      by (cases "rf_pc fr") (simp_all add: Let_def split: option.split list.split prod.split sum.split)
    ultimately show ?thesis using assms(2) by (intro exI [of _ ev]) simp
  qed
qed

subsection \<open>The books under every interleaving\<close>

definition frames_counted :: "'c route_world \<Rightarrow> bool" where
  "frames_counted w \<longleftrightarrow> (let m = xs_metrics (wd_server w); fs = wd_frames w in
     xm_routed m = of_nat (tally (\<lambda>fr. counted_routed (rf_pc fr)) fs)
     \<and> xm_errors m = of_nat (tally (\<lambda>fr. counted_error (rf_pc fr)) fs)
     \<and> xm_canary m = of_nat (tally (\<lambda>fr. counted_canary (rf_pc fr) \<and> frame_canary fr) fs)
     \<and> xm_fallbacks m = 0)"

definition health_counted :: "'c route_world \<Rightarrow> bool" where
  "health_counted w \<longleftrightarrow> (\<exists>ev. tracker_of ev (xs_health (wd_server w)) \<and> (\<forall>k.
     tally (\<lambda>e. fst e = 1) (ev k) = tally (succeeded_with k) (wd_frames w)
     \<and> tally (\<lambda>e. fst e = 0) (ev k) = tally (failed_with k) (wd_frames w)))"

definition answered_entries :: "'c route_frame list \<Rightarrow> log_entry multiset" where
  "answered_entries fs = mset (map frame_entry (filter is_answered fs))"

definition audit_backed :: "repo_store \<Rightarrow> 'c route_world \<Rightarrow> bool" where
  "audit_backed store w \<longleftrightarrow> (\<exists>new. st_request_log (xs_store (wd_server w)) = st_request_log store @ new
     \<and> mset (map snd new) + mset (wd_logs w) \<subseteq># answered_entries (wd_frames w))"

definition world_books :: "repo_store \<Rightarrow> 'c route_world \<Rightarrow> bool" where
  "world_books store w \<longleftrightarrow> (\<forall>fr \<in> set (wd_frames w). frame_ok fr) \<and> frames_counted w \<and> health_counted w \<and> audit_backed store w"

lemma answered_update:
  assumes "i < length fs"
  shows "answered_entries (fs[i := x]) + (if is_answered (fs ! i) then {#frame_entry (fs ! i)#} else {#})
    = answered_entries fs + (if is_answered x then {#frame_entry x#} else {#})"
proof -
  have "fs = take i fs @ fs ! i # drop (Suc i) fs" by (rule id_take_nth_drop [OF assms])
  then have "answered_entries fs = answered_entries (take i fs @ fs ! i # drop (Suc i) fs)" by simp
  then show ?thesis by (simp add: upd_conv_take_nth_drop [OF assms] answered_entries_def)
qed

lemma new_frame_counted [simp]:
  "frame_ok (new_frame t tid req)" "\<not> counted_routed (rf_pc (new_frame t tid req))" "\<not> counted_error (rf_pc (new_frame t tid req))"
  "\<not> counted_canary (rf_pc (new_frame t tid req))" "\<not> is_answered (new_frame t tid req)"
  "\<not> succeeded_with k (new_frame t tid req)" "\<not> failed_with k (new_frame t tid req)"
  by (simp_all add: new_frame_def frame_ok_def is_answered_def succeeded_with_def failed_with_def)

lemma new_router_fresh:
  assumes "new_router_server conns store mf works rf = Some (Inr s)"
  shows "xs_store s = store" "xs_health s = new_health_tracker" "xs_breakers s = new_breakers"
    "xs_metrics s = \<lparr>xm_routed = 0, xm_fallbacks = 0, xm_cb_blocked = 0, xm_canary = 0, xm_cache_hits = 0, xm_errors = 0\<rparr>"
proof -
  obtain r where "load_models conns store mf works = Some r" using assms by (auto simp: new_router_server_def)
  then show "xs_store s = store" "xs_health s = new_health_tracker" "xs_breakers s = new_breakers"
    "xs_metrics s = \<lparr>xm_routed = 0, xm_fallbacks = 0, xm_cb_blocked = 0, xm_canary = 0, xm_cache_hits = 0, xm_errors = 0\<rparr>"
    using assms by (cases r; auto simp: new_router_server_def Let_def)+
qed

lemma world_books_start:
  assumes "world_start store w"
  shows "world_books store w"
proof -
  obtain conns mf works rf where new: "new_router_server conns store mf works rf = Some (Inr (wd_server w))"
    and e: "wd_frames w = []" "wd_logs w = []" using assms by (auto simp: world_start_def)
  note fresh = new_router_fresh [OF new]
  have "health_counted w" unfolding health_counted_def fresh e by (rule exI [of _ "\<lambda>_. []"]) (simp add: tracker_of_new)
  moreover have "frames_counted w" by (simp add: frames_counted_def fresh e)
  moreover have "audit_backed store w" by (simp add: audit_backed_def fresh e answered_entries_def)
  ultimately show ?thesis by (simp add: world_books_def e)
qed

lemma world_books_move:
  assumes "world_books store w" "i < length (wd_frames w)" "route_step env (wd_server w) (wd_frames w ! i) = (s', es, fr')"
  shows "world_books store (w\<lparr>wd_server := s', wd_frames := (wd_frames w)[i := fr'], wd_logs := wd_logs w @ es, wd_now := t\<rparr>)"
proof -
  let ?fr = "wd_frames w ! i" and ?fs = "(wd_frames w)[i := fr']"
  obtain ev where ev: "tracker_of ev (xs_health (wd_server w))"
    "\<forall>k. tally (\<lambda>e. fst e = 1) (ev k) = tally (succeeded_with k) (wd_frames w) \<and> tally (\<lambda>e. fst e = 0) (ev k) = tally (failed_with k) (wd_frames w)"
    using assms(1) by (auto simp: world_books_def health_counted_def)
  have ok: "frame_ok ?fr" using assms(1,2) by (simp add: world_books_def)
  note ok' = frame_ok_step [OF ok ev(1) assms(3)]
  note m = route_step_metrics [OF assms(3)] and c = route_step_counted [OF ok assms(3)]
  have frames: "\<forall>fr \<in> set ?fs. frame_ok fr"
    using assms(1) ok' set_update_subset_insert [of "wd_frames w" i fr'] by (auto simp: world_books_def)
  have up: "tally P ?fs + of_bool (P ?fr) = tally P (wd_frames w) + of_bool (P fr')" for P
    by (rule tally_update [OF assms(2)])
  have "tally (\<lambda>fr. counted_routed (rf_pc fr)) ?fs = tally (\<lambda>fr. counted_routed (rf_pc fr)) (wd_frames w) + of_bool (rf_pc ?fr = AtCountRouted)"
    "tally (\<lambda>fr. counted_error (rf_pc fr)) ?fs = tally (\<lambda>fr. counted_error (rf_pc fr)) (wd_frames w) + of_bool (rf_pc ?fr = AtCountError)"
    "tally (\<lambda>fr. counted_canary (rf_pc fr) \<and> frame_canary fr) ?fs =
      tally (\<lambda>fr. counted_canary (rf_pc fr) \<and> frame_canary fr) (wd_frames w) + of_bool (rf_pc ?fr = AtCountCanary \<and> frame_canary ?fr)"
    using up [of "\<lambda>fr. counted_routed (rf_pc fr)"] up [of "\<lambda>fr. counted_error (rf_pc fr)"]
      up [of "\<lambda>fr. counted_canary (rf_pc fr) \<and> frame_canary fr"] c(1-3) by linarith+
  then have counted: "frames_counted (w\<lparr>wd_server := s', wd_frames := ?fs, wd_logs := wd_logs w @ es, wd_now := t\<rparr>)"
    using assms(1) m by (simp add: world_books_def frames_counted_def Let_def)
  obtain ev' where ev': "tracker_of ev' (xs_health s')"
    "\<forall>k. tally (\<lambda>e. fst e = 1) (ev' k) + of_bool (succeeded_with k ?fr) = tally (\<lambda>e. fst e = 1) (ev k) + of_bool (succeeded_with k fr')
         \<and> tally (\<lambda>e. fst e = 0) (ev' k) + of_bool (failed_with k ?fr) = tally (\<lambda>e. fst e = 0) (ev k) + of_bool (failed_with k fr')"
    using route_step_health [OF ok ev(1) assms(3)] by blast
  have "tally (\<lambda>e. fst e = 1) (ev' k) = tally (succeeded_with k) ?fs \<and> tally (\<lambda>e. fst e = 0) (ev' k) = tally (failed_with k) ?fs" for k
    using ev(2) ev'(2) up [of "succeeded_with k"] up [of "failed_with k"] by (metis add_right_cancel)
  then have health: "health_counted (w\<lparr>wd_server := s', wd_frames := ?fs, wd_logs := wd_logs w @ es, wd_now := t\<rparr>)"
    using ev'(1) by (auto simp: health_counted_def)
  have "answered_entries ?fs = answered_entries (wd_frames w) + mset es"
  proof (cases "rf_pc ?fr = AtLog")
    case True
    then have "\<not> is_answered ?fr" by (simp add: is_answered_def)
    then show ?thesis using answered_update [OF assms(2), of fr'] c(4,5) m(7) True by simp
  next
    case False
    then show ?thesis using answered_update [OF assms(2), of fr'] c(4,5) m(7) by (auto split: if_splits)
  qed
  then have audit: "audit_backed store (w\<lparr>wd_server := s', wd_frames := ?fs, wd_logs := wd_logs w @ es, wd_now := t\<rparr>)"
    using assms(1) m(5) by (fastforce simp: world_books_def audit_backed_def ac_simps)
  show ?thesis using frames counted health audit by (simp add: world_books_def)
qed

lemma world_books_step:
  assumes "world_books store w" "world_step w w'"
  shows "world_books store w'"
  using assms(2)
proof cases
  case (move i t env s' es fr')
  then show ?thesis using world_books_move [OF assms(1)] by blast
next
  case (log es e es' works created)
  obtain new where new: "st_request_log (xs_store (wd_server w)) = st_request_log store @ new"
    "mset (map snd new) + mset (wd_logs w) \<subseteq># answered_entries (wd_frames w)"
    using assms(1) by (auto simp: world_books_def audit_backed_def)
  have "mset (map snd (new @ (if works then [(created, e)] else []))) + mset (es @ es') \<subseteq># mset (map snd new) + mset (wd_logs w)"
    using log by simp
  then have "audit_backed store w'"
    using log new unfolding audit_backed_def
    by (intro exI [of _ "new @ (if works then [(created, e)] else [])"] conjI)
      (simp_all add: log_row_def log_request_def subset_mset.order_trans del: map_append mset_append mset_map)
  then show ?thesis using assms(1) log
    by (simp add: world_books_def frames_counted_def health_counted_def log_row_def)
next
  case (store_rollout fails cfg st e)
  then have "st_request_log st = st_request_log (xs_store (wd_server w))"
    by (auto simp: upsert_rollout_def Let_def split: option.splits)
  then show ?thesis using assms(1) store_rollout
    by (simp add: world_books_def frames_counted_def health_counted_def audit_backed_def)
qed (use assms(1) in \<open>auto simp: world_books_def frames_counted_def health_counted_def audit_backed_def answered_entries_def Let_def\<close>)

interpretation router_machine: machine "world_start store" world_step "world_books store" for store
  by unfold_locales (rule world_books_start, assumption, rule world_books_step)

subsection \<open>The breakers under every interleaving\<close>

text \<open>Every breaker satisfies its invariant, and one that is open has opened in the past.\<close>

definition breakers_ok :: "time \<Rightarrow> breakers \<Rightarrow> bool" where
  "breakers_ok now brs \<longleftrightarrow> (\<forall>k. breaker_inv (breaker_of brs k) \<and> (\<forall>t. breaker_abs (breaker_of brs k) = Open t \<longrightarrow> t \<le> now))"

text \<open>What a step makes of a breaker is a step of the breaker, at the time of the step.\<close>

lemma route_step_breakers:
  assumes "route_step env s fr = (s', es, fr')" "env_at t env"
  shows "breaker_of (xs_breakers s') k = breaker_of (xs_breakers s) k
    \<or> (\<exists>ev. breaker_of (xs_breakers s') k = breaker_step (breaker_of (xs_breakers s) k) (ev, t))"
proof -
  have e: "s' = fst (route_at (rf_pc fr) env s fr)" using assms by (simp add: route_step_def)
  have t: "xe_breaker_now env = (\<lambda>_. t)" "xe_outcome_now env = t" using assms(2) by (auto simp: env_at_def)
  show ?thesis
  proof (cases "rf_pc fr")
    case AtBreaker
    show ?thesis
      unfolding e AtBreaker
      by (cases "rf_todo fr") (auto simp: t breaker_calls breaker_of_upd intro: exI [of _ Ask])
  next
    case AtFailBreaker
    show ?thesis unfolding e AtFailBreaker
      by (auto simp: t breaker_calls breaker_of_upd intro: exI [of _ Failed])
  next
    case AtOkBreaker
    show ?thesis unfolding e AtOkBreaker
      by (auto simp: t breaker_calls breaker_of_upd intro: exI [of _ Succeeded])
  qed (simp_all add: e Let_def count_route_error_def split: option.split list.split prod.split sum.split)
qed

lemma spec_step_opened:
  "spec_step b (ev, t) = Open u \<Longrightarrow> u = t \<or> b = Open u"
  by (cases b; cases ev) (auto split: if_splits)

lemma breakers_ok_move:
  assumes "breakers_ok now (xs_breakers s)" "route_step env s fr = (s', es, fr')" "env_at t env" "now \<le> t"
  shows "breakers_ok t (xs_breakers s')"
  unfolding breakers_ok_def
proof (intro allI conjI impI)
  fix k
  let ?b = "breaker_of (xs_breakers s) k" and ?b' = "breaker_of (xs_breakers s') k"
  have inv: "breaker_inv ?b" and open_le: "\<And>u. breaker_abs ?b = Open u \<Longrightarrow> u \<le> now" using assms(1) by (auto simp: breakers_ok_def)
  from route_step_breakers [OF assms(2,3), of k]
  have "breaker_inv ?b' \<and> (\<forall>u. breaker_abs ?b' = Open u \<longrightarrow> u \<le> t)"
  proof
    assume "?b' = ?b"
    then show ?thesis using inv open_le assms(4) by fastforce
  next
    assume "\<exists>ev. ?b' = breaker_step ?b (ev, t)"
    then obtain ev where "?b' = breaker_step ?b (ev, t)" ..
    then show ?thesis using breaker_step_refines [OF inv, of "(ev, t)"] spec_step_opened [of "breaker_abs ?b" ev t] open_le assms(4)
      by fastforce
  qed
  then show "breaker_inv ?b'" "\<And>u. breaker_abs ?b' = Open u \<Longrightarrow> u \<le> t" by blast+
qed

lemma breakers_ok_later: "breakers_ok now brs \<Longrightarrow> now \<le> t \<Longrightarrow> breakers_ok t brs"
  by (fastforce simp: breakers_ok_def)

definition world_ok :: "'c route_world \<Rightarrow> bool" where
  "world_ok w \<longleftrightarrow> (\<forall>fr \<in> set (wd_frames w). frame_ok fr) \<and> (\<exists>ev. tracker_of ev (xs_health (wd_server w)))
     \<and> breakers_ok (wd_now w) (xs_breakers (wd_server w))"

lemma world_ok_step:
  assumes "world_ok w" "world_step w w'"
  shows "world_ok w'"
  using assms(2)
proof cases
  case (move i t env s' es fr')
  obtain ev where ev: "tracker_of ev (xs_health (wd_server w))" using assms(1) by (auto simp: world_ok_def)
  have ok: "frame_ok (wd_frames w ! i)" using assms(1) move(2) by (simp add: world_ok_def)
  have "\<forall>fr \<in> set ((wd_frames w)[i := fr']). frame_ok fr"
    using assms(1) frame_ok_step [OF ok ev move(5)] set_update_subset_insert [of "wd_frames w" i fr'] by (auto simp: world_ok_def)
  moreover have "\<exists>ev'. tracker_of ev' (xs_health s')" using route_step_health [OF ok ev move(5)] by blast
  moreover have "breakers_ok t (xs_breakers s')"
    using breakers_ok_move [OF _ move(5,4,3)] assms(1) by (simp add: world_ok_def)
  ultimately show ?thesis unfolding move(1) world_ok_def by simp
next
  case (arrive t trace_id req)
  then show ?thesis using assms(1) breakers_ok_later by (auto simp: world_ok_def)
qed (use assms(1) in \<open>auto simp: world_ok_def log_row_def\<close>)

lemma world_ok_start: "world_start store w \<Longrightarrow> world_ok w"
  using world_books_start [of store w] breaker_inv_new
  by (auto simp: world_start_def world_ok_def world_books_def health_counted_def breakers_ok_def breaker_of_def breaker_get_def
      new_breakers_def Let_def dest!: new_router_fresh(3))

interpretation router_safety: machine "world_start store" world_step world_ok for store
  by unfold_locales (rule world_ok_start, assumption, rule world_ok_step)

subsection \<open>Runs\<close>

text \<open>A call that nobody interrupts is a run of the machine.\<close>

definition after_run :: "'c route_world \<Rightarrow> nat \<Rightarrow> time \<Rightarrow> 'c router_server \<times> log_entry list \<times> 'c route_frame \<Rightarrow> 'c route_world" where
  "after_run w i now r = (case r of (s, es, fr) \<Rightarrow>
     w\<lparr>wd_server := s, wd_frames := (wd_frames w)[i := fr], wd_logs := wd_logs w @ es, wd_now := now\<rparr>)"

lemma after_run_frames [simp]:
  "wd_server (after_run w i now r) = fst r" "wd_frames (after_run w i now r) = (wd_frames w)[i := snd (snd r)]"
  "wd_logs (after_run w i now r) = wd_logs w @ fst (snd r)" "wd_now (after_run w i now r) = now"
  by (simp_all add: after_run_def split: prod.split)

lemma after_run_twice:
  "after_run (after_run w i now (s, es, fr)) i now' (s', es', fr') = after_run w i now' (s', es @ es', fr')"
  by (simp add: after_run_def)

lemma run_frame:
  assumes "i < length (wd_frames w)" "wd_now w \<le> t" "env_at t env" "ok env"
  shows "\<exists>now. (world_step_in ok)\<^sup>*\<^sup>* w (after_run w i now (route_run n env (wd_server w) (wd_frames w ! i))) \<and> now \<le> t"
  using assms
proof (induction n arbitrary: w)
  case 0
  have "after_run w i (wd_now w) (wd_server w, [], wd_frames w ! i) = w"
    by (cases w) (simp add: after_run_def)
  then show ?case using 0(2) by (metis route_run.simps(1) rtranclp.rtrancl_refl)
next
  case (Suc n)
  obtain s1 es1 fr1 where step: "route_step env (wd_server w) (wd_frames w ! i) = (s1, es1, fr1)" by (metis prod_cases3)
  obtain s2 es2 fr2 where rest: "route_run n env s1 fr1 = (s2, es2, fr2)" by (metis prod_cases3)
  let ?w = "after_run w i t (s1, es1, fr1)"
  have "world_step_in ok w ?w" using move [OF Suc.prems(1-3) step, of ok] Suc.prems(4) by (simp add: after_run_def)
  moreover obtain now where "(world_step_in ok)\<^sup>*\<^sup>* ?w (after_run ?w i now (s2, es2, fr2))" "now \<le> t"
    using Suc.IH [of ?w] Suc.prems rest by auto
  moreover have "route_run (Suc n) env (wd_server w) (wd_frames w ! i) = (s2, es1 @ es2, fr2)" by (simp add: step rest)
  ultimately show ?case unfolding after_run_twice by (metis converse_rtranclp_into_rtranclp)
qed

subsection \<open>Where a call has what it uses from\<close>

text \<open>A breaker was asked between two states of a run, and let the call through.\<close>

definition let_through :: "('c route_env \<Rightarrow> bool) \<Rightarrow> 'c route_world \<Rightarrow> 'c route_world \<Rightarrow> string \<Rightarrow> bool" where
  "let_through ok w1 w k \<longleftrightarrow> (\<exists>w2 t. (world_step_in ok)\<^sup>*\<^sup>* w1 w2 \<and> (world_step_in ok)\<^sup>*\<^sup>* w2 w
     \<and> wd_now w2 \<le> t \<and> t \<le> wd_now w \<and> snd (breaker_allow (xs_breakers (wd_server w2)) k t))"

definition traced :: "('c route_env \<Rightarrow> bool) \<Rightarrow> 'c route_world \<Rightarrow> 'c route_world \<Rightarrow> 'c route_frame \<Rightarrow> bool" where
  "traced ok w0 w fr \<longleftrightarrow> (rf_models fr \<noteq> [] \<longrightarrow> (\<exists>w1. (world_step_in ok)\<^sup>*\<^sup>* w0 w1 \<and> (world_step_in ok)\<^sup>*\<^sup>* w1 w
     \<and> rf_models fr = xs_models (wd_server w1) \<and> (\<forall>m \<in> set (rf_candidates fr). let_through ok w1 w (mr_model_id m))))"

lemma world_step_now: "world_step_in ok w w' \<Longrightarrow> wd_now w \<le> wd_now w'"
  by (induction rule: world_step_in.induct) auto

lemma let_through_later: "let_through ok w1 w k \<Longrightarrow> world_step_in ok w w' \<Longrightarrow> let_through ok w1 w' k"
  unfolding let_through_def by (meson world_step_now order_trans rtranclp.rtrancl_into_rtrancl)

lemma traced_later: "traced ok w0 w fr \<Longrightarrow> world_step_in ok w w' \<Longrightarrow> traced ok w0 w' fr"
  unfolding traced_def by (meson let_through_later rtranclp.rtrancl_into_rtrancl)

text \<open>A step of a call takes the list of models, adds a candidate that the breaker let through, or does neither.\<close>

lemma route_step_lists:
  assumes "route_step env s fr = (s', es, fr')"
  shows "(rf_models fr' = rf_models fr \<and> rf_candidates fr' = rf_candidates fr) \<or> (rf_models fr' = xs_models s \<and> rf_candidates fr' = [])
    \<or> (rf_pc fr = AtBreaker \<and> (\<exists>m \<in> set (rf_todo fr). rf_models fr' = rf_models fr \<and> rf_candidates fr' = rf_candidates fr @ [m]
        \<and> snd (breaker_allow (xs_breakers s) (mr_model_id m) (xe_breaker_now env (mr_model_id m)))))"
proof -
  have e: "fr' = snd (snd (route_at (rf_pc fr) env s fr))" using assms by (simp add: route_step_def)
  show ?thesis
  proof (cases "rf_pc fr")
    case AtBreaker
    show ?thesis
    proof (cases "rf_todo fr")
      case (Cons m ms)
      then show ?thesis unfolding e AtBreaker
        by (cases "breaker_allow (xs_breakers s) (mr_model_id m) (xe_breaker_now env (mr_model_id m))") simp
    qed (simp add: e AtBreaker)
  qed (simp_all add: e Let_def split: option.split list.split prod.split sum.split)
qed

lemma traced_move:
  assumes "traced ok w0 w fr" "frame_ok fr" "(world_step_in ok)\<^sup>*\<^sup>* w0 w" "world_step_in ok w w'" "env_at (wd_now w') env"
    and "route_step env (wd_server w) fr = (s', es, fr')"
  shows "traced ok w0 w' fr'"
  using route_step_lists [OF assms(6)]
proof (elim disjE conjE bexE)
  assume "rf_models fr' = rf_models fr" "rf_candidates fr' = rf_candidates fr"
  then show ?thesis using traced_later [OF assms(1,4)] by (simp add: traced_def)
next
  assume "rf_models fr' = xs_models (wd_server w)" "rf_candidates fr' = []"
  then show ?thesis using assms(3,4) by (auto simp: traced_def)
next
  fix m
  assume m: "rf_pc fr = AtBreaker" "m \<in> set (rf_todo fr)" "rf_models fr' = rf_models fr" "rf_candidates fr' = rf_candidates fr @ [m]"
    and allow: "snd (breaker_allow (xs_breakers (wd_server w)) (mr_model_id m) (xe_breaker_now env (mr_model_id m)))"
  have "m \<in> set (rf_models fr)" using m(1,2) assms(2) by (auto simp: frame_ok_def)
  then obtain w1 where w1: "(world_step_in ok)\<^sup>*\<^sup>* w0 w1" "(world_step_in ok)\<^sup>*\<^sup>* w1 w" "rf_models fr = xs_models (wd_server w1)"
    "\<forall>m \<in> set (rf_candidates fr). let_through ok w1 w (mr_model_id m)"
    using assms(1) by (auto simp: traced_def)
  have "let_through ok w1 w' (mr_model_id m)"
    unfolding let_through_def
    using w1(2) assms(4) allow world_step_now [OF assms(4)] assms(5)
    by (intro exI [of _ w] exI [of _ "wd_now w'"]) (auto simp: env_at_def)
  then show ?thesis
    using w1 let_through_later [OF _ assms(4)] assms(4) m(3,4)
    by (auto simp: traced_def intro!: exI [of _ w1])
qed

text \<open>Which calls have an answer of an executor, and the connection it came over.\<close>

definition has_answer :: "'c route_pc \<Rightarrow> bool" where
  "has_answer pc \<longleftrightarrow> pc = AtOkBreaker \<or> pc = AtOkHealth \<or> known_success pc"

definition returns :: "('c \<Rightarrow> execute_request \<Rightarrow> execute_response \<Rightarrow> bool) \<Rightarrow> 'c route_env \<Rightarrow> bool" where
  "returns R env \<longleftrightarrow> (\<forall>c q er. xe_execute env c q = Inr er \<longrightarrow> R c q er)"

definition called :: "('c \<Rightarrow> execute_request \<Rightarrow> execute_response \<Rightarrow> bool) \<Rightarrow> 'c router_server \<Rightarrow> 'c route_frame \<Rightarrow> bool" where
  "called R s fr \<longleftrightarrow> (\<forall>c. rf_pc fr = AtExecute c \<longrightarrow> xs_pool s (cs_executor_addr (frame_primary fr)) = Some c)
     \<and> (has_answer (rf_pc fr) \<longrightarrow> (\<exists>c. xs_pool s (cs_executor_addr (frame_primary fr)) = Some c
          \<and> R c (route_execute_request (rf_req fr) (frame_primary fr)) (rf_exec fr)))"

lemma route_step_pool:
  assumes "route_step env s fr = (s', es, fr')" "xs_pool s k = Some c"
  shows "xs_pool s' k = Some c"
proof -
  have e: "s' = fst (route_at (rf_pc fr) env s fr)" using assms by (simp add: route_step_def)
  show ?thesis
    using assms(2) unfolding e
    by (cases "rf_pc fr") (auto simp: Let_def count_route_error_def pool_client_def split: option.split list.split prod.split sum.split)
qed

lemma called_more: "called R s fr \<Longrightarrow> (\<And>k c. xs_pool s k = Some c \<Longrightarrow> xs_pool s' k = Some c) \<Longrightarrow> called R s' fr"
  by (auto simp: called_def)

lemma called_step:
  assumes "called R s fr" "returns R env" "route_step env s fr = (s', es, fr')"
  shows "called R s' fr'"
proof -
  have c: "called R s' fr" by (rule called_more [OF assms(1) route_step_pool [OF assms(3)]])
  have e: "fr' = snd (snd (route_at (rf_pc fr) env s fr))" "s' = fst (route_at (rf_pc fr) env s fr)"
    using assms(3) by (simp_all add: route_step_def)
  note q = called_def has_answer_def frame_primary_def
  show ?thesis
  proof (cases "rf_pc fr")
    case AtClient
    then show ?thesis
      unfolding e by (auto simp: q pool_client_def split: option.split sum.split)
  next
    case (AtExecute d)
    then show ?thesis
      using c assms(2) unfolding e by (auto simp: q returns_def split: sum.split)
  next
    case AtOkHealth
    then show ?thesis using c unfolding e by (auto simp: q split: option.splits)
  qed (use c in \<open>auto simp: e q Let_def count_route_error_def split: option.splits list.splits prod.splits sum.splits if_splits\<close>)
qed

lemma calls_traced:
  assumes "(world_step_in ok)\<^sup>*\<^sup>* w0 w" "world_start store w0" "\<And>env. ok env \<Longrightarrow> returns R env"
  shows "\<forall>fr \<in> set (wd_frames w). traced ok w0 w fr \<and> called R (wd_server w) fr"
  using assms(1)
proof (induction rule: rtranclp_induct)
  case base
  then show ?case using assms(2) by (simp add: world_start_def)
next
  case (step w w')
  have old: "traced ok w0 w' fr" "called R (wd_server w) fr" if "fr \<in> set (wd_frames w)" for fr
    using step.IH that traced_later step.hyps(2) by blast+
  have books: "world_books store w" by (rule router_machine.inv_reached [OF assms(2) world_run_any [OF step.hyps(1)]])
  from step.hyps(2) show ?case
  proof cases
    case (move i t env s' es fr')
    have i: "wd_frames w ! i \<in> set (wd_frames w)" using move(2) by simp
    have "env_at (wd_now w') env" using move(1,4) by simp
    from traced_move [OF _ _ step.hyps this move(5)] step.IH i books
    have "traced ok w0 w' fr'" by (auto simp: world_books_def)
    moreover have "called R s' fr'" by (rule called_step [OF old(2) [OF i] assms(3) [OF move(6)] move(5)])
    moreover have "called R s' fr" if "fr \<in> set (wd_frames w)" for fr
      by (rule called_more [OF old(2) [OF that] route_step_pool [OF move(5)]])
    ultimately show ?thesis
      using old set_update_subset_insert [of "wd_frames w" i fr'] move(1) by auto
  next
    case (arrive t trace_id req)
    then show ?thesis using old by (auto simp: traced_def called_def new_frame_def has_answer_def)
  next
    case (log es e es' works created)
    then show ?thesis using old by (auto simp: log_row_def called_def)
  qed (use old in \<open>auto simp: called_def\<close>)
qed

text \<open>The models that a breaker let a call ask.\<close>

definition asks :: "string \<Rightarrow> 'c route_frame \<Rightarrow> bool" where
  "asks k fr \<longleftrightarrow> k \<in> mr_model_id ` set (rf_candidates fr)"

lemma route_step_asks:
  assumes "route_step env s fr = (s', es, fr')" "asks k fr'" "env_at t env"
  shows "asks k fr \<or> snd (cb_allow (breaker_of (xs_breakers s) k) t)"
proof -
  have e: "fr' = snd (snd (route_at (rf_pc fr) env s fr))" using assms(1) by (simp add: route_step_def)
  have t: "xe_breaker_now env k = t" using assms(3) by (simp add: env_at_def)
  show ?thesis
  proof (cases "rf_pc fr")
    case AtBreaker
    then show ?thesis
      using assms(2) t unfolding e asks_def
      by (cases "rf_todo fr") (auto simp: breaker_calls split: if_splits)
  next
    case AtModels
    then show ?thesis using assms(2) by (simp add: e asks_def)
  qed (use assms(2) in \<open>simp_all add: e asks_def Let_def split: option.splits list.splits prod.splits sum.splits if_splits\<close>)
qed

definition isolated :: "string \<Rightarrow> time \<Rightarrow> 'c route_world \<Rightarrow> 'c route_world \<Rightarrow> bool" where
  "isolated k t w0 w \<longleftrightarrow> world_ok w \<and> t \<le> wd_now w \<and> (wd_now w \<le> t + 20 * second \<longrightarrow>
     (\<exists>u \<ge> t. breaker_abs (breaker_of (xs_breakers (wd_server w)) k) = Open u)
     \<and> (\<forall>j < length (wd_frames w). asks k (wd_frames w ! j) \<longrightarrow>
          j < length (wd_frames w0) \<and> asks k (wd_frames w0 ! j) \<and> \<not> (returned (wd_frames w0 ! j) \<and> \<not> returned (wd_frames w ! j))))"

lemma isolated_move:
  assumes "isolated k t w0 w" "i < length (wd_frames w)" "wd_now w \<le> now" "env_at now env"
    and "route_step env (wd_server w) (wd_frames w ! i) = (s', es, fr')" "now \<le> t + 20 * second"
  shows "(\<exists>u \<ge> t. breaker_abs (breaker_of (xs_breakers s') k) = Open u)
    \<and> (asks k fr' \<longrightarrow> asks k (wd_frames w ! i) \<and> (returned (wd_frames w ! i) \<longrightarrow> returned fr'))"
proof -
  let ?b = "breaker_of (xs_breakers (wd_server w)) k"
  have le: "t \<le> wd_now w" "wd_now w \<le> t + 20 * second" using assms(1,3,6) by (auto simp: isolated_def)
  then obtain u where u: "t \<le> u" "breaker_abs ?b = Open u" using assms(1) by (auto simp: isolated_def)
  have inv: "breaker_inv ?b" using assms(1) by (simp add: isolated_def world_ok_def breakers_ok_def)
  have no: "\<not> snd (cb_allow ?b now)" using u assms(6) by (simp add: cb_allow_answer [OF inv] spec_answer_def)
  have "\<exists>v \<ge> t. breaker_abs (breaker_step ?b (ev, now)) = Open v" for ev
    using breaker_step_refines [OF inv, of "(ev, now)"] u assms(3,6) le by (cases ev) auto
  then have "\<exists>v \<ge> t. breaker_abs (breaker_of (xs_breakers s') k) = Open v"
    using route_step_breakers [OF assms(5,4), of k] u by auto
  moreover have "asks k fr' \<longrightarrow> asks k (wd_frames w ! i)" using route_step_asks [OF assms(5) _ assms(4)] no by blast
  moreover have "returned (wd_frames w ! i) \<longrightarrow> returned fr'" using route_step_returned assms(5) by fastforce
  ultimately show ?thesis by blast
qed

lemma isolated_step:
  assumes "isolated k t w0 w" "world_step w w'"
  shows "isolated k t w0 w'"
proof -
  have ok: "world_ok w'" using world_ok_step [OF _ assms(2)] assms(1) by (simp add: isolated_def)
  from assms(2) show ?thesis
  proof cases
    case (move i now env s' es fr')
    note mv = isolated_move [OF assms(1) move(2-5)]
    show ?thesis
      unfolding isolated_def
    proof (intro conjI impI allI ok)
      show "t \<le> wd_now w'" using assms(1) move by (simp add: isolated_def)
    next
      assume "wd_now w' \<le> t + 20 * second"
      then show "\<exists>u \<ge> t. breaker_abs (breaker_of (xs_breakers (wd_server w')) k) = Open u" using mv move by simp
    next
      fix j
      assume a: "wd_now w' \<le> t + 20 * second" "j < length (wd_frames w')" "asks k (wd_frames w' ! j)"
      then have m: "asks k fr' \<longrightarrow> asks k (wd_frames w ! i) \<and> (returned (wd_frames w ! i) \<longrightarrow> returned fr')"
        and le: "wd_now w \<le> t + 20 * second" and j: "j < length (wd_frames w)" using mv move by simp_all
      have f: "asks k (wd_frames w ! j)" "returned (wd_frames w ! j) \<longrightarrow> returned (wd_frames w' ! j)"
        using a(3) m move(1) j by (cases "j = i"; simp)+
      then have "j < length (wd_frames w0) \<and> asks k (wd_frames w0 ! j) \<and> \<not> (returned (wd_frames w0 ! j) \<and> \<not> returned (wd_frames w ! j))"
        using assms(1) le j by (simp add: isolated_def)
      with f show "j < length (wd_frames w0)" "asks k (wd_frames w0 ! j)" "\<not> (returned (wd_frames w0 ! j) \<and> \<not> returned (wd_frames w' ! j))"
        by blast+
    qed
  next
    case (arrive now trace_id req)
    then show ?thesis using assms(1) ok
      by (auto simp: isolated_def nth_append asks_def new_frame_def less_Suc_eq)
  qed (use assms(1) ok in \<open>auto simp: isolated_def log_row_def\<close>)
qed

subsection \<open>A router with one model\<close>

definition one_model_store :: repo_store where
  "one_model_store = fresh_store\<lparr>st_models := [\<lparr>pm_model_id = ''m'', pm_version = ''v1'', pm_name = ''M'', pm_tier = ''small'',
       pm_cost_per_1k = f64_zero, pm_avg_latency_ms = 10, pm_max_tokens = 4096, pm_executor_addr = ''e'', pm_enabled = 1\<rparr>],
     st_capabilities := [(''m'', ''chat'')]\<rparr>"

definition one_model :: model_record where
  "one_model = \<lparr>mr_model_id = ''m'', mr_version = ''v1'', mr_tier = ''small'', mr_tasks = [''chat''], mr_cost_per_1k = f64_zero,
     mr_avg_latency_ms = 10, mr_max_tokens = 4096, mr_executor_addr = ''e'', mr_enabled = True\<rparr>"

definition one_model_router :: "string router_server" where
  "one_model_router = (demo_router 0)\<lparr>xs_store := one_model_store, xs_breakers := new_breakers, xs_models := [one_model]\<rparr>"

definition idle_world :: "string route_world" where
  "idle_world = \<lparr>wd_server = one_model_router, wd_frames = [], wd_logs = [], wd_models_read = [], wd_rollouts_read = [], wd_now = 0\<rparr>"

lemma idle_start: "world_start one_model_store idle_world"
proof -
  have "new_router_server 2 one_model_store None (\<lambda>_. True) (Inr id) = Some (Inr one_model_router)"
    by (simp add: new_router_server_def load_models_def load_tasks_def one_model_store_def fresh_store_def repo_model_of_def
        one_model_router_def one_model_def demo_router_def load_rollouts_def canary_reload_def)
  then show ?thesis unfolding world_start_def idle_world_def by auto
qed

definition instant_env :: "string route_env" where
  "instant_env = (demo_route_env (\<lambda>c r. Inr (demo_answer r)))\<lparr>xe_outcome_now := 0, xe_end := 0\<rparr>"

lemma instant_env: "env_at 0 instant_env" "xe_dial instant_env = Inr ''conn''" "xe_policy_fails instant_env = None"
  "xe_execute instant_env = (\<lambda>c r. Inr (demo_answer r))" "xe_limiter_now instant_env = 0" "xe_breaker_now instant_env = (\<lambda>_. 0)"
  by (simp_all add: instant_env_def demo_route_env_def env_at_def)

text \<open>After eleven steps the call waits for the executor.\<close>

definition demo_call :: "string route_frame" where
  "demo_call = new_frame 0 ''t'' demo_route_request"

definition demo_at_executor :: "string router_server \<times> log_entry list \<times> string route_frame" where
  "demo_at_executor = route_run 11 instant_env one_model_router demo_call"

lemma demo_at_executor:
  "rf_pc (snd (snd demo_at_executor)) = AtExecute ''conn''" "fst (snd demo_at_executor) = []" "frame_model (snd (snd demo_at_executor)) = ''m''"
proof -
  have tenant: "route_tenant demo_route_request = ''tenant-default''"
    by (simp add: route_tenant_def demo_route_request_def zero_request_def)
  define p where "p = default_policy ''tenant-default''"
  define s1 where "s1 = one_model_router\<lparr>xs_policies := policy_set new_policy_store p (xe_policy_stored instant_env)\<rparr>"
  define f1 where "f1 = demo_call\<lparr>rf_policy := p, rf_pc := AtLimiter\<rparr>"
  have 1: "route_run 3 instant_env one_model_router demo_call = (s1, [], f1)"
    by (simp add: eval_nat_numeral route_step_def demo_call_def new_frame_def one_model_router_def demo_router_def policy_get_def
        new_policy_store_def load_tenant_policy_def instant_env one_model_store_def fresh_store_def tenant s1_def f1_def p_def)
  obtain L where L: "limiter_allow new_rate_limiter ''tenant-default'' 50 100 0 = (L, True)"
    using fresh_limit [of new_rate_limiter "''tenant-default''" 100 50 0] by (cases "limiter_allow new_rate_limiter ''tenant-default'' 50 100 0")
      (simp add: new_rate_limiter_def)
  define s2 where "s2 = s1\<lparr>xs_limiter := L\<rparr>"
  define sreq where "sreq = route_scoring_request s2 p demo_route_request"
  define f2 where "f2 = f1\<lparr>rf_sreq := sreq, rf_models := [one_model], rf_todo := [one_model], rf_candidates := [], rf_pc := AtBreaker\<rparr>"
  have 2: "route_run 3 instant_env s1 f1 = (s2, [], f2)"
    using L by (simp add: eval_nat_numeral route_step_def f1_def s1_def demo_call_def new_frame_def one_model_router_def demo_router_def
        instant_env tenant p_def default_policy_def s2_def sreq_def f2_def Let_def)
  define s3 where "s3 = s2\<lparr>xs_breakers := [''m'' \<mapsto> new_circuit_breaker ''m'']\<rparr>"
  define f3 where "f3 = f2\<lparr>rf_todo := [one_model], rf_candidates := [one_model], rf_results := [], rf_pc := AtScore\<rparr>"
  have b: "breaker_allow (xs_breakers s2) ''m'' 0 = (xs_breakers s3, True)"
    by (simp add: s3_def s2_def s1_def one_model_router_def new_breakers_def breaker_allow_def breaker_get_def cb_allow_def
        new_circuit_breaker_def Let_def)
  have 3: "route_run 2 instant_env s2 f2 = (s3, [], f3)"
    using b by (simp add: eval_nat_numeral route_step_def f2_def f3_def f1_def demo_call_def new_frame_def instant_env one_model_def s3_def)
  define c where "c = score_one (router_scorer s3) (request_weights sreq) sreq one_model"
  define f4 where "f4 = f3\<lparr>rf_todo := [], rf_results := [c], rf_ranked := [c], rf_pc := AtClient\<rparr>"
  have el: "eligible sreq one_model"
    by (simp add: eligible_def one_model_def sreq_def route_scoring_request_def demo_task task_string_def p_def default_policy_def)
  have 4: "route_run 2 instant_env s3 f3 = (s3, [], f4)"
    using el by (simp add: eval_nat_numeral route_step_def f3_def f4_def f2_def score_loop_filter c_def sort_results_def
        insertion_sort_single Let_def del: score_loop.simps)
  have 5: "fst (snd (route_run 1 instant_env s3 f4)) = []" "rf_pc (snd (snd (route_run 1 instant_env s3 f4))) = AtExecute ''conn''"
    "frame_model (snd (snd (route_run 1 instant_env s3 f4))) = ''m''"
    by (simp_all add: route_step_def f4_def pool_client_def s3_def s2_def s1_def one_model_router_def demo_router_def new_exec_pool_def
        instant_env frame_model_def frame_primary_def c_def one_model_def)
  have "demo_at_executor = route_run (3 + (3 + (2 + (2 + 1)))) instant_env one_model_router demo_call" by (simp add: demo_at_executor_def)
  then have "demo_at_executor = route_run 1 instant_env s3 f4"
    unfolding route_run_add 1 by (simp add: 2 3 4 split: prod.split)
  with 5 show "rf_pc (snd (snd demo_at_executor)) = AtExecute ''conn''" "fst (snd demo_at_executor) = []" "frame_model (snd (snd demo_at_executor)) = ''m''"
    by simp_all
qed

lemma demo_run:
  assumes "ok instant_env"
  obtains w1 w where "world_step_in ok idle_world w1" "(world_step_in ok)\<^sup>*\<^sup>* w1 w" "wd_frames w1 = [demo_call]" "wd_server w1 = one_model_router"
    "wd_frames w = [snd (snd demo_at_executor)]" "wd_logs w = []" "wd_now w \<le> 0"
proof -
  define w1 where "w1 = idle_world\<lparr>wd_frames := [demo_call], wd_now := 0\<rparr>"
  have 1: "world_step_in ok idle_world w1" using arrive [of idle_world 0 ok "''t''" demo_route_request] by (simp add: w1_def idle_world_def demo_call_def)
  have w1: "wd_frames w1 = [demo_call]" "wd_server w1 = one_model_router" "wd_logs w1 = []" "wd_now w1 = 0"
    by (simp_all add: w1_def idle_world_def)
  obtain now where "(world_step_in ok)\<^sup>*\<^sup>* w1 (after_run w1 0 now demo_at_executor)" "now \<le> 0"
    using run_frame [of 0 w1 0 instant_env ok 11] assms by (auto simp: w1 instant_env demo_at_executor_def)
  from that [OF 1 this(1)] this(2) show ?thesis by (simp add: w1 demo_at_executor)
qed

text \<open>Seven steps later it has its answer.\<close>

lemma served_tail:
  assumes "rf_pc fr = AtExecute c" "xe_execute env c (route_execute_request (rf_req fr) (frame_primary fr)) = Inr er"
    and "tracker_of ev (xs_health s)"
  shows "\<exists>s' e fr' resp. route_run 7 env s fr = (s', [e], fr') \<and> rf_pc fr' = AtReturn (Done (Inr resp))"
proof -
  define l where "l = f64_of_int (to_millis (time_sub (xe_end env) (rf_start fr)))"
  obtain h where "record_success (xs_health s) (frame_model fr) l (xe_outcome_now env) = Some h"
    using record_success_Some [OF assms(3)] by blast
  then show ?thesis
    using assms(1,2) by (simp add: eval_nat_numeral route_step_def l_def [symmetric])
qed

lemma demo_served:
  assumes "ok instant_env"
  obtains w fr resp where "(world_step_in ok)\<^sup>*\<^sup>* idle_world w" "wd_frames w = [fr]" "rf_pc fr = AtReturn (Done (Inr resp))"
proof -
  obtain w1 w where w: "world_step_in ok idle_world w1" "(world_step_in ok)\<^sup>*\<^sup>* w1 w" "wd_frames w = [snd (snd demo_at_executor)]" "wd_now w \<le> 0"
    using demo_run [of ok, OF assms] by metis
  from w(1,2) have run: "(world_step_in ok)\<^sup>*\<^sup>* idle_world w" by simp
  have "world_books one_model_store w" by (rule router_machine.inv_reached [OF idle_start world_run_any [OF run]])
  then obtain ev where ev: "tracker_of ev (xs_health (wd_server w))" by (auto simp: world_books_def health_counted_def)
  obtain s' e fr' resp where t: "route_run 7 instant_env (wd_server w) (snd (snd demo_at_executor)) = (s', [e], fr')"
      "rf_pc fr' = AtReturn (Done (Inr resp))"
    using served_tail [OF demo_at_executor(1) _ ev, of instant_env] by (auto simp: instant_env)
  obtain now where "(world_step_in ok)\<^sup>*\<^sup>* w (after_run w 0 now (s', [e], fr'))"
    using run_frame [of 0 w 0 instant_env ok 7] w(3,4) t(1) assms by (auto simp: instant_env)
  from that [OF rtranclp_trans [OF run this]] t(2) show ?thesis by (simp add: w(3))
qed

lemma concurrent_books:
  assumes "world_start store w0" "world_step\<^sup>*\<^sup>* w0 w"
  defines "m \<equiv> xs_metrics (wd_server w)" and "fs \<equiv> wd_frames w"
  shows "(\<forall>fr \<in> set fs. \<forall>p. rf_pc fr \<noteq> AtReturn (Panicked p))
    \<and> xm_routed m = of_nat (tally (\<lambda>fr. counted_routed (rf_pc fr)) fs)
    \<and> xm_errors m = of_nat (tally (\<lambda>fr. counted_error (rf_pc fr)) fs) \<and> xm_fallbacks m = 0
    \<and> ((\<forall>fr \<in> set fs. returned fr) \<longrightarrow> xm_routed m = of_nat (tally is_answered fs)
         \<and> xm_canary m = of_nat (tally (\<lambda>fr. is_answered fr \<and> frame_canary fr) fs))
    \<and> (\<exists>ev. tracker_of ev (xs_health (wd_server w)) \<and> (\<forall>k. tally (\<lambda>e. fst e = 1) (ev k) = tally (succeeded_with k) fs
         \<and> tally (\<lambda>e. fst e = 0) (ev k) = tally (failed_with k) fs))
    \<and> (\<exists>new. st_request_log (xs_store (wd_server w)) = st_request_log store @ new
         \<and> mset (map snd new) + mset (wd_logs w) \<subseteq># answered_entries fs)"
proof -
  have b: "world_books store w" by (rule router_machine.inv_reached [OF assms(1,2)])
  have ok: "pc_ok fr (rf_pc fr)" if "fr \<in> set fs" for fr using b that by (simp add: world_books_def frame_ok_def fs_def)
  have quiet: "counted_routed (rf_pc fr) = is_answered fr" "counted_canary (rf_pc fr) = is_answered fr" if "returned fr" for fr :: "'a route_frame"
  proof -
    from that obtain out where "rf_pc fr = AtReturn out" by (auto simp: returned_def)
    then show "counted_routed (rf_pc fr) = is_answered fr" "counted_canary (rf_pc fr) = is_answered fr"
      by (cases out; cases "(case out of Done x \<Rightarrow> x | _ \<Rightarrow> Inl (Plain []))"; simp add: is_answered_def)+
  qed
  have "tally (\<lambda>fr. counted_routed (rf_pc fr)) fs = tally is_answered fs"
    "tally (\<lambda>fr. counted_canary (rf_pc fr) \<and> frame_canary fr) fs = tally (\<lambda>fr. is_answered fr \<and> frame_canary fr) fs"
    if "\<forall>fr \<in> set fs. returned fr" using that quiet by (auto intro!: tally_cong)
  moreover have "rf_pc fr \<noteq> AtReturn (Panicked p)" if "fr \<in> set fs" for fr p using ok [OF that] by auto
  ultimately show ?thesis
    using b by (auto simp: world_books_def frames_counted_def health_counted_def audit_backed_def m_def fs_def Let_def)
qed

subsection \<open>Properties\<close>

text \<open>C5. The books balance under every interleaving of any number of calls with one another, with the
  goroutines of the audit log, the reloads and the changes of rollouts: no call panics; \<open>Routed\<close> counts each call that
  was answered or is about to be, \<open>Errors\<close> each call that failed, except by the rate limit, \<open>Fallbacks\<close> none; each model's
  health record has one success for each call that it answered and one failure for each that it
  failed; and each new row of the audit log is the entry of an answered call of its own.\<close>

theorem concurrent_accounting:
  assumes "world_start store w0" "world_step\<^sup>*\<^sup>* w0 w"
  defines "m \<equiv> xs_metrics (wd_server w)" and "fs \<equiv> wd_frames w"
  shows "(\<forall>fr \<in> set fs. \<forall>p. rf_pc fr \<noteq> AtReturn (Panicked p))
    \<and> xm_routed m = of_nat (tally (\<lambda>fr. counted_routed (rf_pc fr)) fs)
    \<and> xm_errors m = of_nat (tally (\<lambda>fr. counted_error (rf_pc fr)) fs) \<and> xm_fallbacks m = 0
    \<and> ((\<forall>fr \<in> set fs. returned fr) \<longrightarrow> xm_routed m = of_nat (tally is_answered fs)
         \<and> xm_canary m = of_nat (tally (\<lambda>fr. is_answered fr \<and> frame_canary fr) fs))
    \<and> (\<exists>ev. tracker_of ev (xs_health (wd_server w)) \<and> (\<forall>k. tally (\<lambda>e. fst e = 1) (ev k) = tally (succeeded_with k) fs
         \<and> tally (\<lambda>e. fst e = 0) (ev k) = tally (failed_with k) fs))
    \<and> (\<exists>new. st_request_log (xs_store (wd_server w)) = st_request_log store @ new
         \<and> mset (map snd new) + mset (wd_logs w) \<subseteq># answered_entries fs)"
  using concurrent_books [OF assms(1,2)] unfolding m_def fs_def .

theorem concurrent_accounting_witness:
  "\<exists>w. world_step\<^sup>*\<^sup>* idle_world w \<and> length (wd_frames w) = 1 \<and> xm_routed (xs_metrics (wd_server w)) = 0 \<and> xm_fallbacks (xs_metrics (wd_server w)) = 0"
proof -
  obtain w1 w where w: "world_step idle_world w1" "world_step\<^sup>*\<^sup>* w1 w" "wd_frames w = [snd (snd demo_at_executor)]" by (rule demo_run [where ok = "\<lambda>_. True", OF TrueI])
  from w(1,2) have run: "world_step\<^sup>*\<^sup>* idle_world w" by simp
  show ?thesis using concurrent_accounting [OF idle_start run] run by (intro exI [of _ w]) (simp add: w(3) demo_at_executor)
qed

text \<open>C7. Under every interleaving a call is sent only to a model that the router held, enabled, at some earlier moment \<open>w1\<close>, that supports
  the call's task and that the policy the call was given allows; after that moment the model's breaker was asked, as it was then, and
  let the call through; the call goes over the connection that the pool holds for the model's address. An answered
  call carries what that connection returned for a request with the model's id and the call's own prompt: whatever is true
  of all that executors return (\<open>R\<close>) is true of the content, embedding, scores and tokens that the client gets.\<close>

theorem calls_reach_eligible:
  assumes "world_start store w0" "(world_step_in (returns R))\<^sup>*\<^sup>* w0 w" "fr \<in> set (wd_frames w)"
    and "rf_pc fr = AtExecute c \<or> rf_pc fr = AtReturn (Done (Inr resp))"
  shows "\<exists>w1 m conn. (world_step_in (returns R))\<^sup>*\<^sup>* w0 w1 \<and> (world_step_in (returns R))\<^sup>*\<^sup>* w1 w \<and> m \<in> set (xs_models (wd_server w1))
    \<and> mr_enabled m \<and> task_string (ir_task_type (rf_req fr)) \<in> set (mr_tasks m)
    \<and> (tp_allowed_models (rf_policy fr) = [] \<or> map_of (tp_allowed_models (rf_policy fr)) (mr_model_id m) = Some True)
    \<and> frame_model fr = mr_model_id m \<and> cs_executor_addr (frame_primary fr) = mr_executor_addr m
    \<and> (\<exists>w2 t. (world_step_in (returns R))\<^sup>*\<^sup>* w1 w2 \<and> (world_step_in (returns R))\<^sup>*\<^sup>* w2 w \<and> wd_now w2 \<le> t \<and> t \<le> wd_now w
         \<and> snd (breaker_allow (xs_breakers (wd_server w2)) (mr_model_id m) t))
    \<and> xs_pool (wd_server w) (mr_executor_addr m) = Some conn
    \<and> (rf_pc fr = AtExecute c \<longrightarrow> c = conn)
    \<and> (rf_pc fr = AtReturn (Done (Inr resp)) \<longrightarrow> (\<exists>q er. er_model_id q = mr_model_id m \<and> er_prompt q = ir_prompt (rf_req fr)
         \<and> er_request_id q = ir_request_id (rf_req fr) \<and> R conn q er \<and> rs_content resp = ex_content er
         \<and> rs_embedding resp = ex_embedding er \<and> rs_scores resp = ex_scores er \<and> rs_tokens_output resp = ex_tokens_output er
         \<and> rs_executor_id resp = mr_executor_addr m \<and> rs_request_id resp = ir_request_id (rf_req fr)))"
proof -
  have ok: "pc_ok fr (rf_pc fr)"
    using router_machine.inv_reached [OF assms(1) world_run_any [OF assms(2)]] assms(3) by (simp add: world_books_def frame_ok_def)
  then have d: "dispatched fr" "rf_pc fr = AtReturn (Done (Inr resp)) \<Longrightarrow> resp = frame_response fr" using assms(4) by auto
  obtain m where m: "m \<in> set (rf_candidates fr)" "m \<in> set (rf_models fr)" "eligible (rf_sreq fr) m" "frame_model fr = mr_model_id m"
    "cs_executor_addr (frame_primary fr) = mr_executor_addr m" by (rule dispatched_primary [OF d(1)])
  have t: "traced (returns R) w0 w fr" and called: "called R (wd_server w) fr"
    using calls_traced [OF assms(2,1), of R] assms(3) by blast+
  obtain w1 where w1: "(world_step_in (returns R))\<^sup>*\<^sup>* w0 w1" "(world_step_in (returns R))\<^sup>*\<^sup>* w1 w"
    "rf_models fr = xs_models (wd_server w1)" "let_through (returns R) w1 w (mr_model_id m)"
    using t m(1,2) by (auto simp: traced_def)
  obtain conn where conn: "xs_pool (wd_server w) (mr_executor_addr m) = Some conn" "rf_pc fr = AtExecute c \<longrightarrow> c = conn"
    "rf_pc fr = AtReturn (Done (Inr resp)) \<longrightarrow> R conn (route_execute_request (rf_req fr) (frame_primary fr)) (rf_exec fr)"
    using called assms(4) by (auto simp: called_def has_answer_def m(5))
  have q: "er_model_id (route_execute_request (rf_req fr) (frame_primary fr)) = mr_model_id m"
    "er_prompt (route_execute_request (rf_req fr) (frame_primary fr)) = ir_prompt (rf_req fr)"
    "er_request_id (route_execute_request (rf_req fr) (frame_primary fr)) = ir_request_id (rf_req fr)"
    using m(4) by (simp_all add: route_execute_request_def frame_model_def)
  have "\<exists>q er. er_model_id q = mr_model_id m \<and> er_prompt q = ir_prompt (rf_req fr)
         \<and> er_request_id q = ir_request_id (rf_req fr) \<and> R conn q er \<and> rs_content resp = ex_content er
         \<and> rs_embedding resp = ex_embedding er \<and> rs_scores resp = ex_scores er \<and> rs_tokens_output resp = ex_tokens_output er
         \<and> rs_executor_id resp = mr_executor_addr m \<and> rs_request_id resp = ir_request_id (rf_req fr)"
    if "rf_pc fr = AtReturn (Done (Inr resp))"
    by (rule exI [of _ "route_execute_request (rf_req fr) (frame_primary fr)"], rule exI [of _ "rf_exec fr"])
      (use q conn(3) d(2) that m(5) in \<open>simp add: frame_response_def\<close>)
  then show ?thesis
    using w1 m d(1) conn(1,2)
    by (intro exI [of _ w1] exI [of _ m] exI [of _ conn]) (auto simp: dispatched_def asked_def eligible_def let_through_def)
qed

theorem calls_reach_eligible_witness:
  "\<exists>w fr resp. world_step\<^sup>*\<^sup>* idle_world w \<and> fr \<in> set (wd_frames w) \<and> rf_pc fr = AtReturn (Done (Inr resp))
     \<and> (\<exists>q. er_model_id q = frame_model fr \<and> rs_content resp = ex_content (demo_answer q))"
proof -
  let ?R = "\<lambda>(c :: string) q er. er = demo_answer q"
  have "returns ?R instant_env" by (simp add: returns_def instant_env)
  then obtain w fr resp where w: "(world_step_in (returns ?R))\<^sup>*\<^sup>* idle_world w" "wd_frames w = [fr]" "rf_pc fr = AtReturn (Done (Inr resp))"
    by (rule demo_served)
  have fr: "fr \<in> set (wd_frames w)" by (simp add: w(2))
  from calls_reach_eligible [OF idle_start w(1) fr disjI2 [OF w(3)]] w(3)
  obtain q where "er_model_id q = frame_model fr" "rs_content resp = ex_content (demo_answer q)" by metis
  then show ?thesis using world_run_any [OF w(1)] fr w(3) by blast
qed

text \<open>C6. A tripped breaker isolates its model under load. In a state like every reachable one (\<open>world_ok\<close>), let the
  breaker of a model be open since some moment. Until twenty seconds later the only calls that are at its executor are calls that had
  passed the breaker before and had not returned: whatever calls arrive, and whatever late results
  come in, no other call is sent to the model.\<close>

theorem tripped_model_isolated:
  assumes "world_ok w0" "breaker_abs (breaker_of (xs_breakers (wd_server w0)) k) = Open t"
    and "world_step\<^sup>*\<^sup>* w0 w" "wd_now w \<le> t + 20 * second"
    and "j < length (wd_frames w)" "rf_pc (wd_frames w ! j) = AtExecute c" "frame_model (wd_frames w ! j) = k"
  shows "j < length (wd_frames w0) \<and> asks k (wd_frames w0 ! j) \<and> \<not> returned (wd_frames w0 ! j)"
proof -
  have "t \<le> wd_now w0" using assms(1,2) by (auto simp: world_ok_def breakers_ok_def)
  then have start: "isolated k t w0 w0" using assms(1,2) by (auto simp: isolated_def)
  have iso: "isolated k t w0 w" using assms(3) start by (induction rule: rtranclp_induct) (auto intro: isolated_step)
  then have ok: "frame_ok (wd_frames w ! j)" using nth_mem [OF assms(5)] by (simp add: isolated_def world_ok_def)
  then have d: "dispatched (wd_frames w ! j)" using assms(6) by (simp add: frame_ok_def)
  obtain m where "m \<in> set (rf_candidates (wd_frames w ! j))" "frame_model (wd_frames w ! j) = mr_model_id m"
    by (rule dispatched_primary [OF d])
  then have "asks k (wd_frames w ! j)" using assms(7) by (auto simp: asks_def)
  moreover have "\<not> returned (wd_frames w ! j)" using assms(6) by (simp add: returned_def)
  ultimately show ?thesis using iso assms(4,5) by (auto simp: isolated_def)
qed

definition tripped_world :: "string route_world" where
  "tripped_world = idle_world\<lparr>wd_server := one_model_router\<lparr>xs_breakers := [''m'' \<mapsto> (new_circuit_breaker ''m'')\<lparr>cb_state := CbOpen, cb_failures := 3\<rparr>]\<rparr>,
     wd_frames := [snd (snd demo_at_executor)]\<rparr>"

theorem tripped_model_isolated_witness:
  "\<exists>w. world_step tripped_world w \<and> length (wd_frames w) = 2 \<and> rf_pc (wd_frames w ! 0) = AtExecute ''conn'' \<and> asks ''m'' (wd_frames tripped_world ! 0)"
proof -
  obtain w1 w where w: "world_step idle_world w1" "world_step\<^sup>*\<^sup>* w1 w" "wd_frames w = [snd (snd demo_at_executor)]" by (rule demo_run [where ok = "\<lambda>_. True", OF TrueI])
  from w(1,2) have "world_step\<^sup>*\<^sup>* idle_world w" by simp
  from router_machine.inv_reached [OF idle_start this] have f: "frame_ok (snd (snd demo_at_executor))" by (simp add: world_books_def w(3))
  have b: "breaker_of (xs_breakers (wd_server tripped_world)) k =
      (if k = ''m'' then (new_circuit_breaker ''m'')\<lparr>cb_state := CbOpen, cb_failures := 3\<rparr> else new_circuit_breaker k)" for k
    by (simp add: tripped_world_def breaker_of_def breaker_get_def Let_def)
  have now: "wd_now tripped_world = 0" "wd_frames tripped_world = [snd (snd demo_at_executor)]"
    by (simp_all add: tripped_world_def idle_world_def)
  have open_m: "breaker_abs (breaker_of (xs_breakers (wd_server tripped_world)) ''m'') = Open 0"
    by (simp add: b breaker_abs_def new_circuit_breaker_def)
  have "breakers_ok 0 (xs_breakers (wd_server tripped_world))"
    by (simp add: breakers_ok_def b breaker_inv_def breaker_abs_def new_circuit_breaker_def)
  moreover have "tracker_of (\<lambda>_. []) (xs_health (wd_server tripped_world))"
    by (simp add: tripped_world_def one_model_router_def demo_router_def tracker_of_new)
  ultimately have ok: "world_ok tripped_world" using f by (auto simp: world_ok_def now)
  define w' where "w' = tripped_world\<lparr>wd_frames := wd_frames tripped_world @ [new_frame (5 * second) ''u'' demo_route_request], wd_now := 5 * second\<rparr>"
  have step: "world_step tripped_world w'" using arrive [of tripped_world "5 * second" _ "''u''" demo_route_request] by (simp add: w'_def now)
  have w': "wd_frames w' ! 0 = snd (snd demo_at_executor)" "length (wd_frames w') = 2" "wd_now w' = 5 * second" by (simp_all add: w'_def now)
  have "asks ''m'' (wd_frames tripped_world ! 0)"
    using tripped_model_isolated [OF ok open_m r_into_rtranclp [of world_step, OF step], of 0 "''conn''"] by (simp add: w' demo_at_executor)
  then show ?thesis using step w' demo_at_executor(1) by auto
qed

end
