(* ===== verification/Auth.thy ===== *)
theory Auth
  imports TtlCache
begin

section \<open>API keys\<close>

text \<open>
  \<open>services/api-gateway/internal/auth/auth.go\<close>: the principal of an API key, read from the
  database through a cache. The tables that the query joins are lists of rows; the database
  may also fail, so a query gets \<open>Inl\<close> the driver's error or \<open>Inr\<close> the tables. The
  \<open>UPDATE\<close> of \<open>last_used\<close> that a lookup starts is recorded in \<open>au_touched\<close>. The time is
  read twice: \<open>now\<close> at the lookup, \<open>t\<close> when the entry is stored.
\<close>

record principal =
  pr_key_id :: string
  pr_tenant_id :: string
  pr_routing_mode :: string
  pr_rate_limit_rps :: int64
  pr_burst_limit :: int64

record key_row =
  kr_key_id :: string
  kr_tenant_id :: string
  kr_key_hash :: string
  kr_enabled :: int

record tenant_row =
  tr_tenant_id :: string
  tr_routing_mode :: string
  tr_rate_limit_rps :: int64
  tr_burst_limit :: int64
  tr_enabled :: int

record auth_tables =
  at_api_keys :: "key_row list"
  at_tenants :: "tenant_row list"

record auth_entry =
  ae_principal :: principal
  ae_expires_at :: time

record auth_store =
  au_cache :: "string \<rightharpoonup> auth_entry"
  au_touched :: "string list"

definition auth_cache_ttl :: time where
  "auth_cache_ttl = 60 * second"

definition new_auth_store :: auth_store where
  "new_auth_store = \<lparr>au_cache = Map.empty, au_touched = []\<rparr>"

definition unauthorized :: err where
  "unauthorized = Plain ''unauthorized: invalid or disabled API key''"

text \<open>
  \<open>SELECT ... FROM api_keys k JOIN tenants t ON t.tenant_id = k.tenant_id WHERE k.key_hash = ?
  AND k.enabled = 1 AND t.enabled = 1\<close>; \<open>QueryRow\<close> takes the first row.
\<close>

definition select_principals :: "auth_tables \<Rightarrow> string \<Rightarrow> principal list" where
  "select_principals db key_hash =
    [\<lparr>pr_key_id = kr_key_id k, pr_tenant_id = kr_tenant_id k, pr_routing_mode = tr_routing_mode t,
      pr_rate_limit_rps = tr_rate_limit_rps t, pr_burst_limit = tr_burst_limit t\<rparr>.
      k \<leftarrow> at_api_keys db, t \<leftarrow> at_tenants db,
      tr_tenant_id t = kr_tenant_id k \<and> kr_key_hash k = key_hash \<and> kr_enabled k = 1 \<and> tr_enabled t = 1]"

definition query_principal :: "auth_tables result \<Rightarrow> string \<Rightarrow> principal result" where
  "query_principal db key_hash =
    (case db of Inl e \<Rightarrow> Inl (Plain (''auth store: '' @ err_text e))
     | Inr tables \<Rightarrow> (case select_principals tables key_hash of [] \<Rightarrow> Inl unauthorized | p # _ \<Rightarrow> Inr p))"

definition cached :: "auth_store \<Rightarrow> string \<Rightarrow> time \<Rightarrow> principal option" where
  "cached s key_hash now =
    (case au_cache s key_hash of
       Some entry \<Rightarrow> if now < ae_expires_at entry then Some (ae_principal entry) else None
     | None \<Rightarrow> None)"

definition cache_principal :: "auth_store \<Rightarrow> string \<Rightarrow> principal \<Rightarrow> time \<Rightarrow> auth_store" where
  "cache_principal s key_hash p t =
    s\<lparr>au_cache := (au_cache s)(key_hash \<mapsto> \<lparr>ae_principal = p, ae_expires_at = t + auth_cache_ttl\<rparr>)\<rparr>"

definition validate :: "auth_store \<Rightarrow> auth_tables result \<Rightarrow> string \<Rightarrow> time \<Rightarrow> time \<Rightarrow> auth_store \<times> principal result" where
  "validate s db key_hash now t =
    (case cached s key_hash now of
       Some p \<Rightarrow> (s, Inr p)
     | None \<Rightarrow> (case query_principal db key_hash of
         Inl e \<Rightarrow> (s, Inl e)
       | Inr p \<Rightarrow>
           let s = s\<lparr>au_touched := au_touched s @ [key_hash]\<rparr>
           in (cache_principal s key_hash p t, Inr p)))"

text \<open>One tick of \<open>cleanup\<close>, and \<open>Invalidate\<close>.\<close>

definition cleanup_tick :: "time \<Rightarrow> auth_store \<Rightarrow> auth_store" where
  "cleanup_tick now s =
    s\<lparr>au_cache := (\<lambda>k. case au_cache s k of
        Some e \<Rightarrow> if now > ae_expires_at e then None else Some e | None \<Rightarrow> None)\<rparr>"

definition invalidate :: "string \<Rightarrow> auth_store \<Rightarrow> auth_store" where
  "invalidate key_hash s = s\<lparr>au_cache := (au_cache s)(key_hash := None)\<rparr>"

subsection \<open>The cache of principals is a cache\<close>

definition store_principal :: "auth_store \<Rightarrow> string \<Rightarrow> principal \<Rightarrow> time \<Rightarrow> auth_store" where
  "store_principal s key_hash p t = cache_principal (s\<lparr>au_touched := au_touched s @ [key_hash]\<rparr>) key_hash p t"

interpretation principals: ttl_cache cached store_principal new_auth_store
    "\<lambda>t now. now < t + auth_cache_ttl" "\<lambda>k p. True"
  by unfold_locales (simp_all add: cached_def store_principal_def cache_principal_def new_auth_store_def)

definition found :: "principal result \<Rightarrow> principal option" where
  "found r = (case r of Inl e \<Rightarrow> None | Inr p \<Rightarrow> Some p)"

lemma found_simps [simp]: "found (Inl e) = None" "found (Inr p) = Some p" "found r = Some p \<longleftrightarrow> r = Inr p"
  by (simp_all add: found_def split: sum.split)

lemma validate_read_through:
  "fst (validate s db k now t) = fst (read_through cached store_principal s k now t (found (query_principal db k)))"
  "found (snd (validate s db k now t)) = snd (read_through cached store_principal s k now t (found (query_principal db k)))"
  by (simp_all add: validate_def read_through_def store_principal_def Let_def split: option.split sum.split)

lemma cleanup_drops: "principals.drops (cleanup_tick c)"
  by (auto simp: principals.drops_def cached_def cleanup_tick_def split: option.splits if_splits)

lemma invalidate_drops: "principals.drops (invalidate k)"
  by (auto simp: principals.drops_def cached_def invalidate_def split: option.splits if_splits)

text \<open>What happens to the store while the gateway runs.\<close>

datatype auth_event =
    Validate "auth_tables result" string time time
  | CleanupTick time
  | Invalidate string

fun auth_step :: "auth_store \<Rightarrow> auth_event \<Rightarrow> auth_store" where
  "auth_step s (Validate db k now t) = fst (validate s db k now t)"
| "auth_step s (CleanupTick c) = cleanup_tick c s"
| "auth_step s (Invalidate k) = invalidate k s"

definition auth_run :: "auth_event list \<Rightarrow> auth_store" where
  "auth_run evs = foldl auth_step new_auth_store evs"

fun op_of :: "auth_event \<Rightarrow> (auth_store, string, principal) cache_op" where
  "op_of (Validate db k now t) = Read k now t (found (query_principal db k))"
| "op_of (CleanupTick c) = Drop (cleanup_tick c)"
| "op_of (Invalidate k) = Drop (invalidate k)"

lemma foldl_cache_run: "foldl auth_step s evs = cache_run cached store_principal s (map op_of evs)"
proof (induction evs arbitrary: s)
  case (Cons e evs)
  then show ?case by (cases e) (simp_all add: validate_read_through)
qed simp

lemma op_of_Read: "op_of e = Read k n t (Some p) \<longleftrightarrow> (\<exists>db. e = Validate db k n t \<and> query_principal db k = Inr p)"
  by (cases e) auto

lemma key_revocation_parts:
  shows "snd (validate (auth_run evs) db key now t) = Inr p \<Longrightarrow>
      query_principal db key = Inr p \<or>
      (\<exists>db' n t'. Validate db' key n t' \<in> set evs \<and> query_principal db' key = Inr p \<and> now < t' + 60000000000)"
    and "snd (validate (invalidate key s) db key now t) = query_principal db key"
proof -
  assume "snd (validate (auth_run evs) db key now t) = Inr p"
  then have "snd (read_through cached store_principal (cache_run cached store_principal new_auth_store (map op_of evs))
      key now t (found (query_principal db key))) = Some p"
    using validate_read_through(2) [of "auth_run evs" db key now t] by (simp add: auth_run_def foldl_cache_run)
  moreover have "principals.proper (op_of e)" for e
    by (cases e) (simp_all add: principals.proper_def cleanup_drops invalidate_drops)
  ultimately have "found (query_principal db key) = Some p \<or>
      (\<exists>n t. Read key n t (Some p) \<in> set (map op_of evs) \<and> now < t + auth_cache_ttl)"
    by (intro principals.staleness) auto
  then show "query_principal db key = Inr p \<or>
      (\<exists>db' n t'. Validate db' key n t' \<in> set evs \<and> query_principal db' key = Inr p \<and> now < t' + 60000000000)"
    by (auto simp: auth_cache_ttl_def op_of_Read eq_commute [of "Read key n t (Some p)" for n t])
next
  show "snd (validate (invalidate key s) db key now t) = query_principal db key"
    by (simp add: validate_def cached_def invalidate_def Let_def split: sum.split)
qed

text \<open>C31. A revoked key stops working within sixty seconds: after any history of validations,
  clean-ups and invalidations, a key is accepted as a principal only if the database names that
  principal for it now, or named it at a validation of the same key that ended less than sixty seconds
  ago; and right after \<open>Invalidate\<close> only the database counts.\<close>

theorem key_revocation:
  "(snd (validate (auth_run evs) db key now t) = Inr p \<longrightarrow>
      query_principal db key = Inr p \<or>
      (\<exists>db' n t'. Validate db' key n t' \<in> set evs \<and> query_principal db' key = Inr p \<and> now < t' + 60000000000)) \<and>
   snd (validate (invalidate key s) db key now t) = query_principal db key"
  using key_revocation_parts by blast

definition demo_auth :: auth_tables where
  "demo_auth = \<lparr>at_api_keys = [\<lparr>kr_key_id = ''k1'', kr_tenant_id = ''t1'', kr_key_hash = ''h'', kr_enabled = 1\<rparr>],
     at_tenants = [\<lparr>tr_tenant_id = ''t1'', tr_routing_mode = ''balanced'', tr_rate_limit_rps = 10,
       tr_burst_limit = 20, tr_enabled = 1\<rparr>]\<rparr>"

text \<open>The key works from the cache although the database has lost it.\<close>

theorem key_revocation_witness:
  "snd (validate (auth_run [Validate (Inr demo_auth) ''h'' 0 0]) (Inr \<lparr>at_api_keys = [], at_tenants = []\<rparr>) ''h'' second second)
     = query_principal (Inr demo_auth) ''h'' \<and>
   (\<exists>db' n t'. Validate db' ''h'' n t' \<in> {Validate (Inr demo_auth) ''h'' 0 0} \<and> second < t' + 60000000000)"
proof -
  let ?p = "\<lparr>pr_key_id = ''k1'', pr_tenant_id = ''t1'', pr_routing_mode = ''balanced'', pr_rate_limit_rps = 10, pr_burst_limit = 20\<rparr>"
  let ?none = "Inr \<lparr>at_api_keys = [], at_tenants = []\<rparr>"
  have q: "query_principal (Inr demo_auth) ''h'' = Inr ?p" "query_principal ?none ''h'' \<noteq> Inr ?p"
    by (simp_all add: query_principal_def select_principals_def demo_auth_def)
  then have v: "snd (validate (auth_run [Validate (Inr demo_auth) ''h'' 0 0]) ?none ''h'' second second) = Inr ?p"
    by (simp add: auth_run_def validate_def cached_def new_auth_store_def cache_principal_def auth_cache_ttl_def)
  show ?thesis
    using key_revocation [of "[Validate (Inr demo_auth) ''h'' 0 0]" ?none "''h''" second second ?p new_auth_store] q v by auto
qed

lemma query_Inr:
  "query_principal (Inr tables) key = Inr p \<longleftrightarrow> (\<exists>ps. select_principals tables key = p # ps)"
  "query_principal (Inr tables) key = Inl e \<longleftrightarrow> select_principals tables key = [] \<and> e = unauthorized"
  by (auto simp: query_principal_def split: list.split)

lemma principal_parts:
  shows "query_principal (Inr tables) key = Inl e \<longleftrightarrow> e = unauthorized \<and>
      \<not> (\<exists>k \<in> set (at_api_keys tables). \<exists>t \<in> set (at_tenants tables). tr_tenant_id t = kr_tenant_id k \<and>
          kr_key_hash k = key \<and> kr_enabled k = 1 \<and> tr_enabled t = 1)"
    and "query_principal (Inr tables) key = Inr p \<Longrightarrow>
      \<exists>k \<in> set (at_api_keys tables). \<exists>t \<in> set (at_tenants tables).
        kr_key_hash k = key \<and> kr_enabled k = 1 \<and> tr_enabled t = 1 \<and>
        tr_tenant_id t = kr_tenant_id k \<and> p = \<lparr>pr_key_id = kr_key_id k, pr_tenant_id = tr_tenant_id t,
          pr_routing_mode = tr_routing_mode t, pr_rate_limit_rps = tr_rate_limit_rps t, pr_burst_limit = tr_burst_limit t\<rparr>"
    and "cached s key now = None \<Longrightarrow> validate s (Inl err) key now t = (s, Inl (Plain (''auth store: '' @ err_text err)))"
    and "c \<le> now \<Longrightarrow> snd (validate (cleanup_tick c s) db key now t) = snd (validate s db key now t)"
proof -
  show "query_principal (Inr tables) key = Inl e \<longleftrightarrow> e = unauthorized \<and>
      \<not> (\<exists>k \<in> set (at_api_keys tables). \<exists>t \<in> set (at_tenants tables). tr_tenant_id t = kr_tenant_id k \<and>
          kr_key_hash k = key \<and> kr_enabled k = 1 \<and> tr_enabled t = 1)"
    unfolding query_Inr by (auto simp: select_principals_def split: if_splits)
next
  assume "query_principal (Inr tables) key = Inr p"
  then have "p \<in> set (select_principals tables key)" by (auto simp: query_Inr)
  then obtain k t where "k \<in> set (at_api_keys tables)" "t \<in> set (at_tenants tables)"
      "tr_tenant_id t = kr_tenant_id k" "kr_key_hash k = key" "kr_enabled k = 1" "tr_enabled t = 1"
      "p = \<lparr>pr_key_id = kr_key_id k, pr_tenant_id = kr_tenant_id k, pr_routing_mode = tr_routing_mode t,
        pr_rate_limit_rps = tr_rate_limit_rps t, pr_burst_limit = tr_burst_limit t\<rparr>"
    by (auto simp: select_principals_def split: if_splits)
  then show "\<exists>k \<in> set (at_api_keys tables). \<exists>t \<in> set (at_tenants tables).
        kr_key_hash k = key \<and> kr_enabled k = 1 \<and> tr_enabled t = 1 \<and>
        tr_tenant_id t = kr_tenant_id k \<and> p = \<lparr>pr_key_id = kr_key_id k, pr_tenant_id = tr_tenant_id t,
          pr_routing_mode = tr_routing_mode t, pr_rate_limit_rps = tr_rate_limit_rps t, pr_burst_limit = tr_burst_limit t\<rparr>"
    by (intro bexI [of _ k] bexI [of _ t]) simp_all
next
  assume "cached s key now = None"
  then show "validate s (Inl err) key now t = (s, Inl (Plain (''auth store: '' @ err_text err)))"
    by (simp add: validate_def query_principal_def)
next
  assume "c \<le> now"
  then have "cached (cleanup_tick c s) key now = cached s key now"
    by (auto simp: cached_def cleanup_tick_def split: option.split)
  then show "snd (validate (cleanup_tick c s) db key now t) = snd (validate s db key now t)"
    by (simp add: validate_def Let_def split: option.split sum.split)
qed

text \<open>An answer of the database: a key is unauthorized exactly when no enabled row of the key
  belongs to an enabled tenant; a principal it gives carries the limits and the routing mode of such
  a tenant; a failing database is reported as such and caches nothing; and the clean-up of expired
  entries never changes what a later validation answers.\<close>

theorem principal_of_key:
  "(query_principal (Inr tables) key = Inl e \<longleftrightarrow> e = unauthorized \<and>
      \<not> (\<exists>k \<in> set (at_api_keys tables). \<exists>t \<in> set (at_tenants tables). tr_tenant_id t = kr_tenant_id k \<and>
          kr_key_hash k = key \<and> kr_enabled k = 1 \<and> tr_enabled t = 1)) \<and>
   (query_principal (Inr tables) key = Inr p \<longrightarrow>
      (\<exists>k \<in> set (at_api_keys tables). \<exists>t \<in> set (at_tenants tables).
        kr_key_hash k = key \<and> kr_enabled k = 1 \<and> tr_enabled t = 1 \<and>
        tr_tenant_id t = kr_tenant_id k \<and> p = \<lparr>pr_key_id = kr_key_id k, pr_tenant_id = tr_tenant_id t,
          pr_routing_mode = tr_routing_mode t, pr_rate_limit_rps = tr_rate_limit_rps t, pr_burst_limit = tr_burst_limit t\<rparr>)) \<and>
   (cached s key now = None \<longrightarrow> validate s (Inl err) key now t = (s, Inl (Plain (''auth store: '' @ err_text err)))) \<and>
   (c \<le> now \<longrightarrow> snd (validate (cleanup_tick c s) db key now t) = snd (validate s db key now t))"
  using principal_parts(1) principal_parts(2) principal_parts(3) principal_parts(4) by blast

theorem principal_of_key_witness:
  "snd (validate (cleanup_tick 0 new_auth_store) (Inr demo_auth) ''h'' 1 1) = snd (validate new_auth_store (Inr demo_auth) ''h'' 1 1) \<and>
   validate new_auth_store (Inl (Plain ''locked'')) ''h'' 1 1 = (new_auth_store, Inl (Plain ''auth store: locked''))"
  using principal_of_key [of demo_auth "''h''" unauthorized undefined new_auth_store 1 "Plain ''locked''" 1 0 "Inr demo_auth"]
  by (simp_all add: cached_def new_auth_store_def)

end
