(* ===== verification/Admission.thy ===== *)
theory Admission
  imports Messages
begin

section \<open>Admission control\<close>

text \<open>
  \<open>services/api-gateway/internal/admission/admission.go\<close>: the checks a request passes
  before the gateway forwards it, in their order, and the defaults it is given. A
  validation returns the error it finds or \<open>None\<close>; \<open>Admit\<close> changes the request it is
  given, so \<open>admit\<close> returns the request as it leaves it. \<open>now\<close> is what \<open>time.Now\<close> gives.
\<close>

record admission_config =
  ac_max_prompt_bytes :: int64
  ac_max_tokens :: int32
  ac_max_documents :: int64
  ac_deadline_default :: time
  ac_deadline_max :: time

definition default_admission :: admission_config where
  "default_admission = \<lparr>ac_max_prompt_bytes = 128 * 1024, ac_max_tokens = 8192, ac_max_documents = 50,
     ac_deadline_default = 30 * second, ac_deadline_max = 120 * second\<rparr>"

record admission =
  ad_cfg :: admission_config

definition new_admission :: "admission_config \<Rightarrow> admission" where
  "new_admission cfg = \<lparr>ad_cfg = cfg\<rparr>"

subsection \<open>Validation\<close>

definition validate_task :: "inference_request \<Rightarrow> err option" where
  "validate_task req =
    (if ir_task_type req = TaskChat \<or> ir_task_type req = TaskSummarize then
       (if ir_messages req = [] \<and> ir_prompt req = []
        then Some (Plain (''task '' @ task_string (ir_task_type req) @ '' requires prompt or messages'')) else None)
     else if ir_task_type req = TaskEmbed then
       (if ir_prompt req = [] \<and> ir_query req = [] then Some (Plain ''embed requires prompt or query'') else None)
     else if ir_task_type req = TaskRerank then
       (if ir_query req = [] then Some (Plain ''rerank requires query'')
        else if ir_documents req = [] then Some (Plain ''rerank requires documents'') else None)
     else if ir_task_type req = TaskClassify \<or> ir_task_type req = TaskModerate then
       (if ir_prompt req = []
        then Some (Plain (''task '' @ task_string (ir_task_type req) @ '' requires prompt'')) else None)
     else if ir_task_type req = TaskUnspecified then Some (Plain ''task_type must be specified'')
     else None)"

definition body_size :: "inference_request \<Rightarrow> nat" where
  "body_size req =
    (let total = length (ir_prompt req) + length (ir_query req);
         total = foldl (\<lambda>total m. total + length (cm_content m)) total (ir_messages req);
         total = foldl (\<lambda>total d. total + length d) total (ir_documents req)
     in total)"

definition validate_size :: "admission \<Rightarrow> inference_request \<Rightarrow> err option" where
  "validate_size a req =
    (if int (body_size req) > sint (ac_max_prompt_bytes (ad_cfg a))
     then Some (Plain (''request body exceeds '' @ show_int (sint (ac_max_prompt_bytes (ad_cfg a))) @
            '' bytes (got '' @ show_nat (body_size req) @ '')''))
     else None)"

definition validate_tokens :: "admission \<Rightarrow> inference_request \<Rightarrow> err option" where
  "validate_tokens a req =
    (if sint (ir_max_tokens req) < 0 then Some (Plain ''max_tokens cannot be negative'')
     else if sint (ir_max_tokens req) > sint (ac_max_tokens (ad_cfg a))
     then Some (Plain (''max_tokens '' @ show_int (sint (ir_max_tokens req)) @ '' exceeds limit '' @
            show_int (sint (ac_max_tokens (ad_cfg a)))))
     else None)"

definition validate_documents :: "admission \<Rightarrow> inference_request \<Rightarrow> err option" where
  "validate_documents a req =
    (if int (length (ir_documents req)) > sint (ac_max_documents (ad_cfg a))
     then Some (Plain (''too many documents: '' @ show_nat (length (ir_documents req)) @ '' (max '' @
            show_int (sint (ac_max_documents (ad_cfg a))) @ '')''))
     else None)"

subsection \<open>Defaults\<close>

definition normalise :: "admission \<Rightarrow> time \<Rightarrow> inference_request \<Rightarrow> inference_request" where
  "normalise a now req =
    (let req = (if ir_max_tokens req = 0 then req\<lparr>ir_max_tokens := 1024\<rparr> else req);
         req = (if ir_deadline_unix_ms req = 0
                then req\<lparr>ir_deadline_unix_ms := time_unix_milli (now + ac_deadline_default (ad_cfg a))\<rparr>
                else let deadline = unix_milli_time (ir_deadline_unix_ms req);
                         max_deadline = now + ac_deadline_max (ad_cfg a)
                     in if deadline > max_deadline
                        then req\<lparr>ir_deadline_unix_ms := time_unix_milli max_deadline\<rparr> else req);
         req = (if ir_metadata req = None then req\<lparr>ir_metadata := Some Map.empty\<rparr> else req)
     in req)"

definition admit :: "admission \<Rightarrow> time \<Rightarrow> inference_request \<Rightarrow> inference_request result" where
  "admit a now req =
    (case validate_task req of Some e \<Rightarrow> Inl e
     | None \<Rightarrow> (case validate_size a req of Some e \<Rightarrow> Inl e
     | None \<Rightarrow> (case validate_tokens a req of Some e \<Rightarrow> Inl e
     | None \<Rightarrow> (case validate_documents a req of Some e \<Rightarrow> Inl e
     | None \<Rightarrow> Inr (normalise a now req)))))"

text \<open>\<open>DeadlineRemaining\<close>; \<open>time.Until\<close> saturates at the bounds of a \<open>Duration\<close>.\<close>

definition deadline_remaining :: "time \<Rightarrow> inference_request \<Rightarrow> time" where
  "deadline_remaining now req =
    (if ir_deadline_unix_ms req = 0 then 30 * second
     else time_sub (unix_milli_time (ir_deadline_unix_ms req)) now)"

subsection \<open>What is admitted\<close>

text \<open>What a request must have for its task.\<close>

definition task_complete :: "inference_request \<Rightarrow> bool" where
  "task_complete req \<longleftrightarrow> ir_task_type req \<noteq> TaskUnspecified \<and>
     (ir_task_type req \<in> {TaskChat, TaskSummarize} \<longrightarrow> ir_messages req \<noteq> [] \<or> ir_prompt req \<noteq> []) \<and>
     (ir_task_type req = TaskEmbed \<longrightarrow> ir_prompt req \<noteq> [] \<or> ir_query req \<noteq> []) \<and>
     (ir_task_type req = TaskRerank \<longrightarrow> ir_query req \<noteq> [] \<and> ir_documents req \<noteq> []) \<and>
     (ir_task_type req \<in> {TaskClassify, TaskModerate} \<longrightarrow> ir_prompt req \<noteq> [])"

definition total_bytes :: "inference_request \<Rightarrow> nat" where
  "total_bytes req = length (ir_prompt req) + length (ir_query req) +
     sum_list (map (length \<circ> cm_content) (ir_messages req)) + sum_list (map length (ir_documents req))"

definition within_limits :: "admission_config \<Rightarrow> inference_request \<Rightarrow> bool" where
  "within_limits cfg req \<longleftrightarrow>
     int (total_bytes req) \<le> sint (ac_max_prompt_bytes cfg) \<and>
     0 \<le> sint (ir_max_tokens req) \<and> sint (ir_max_tokens req) \<le> sint (ac_max_tokens cfg) \<and>
     int (length (ir_documents req)) \<le> sint (ac_max_documents cfg)"

lemma foldl_plus: "foldl (\<lambda>n x. n + f x) n xs = (n :: nat) + sum_list (map f xs)"
  by (induction xs arbitrary: n) simp_all

lemma body_size_total: "body_size req = total_bytes req"
  by (simp add: body_size_def total_bytes_def foldl_plus o_def)

lemma validate_task_None: "validate_task req = None \<longleftrightarrow> task_complete req"
  by (auto simp: validate_task_def task_complete_def)

lemma admit_cases:
  "admit a now req = Inr r \<longleftrightarrow> task_complete req \<and> within_limits (ad_cfg a) req \<and> r = normalise a now req"
  by (auto simp: admit_def validate_task_None [symmetric] within_limits_def body_size_total
      validate_size_def validate_tokens_def validate_documents_def split: option.splits)

lemma normalise_frame:
  "task_complete (normalise a now req) = task_complete req"
  "total_bytes (normalise a now req) = total_bytes req"
  "ir_documents (normalise a now req) = ir_documents req"
  by (simp_all add: normalise_def Let_def task_complete_def total_bytes_def)

lemma normalise_fields:
  "ir_max_tokens (normalise a now req) = (if ir_max_tokens req = 0 then 1024 else ir_max_tokens req)"
  "ir_metadata (normalise a now req) = Some (case ir_metadata req of None \<Rightarrow> Map.empty | Some md \<Rightarrow> md)"
  "ir_deadline_unix_ms (normalise a now req) =
     (if ir_deadline_unix_ms req = 0 then time_unix_milli (now + ac_deadline_default (ad_cfg a))
      else if unix_milli_time (ir_deadline_unix_ms req) > now + ac_deadline_max (ad_cfg a)
      then time_unix_milli (now + ac_deadline_max (ad_cfg a)) else ir_deadline_unix_ms req)"
  by (auto simp: normalise_def Let_def split: option.split)

text \<open>A time in the range of the clock, in milliseconds and back.\<close>

lemma milli_roundtrip:
  assumes "0 \<le> t" "t < 2 ^ 62 * millisecond"
  shows "unix_milli_time (time_unix_milli t) = t div millisecond * millisecond"
    and "time_unix_milli t = 0 \<longleftrightarrow> t < millisecond"
proof -
  have d: "0 \<le> t div millisecond" "t div millisecond < 2 ^ 62"
    using assms by (simp_all add: div_less_iff_less_mult)
  then have s: "sint (time_unix_milli t) = t div millisecond"
    unfolding time_unix_milli_def by (intro sint_word_of_int) simp_all
  then show "unix_milli_time (time_unix_milli t) = t div millisecond * millisecond"
    by (simp add: unix_milli_time_def)
  have "time_unix_milli t = 0 \<longleftrightarrow> sint (time_unix_milli t) = 0"
    by (metis word_of_sint sint_0 word_of_int_0)
  also have "\<dots> \<longleftrightarrow> t < millisecond" using assms(1) unfolding s by (auto simp: div_eq_0_iff)
  finally show "time_unix_milli t = 0 \<longleftrightarrow> t < millisecond" .
qed

text \<open>The limits of a gateway that make sense together, and a clock in its range.\<close>

definition sane_admission :: "admission_config \<Rightarrow> time \<Rightarrow> bool" where
  "sane_admission cfg now \<longleftrightarrow> 0 \<le> now \<and> now + ac_deadline_max cfg < 2 ^ 62 * millisecond \<and>
     millisecond \<le> ac_deadline_default cfg \<and> ac_deadline_default cfg \<le> ac_deadline_max cfg \<and>
     1024 \<le> sint (ac_max_tokens cfg)"

lemma normalised_deadline:
  assumes "sane_admission (ad_cfg a) now"
  shows "ir_deadline_unix_ms (normalise a now req) \<noteq> 0"
    and "unix_milli_time (ir_deadline_unix_ms (normalise a now req)) \<le> now + ac_deadline_max (ad_cfg a)"
proof -
  let ?d = "now + ac_deadline_default (ad_cfg a)" and ?m = "now + ac_deadline_max (ad_cfg a)"
  have r: "0 \<le> ?d" "?d \<le> ?m" "?d < 2 ^ 62 * millisecond" "\<not> ?d < millisecond"
      "0 \<le> ?m" "?m < 2 ^ 62 * millisecond" "\<not> ?m < millisecond"
    using assms by (simp_all add: sane_admission_def)
  have f: "t div millisecond * millisecond \<le> t" for t :: int
    by (simp add: minus_mod_eq_div_mult [symmetric])
  show "ir_deadline_unix_ms (normalise a now req) \<noteq> 0"
    using milli_roundtrip(2) [OF r(1,3)] milli_roundtrip(2) [OF r(5,6)] r(4,7) by (simp add: normalise_fields)
  show "unix_milli_time (ir_deadline_unix_ms (normalise a now req)) \<le> ?m"
    using milli_roundtrip(1) [OF r(1,3)] milli_roundtrip(1) [OF r(5,6)] f [of ?d] f [of ?m] r(2)
    by (auto simp: normalise_fields)
qed

lemma normalise_again:
  assumes "sane_admission (ad_cfg a) now"
  shows "normalise a now (normalise a now req) = normalise a now req"
proof -
  have n: "normalise a now r = r"
    if "ir_max_tokens r \<noteq> 0" "ir_deadline_unix_ms r \<noteq> 0" "ir_metadata r \<noteq> None"
      "unix_milli_time (ir_deadline_unix_ms r) \<le> now + ac_deadline_max (ad_cfg a)" for r
    using that by (auto simp: normalise_def)
  show ?thesis
    by (rule n) (use normalised_deadline [OF assms] in \<open>simp_all add: normalise_fields(1,2)\<close>)
qed

text \<open>A request is admitted exactly when it has what its task needs (a prompt or messages for
  chat and summarize, a prompt or query to embed, a query and documents to rerank, a prompt to
  classify and moderate, any task but the unspecified one) and is within the limits on bytes, tokens
  and documents; an admitted request only has defaults filled in.\<close>

theorem admit_iff:
  "admit a now req = Inr r \<longleftrightarrow> task_complete req \<and> within_limits (ad_cfg a) req \<and> r = normalise a now req"
  by (rule admit_cases)

lemma admitted_parts:
  assumes "admit a now req = Inr r" "sane_admission (ad_cfg a) now"
  shows "0 < sint (ir_max_tokens r)" "sint (ir_max_tokens r) \<le> sint (ac_max_tokens (ad_cfg a))"
    and "ir_deadline_unix_ms r \<noteq> 0"
    and "unix_milli_time (ir_deadline_unix_ms r) \<le> now + ac_deadline_max (ad_cfg a)"
    and "r = req\<lparr>ir_max_tokens := ir_max_tokens r, ir_deadline_unix_ms := ir_deadline_unix_ms r,
           ir_metadata := Some (case ir_metadata req of None \<Rightarrow> Map.empty | Some md \<Rightarrow> md)\<rparr>"
    and "admit a now r = Inr r"
proof -
  have r: "task_complete req" "within_limits (ad_cfg a) req" "r = normalise a now req"
    using assms(1) by (simp_all add: admit_cases)
  have t: "1024 \<le> sint (ac_max_tokens (ad_cfg a))" using assms(2) by (simp add: sane_admission_def)
  have nz: "sint (ir_max_tokens req) \<noteq> 0" if "ir_max_tokens req \<noteq> 0"
    using that by (metis word_of_sint word_of_int_0)
  show tok: "0 < sint (ir_max_tokens r)" "sint (ir_max_tokens r) \<le> sint (ac_max_tokens (ad_cfg a))"
    using r(2,3) t nz by (auto simp: normalise_fields within_limits_def)
  show "ir_deadline_unix_ms r \<noteq> 0" "unix_milli_time (ir_deadline_unix_ms r) \<le> now + ac_deadline_max (ad_cfg a)"
    using normalised_deadline [OF assms(2), of req] r(3) by simp_all
  show "r = req\<lparr>ir_max_tokens := ir_max_tokens r, ir_deadline_unix_ms := ir_deadline_unix_ms r,
      ir_metadata := Some (case ir_metadata req of None \<Rightarrow> Map.empty | Some md \<Rightarrow> md)\<rparr>"
    unfolding r(3) by (cases req) (auto simp: normalise_def Let_def)
  have "within_limits (ad_cfg a) r"
    using r(2) tok by (simp add: within_limits_def r(3) normalise_frame)
  then show "admit a now r = Inr r"
    using r normalise_again [OF assms(2), of req] by (simp add: admit_cases normalise_frame)
qed

text \<open>C30. What the gateway forwards is well-formed: with sane limits, an admitted request has
  between 1 and the maximal number of tokens, a deadline that is set and at most the maximal deadline
  away, metadata that is not nil, and the same task, content and identity as the request that came in;
  it would be admitted again, unchanged.\<close>

theorem admitted_wellformed:
  assumes "admit a now req = Inr r" "sane_admission (ad_cfg a) now"
  shows "0 < sint (ir_max_tokens r) \<and> sint (ir_max_tokens r) \<le> sint (ac_max_tokens (ad_cfg a)) \<and>
    ir_deadline_unix_ms r \<noteq> 0 \<and>
    unix_milli_time (ir_deadline_unix_ms r) \<le> now + ac_deadline_max (ad_cfg a) \<and>
    r = req\<lparr>ir_max_tokens := ir_max_tokens r, ir_deadline_unix_ms := ir_deadline_unix_ms r,
          ir_metadata := Some (case ir_metadata req of None \<Rightarrow> Map.empty | Some md \<Rightarrow> md)\<rparr> \<and>
    admit a now r = Inr r"
  using admitted_parts [OF assms] by blast

definition demo_chat :: inference_request where
  "demo_chat = zero_request\<lparr>ir_task_type := TaskChat, ir_prompt := ''hi'', ir_deadline_unix_ms := 999999\<rparr>"

theorem admitted_wellformed_witness:
  "admit (new_admission default_admission) second demo_chat =
     Inr (demo_chat\<lparr>ir_max_tokens := 1024, ir_deadline_unix_ms := 121000, ir_metadata := Some Map.empty\<rparr>) \<and>
   admit (new_admission default_admission) second
     (demo_chat\<lparr>ir_max_tokens := 1024, ir_deadline_unix_ms := 121000, ir_metadata := Some Map.empty\<rparr>) =
     Inr (demo_chat\<lparr>ir_max_tokens := 1024, ir_deadline_unix_ms := 121000, ir_metadata := Some Map.empty\<rparr>)"
proof -
  let ?a = "new_admission default_admission"
  let ?r = "demo_chat\<lparr>ir_max_tokens := 1024, ir_deadline_unix_ms := 121000, ir_metadata := Some Map.empty\<rparr>"
  have "normalise ?a second demo_chat = ?r"
    by (simp add: normalise_def Let_def demo_chat_def zero_request_def new_admission_def default_admission_def
        unix_milli_time_def time_unix_milli_def)
  then have "admit ?a second demo_chat = Inr ?r"
    by (simp add: admit_cases task_complete_def within_limits_def total_bytes_def demo_chat_def zero_request_def
        new_admission_def default_admission_def)
  moreover have "sane_admission (ad_cfg ?a) second"
    by (simp add: sane_admission_def new_admission_def default_admission_def)
  ultimately show ?thesis using admitted_wellformed by blast
qed

end
