(* ===== verification/Gateway.thy ===== *)
theory Gateway
  imports Auth Admission
begin

section \<open>The API gateway\<close>

text \<open>
  \<open>services/api-gateway/cmd/main.go\<close>: the HTTP handlers, which authenticate a request, parse
  it, admit it, forward it to the router and answer, in one piece or as a stream of words.
  The router behind the connection is a function \<open>invoke\<close> of its state; the tables of the
  database, the parsed body, the clock and the random bytes are arguments. A reply is its
  status, the headers set by the handler and its body as values; \<open>None\<close> is a reply that never
  comes, because the handler panicked.
\<close>

subsection \<open>State\<close>

record gateway_metrics =
  gm_total :: int64
  gm_auth_failed :: int64
  gm_admitted :: int64
  gm_admit_failed :: int64
  gm_rate_limited :: int64
  gm_routed :: int64
  gm_streamed :: int64
  gm_errors :: int64

definition zero_gateway_metrics :: gateway_metrics where
  "zero_gateway_metrics = \<lparr>gm_total = 0, gm_auth_failed = 0, gm_admitted = 0, gm_admit_failed = 0, gm_rate_limited = 0,
     gm_routed = 0, gm_streamed = 0, gm_errors = 0\<rparr>"

record gateway =
  gw_auth :: auth_store
  gw_admitter :: admission
  gw_metrics :: gateway_metrics
  gw_started_at :: time

definition new_gateway :: "time \<Rightarrow> gateway" where
  "new_gateway now = \<lparr>gw_auth = new_auth_store, gw_admitter = new_admission default_admission,
     gw_metrics = zero_gateway_metrics, gw_started_at = now\<rparr>"

text \<open>The rows that \<open>openDB\<close> adds. A key is ignored when its id or its hash is taken.\<close>

definition open_tenant :: tenant_row where
  "open_tenant = \<lparr>tr_tenant_id = ''tenant-default'', tr_routing_mode = ''balanced'', tr_rate_limit_rps = 50,
     tr_burst_limit = 100, tr_enabled = 1\<rparr>"

definition open_key :: "string \<Rightarrow> string \<Rightarrow> key_row" where
  "open_key kid hash = \<lparr>kr_key_id = kid, kr_tenant_id = ''tenant-default'', kr_key_hash = hash, kr_enabled = 1\<rparr>"

definition insert_key :: "key_row list \<Rightarrow> key_row \<Rightarrow> key_row list" where
  "insert_key rows k =
    (if \<exists>r \<in> set rows. kr_key_id r = kr_key_id k \<or> kr_key_hash r = kr_key_hash k then rows else rows @ [k])"

definition gateway_open_db :: "auth_tables \<Rightarrow> auth_tables" where
  "gateway_open_db db =
    \<lparr>at_api_keys = foldl insert_key (at_api_keys db) [open_key ''k1'' ''test-key-1234'', open_key ''k2'' ''platform-key-5678''],
     at_tenants = (if \<exists>t \<in> set (at_tenants db). tr_tenant_id t = tr_tenant_id open_tenant then at_tenants db
                   else at_tenants db @ [open_tenant])\<rparr>"

text \<open>\<open>main\<close> up to the listener: the address it will listen on, the tables and the gateway; an \<open>Inl\<close> is
  an exit. Opening the database and dialling the router are arguments.\<close>

definition gateway_getenv :: "(string \<rightharpoonup> string) \<Rightarrow> string \<Rightarrow> string \<Rightarrow> string" where
  "gateway_getenv os k fb = (case os k of None \<Rightarrow> fb | Some v \<Rightarrow> if v \<noteq> [] then v else fb)"

definition start_gateway ::
  "(string \<rightharpoonup> string) \<Rightarrow> (string \<Rightarrow> auth_tables result) \<Rightarrow> (string \<Rightarrow> err option) \<Rightarrow> time \<Rightarrow> (string \<times> auth_tables \<times> gateway) result" where
  "start_gateway os opens dial_fails now =
    (let db_path = gateway_getenv os ''DB_PATH'' ''/data/gateway.db'';
         router_addr = gateway_getenv os ''ROUTER_ADDR'' ''router:50052'';
         http_port = gateway_getenv os ''HTTP_PORT'' ''8080''
     in case opens db_path of
          Inl e \<Rightarrow> Inl e
        | Inr db \<Rightarrow> (case dial_fails router_addr of
            Some e \<Rightarrow> Inl e
          | None \<Rightarrow> Inr ('':'' @ http_port, gateway_open_db db, new_gateway now)))"

subsection \<open>Requests\<close>

text \<open>The parsed body; a message that is \<open>null\<close> parses as a nil pointer, here \<open>None\<close>.\<close>

record http_body =
  hb_prompt :: string
  hb_messages :: "chat_message option list"
  hb_documents :: "string list"
  hb_query :: string
  hb_max_tokens :: int32
  hb_stream :: bool
  hb_priority :: int32
  hb_cost_budget :: string
  hb_latency_target_ms :: int32
  hb_metadata :: "(string \<rightharpoonup> string) option"

text \<open>The transport of a request: a header that is missing reads as the empty string.\<close>

record http_in =
  hi_method :: string
  hi_path :: string
  hi_authorization :: string
  hi_x_api_key :: string
  hi_idempotency_key :: string
  hi_body :: "http_body result"
  hi_flushes :: bool

definition task_from_path :: "string \<Rightarrow> task_type" where
  "task_from_path path =
    (if has_suffix path ''/chat'' then TaskChat
     else if has_suffix path ''/summarize'' then TaskSummarize
     else if has_suffix path ''/embed'' then TaskEmbed
     else if has_suffix path ''/rerank'' then TaskRerank
     else if has_suffix path ''/classify'' then TaskClassify
     else if has_suffix path ''/moderate'' then TaskModerate
     else TaskUnspecified)"

definition extract_key :: "http_in \<Rightarrow> string" where
  "extract_key r =
    (if has_prefix (hi_authorization r) ''Bearer '' then drop (length ''Bearer '') (hi_authorization r)
     else hi_x_api_key r)"

subsection \<open>Replies\<close>

datatype sse_event = SseError string string | SseChunk stream_chunk

datatype gateway_body =
    GwError string
  | GwText string
  | GwStatus string
  | GwResponse inference_response
  | GwEvents "sse_event list"
  | GwStats "(string \<times> int) list"

record gateway_reply =
  gr_code :: nat
  gr_headers :: "(string \<times> string) list"
  gr_body :: gateway_body

definition json_ok :: "gateway_body \<Rightarrow> (string \<times> string) list \<Rightarrow> gateway_reply" where
  "json_ok v headers = \<lparr>gr_code = 200, gr_headers = headers @ [(''Content-Type'', ''application/json'')], gr_body = v\<rparr>"

definition json_error :: "nat \<Rightarrow> string \<Rightarrow> gateway_reply" where
  "json_error c msg = \<lparr>gr_code = c, gr_headers = [(''Content-Type'', ''application/json'')], gr_body = GwError msg\<rparr>"

definition http_error :: "nat \<Rightarrow> string \<Rightarrow> gateway_reply" where
  "http_error c msg = \<lparr>gr_code = c, gr_headers = [], gr_body = GwText msg\<rparr>"

text \<open>\<open>status.FromError\<close>: an error that is not a status has the code \<open>Unknown\<close>.\<close>

definition status_code :: "err \<Rightarrow> code" where
  "status_code e = (case e of Status c _ \<Rightarrow> c | Plain _ \<Rightarrow> UnknownCode)"

definition routing_error :: "err \<Rightarrow> gateway_reply" where
  "routing_error e =
    (if status_code e = ResourceExhausted then json_error 429 (err_message e)
     else if status_code e = Unavailable then json_error 503 ''model service unavailable''
     else json_error 500 ''inference failed'')"

subsection \<open>The words of a text\<close>

text \<open>\<open>strings.Fields\<close> splits around runs of white space. The white space of Unicode, in UTF-8:
  no other encoding of a text contains one of these sequences.\<close>

definition spaces :: "string list" where
  "spaces =
    [[CHR 0x09], [CHR 0x0A], [CHR 0x0B], [CHR 0x0C], [CHR 0x0D], [CHR 0x20], [CHR 0xC2, CHR 0x85], [CHR 0xC2, CHR 0xA0],
     [CHR 0xE1, CHR 0x9A, CHR 0x80], [CHR 0xE2, CHR 0x80, CHR 0xA8], [CHR 0xE2, CHR 0x80, CHR 0xA9],
     [CHR 0xE2, CHR 0x80, CHR 0xAF], [CHR 0xE2, CHR 0x81, CHR 0x9F], [CHR 0xE3, CHR 0x80, CHR 0x80]]
    @ map (\<lambda>c. [CHR 0xE2, CHR 0x80, c])
        [CHR 0x80, CHR 0x81, CHR 0x82, CHR 0x83, CHR 0x84, CHR 0x85, CHR 0x86, CHR 0x87, CHR 0x88, CHR 0x89, CHR 0x8A]"

definition space_width :: "string \<Rightarrow> nat" where
  "space_width s = (case find (\<lambda>p. has_prefix s p) spaces of None \<Rightarrow> 0 | Some p \<Rightarrow> length p)"

function split_fields :: "string \<Rightarrow> string \<Rightarrow> string list" where
  "split_fields w [] = (if w = [] then [] else [w])"
| "split_fields w (c # cs) =
     (if space_width (c # cs) = 0 then split_fields (w @ [c]) cs
      else (if w = [] then [] else [w]) @ split_fields [] (drop (space_width (c # cs)) (c # cs)))"
  by pat_completeness auto
termination by (relation "measure (\<lambda>(w, s). length s)") auto

definition string_fields :: "string \<Rightarrow> string list" where
  "string_fields s = split_fields [] s"

subsection \<open>Handlers\<close>

text \<open>\<open>routerClient.Route\<close>: the unary call over the connection, of a router with state \<open>'r\<close>.\<close>

type_synonym 'r invoke = "string \<Rightarrow> time \<Rightarrow> inference_request \<Rightarrow> 'r \<Rightarrow> 'r \<times> inference_response result"

definition router_client_route :: "'r invoke \<Rightarrow> time \<Rightarrow> inference_request \<Rightarrow> 'r \<Rightarrow> 'r \<times> inference_response result" where
  "router_client_route invoke deadline req r = invoke ''/routing.v1.RouterService/Route'' deadline req r"

record gateway_env =
  ge_start :: time
  ge_db :: "auth_tables result"
  ge_auth_now :: time
  ge_auth_stored :: time
  ge_random :: "8 word list"
  ge_admit_now :: time
  ge_stream_now :: time
  ge_gone_at :: "nat option"
  ge_end :: time

text \<open>The random id of a request, as \<open>%x\<close> prints eight bytes.\<close>

definition gateway_new_id :: "8 word list \<Rightarrow> string" where
  "gateway_new_id b = concat (map (\<lambda>x. byte_hex (unat x)) b)"

definition grpc_request :: "gateway_env \<Rightarrow> http_in \<Rightarrow> http_body \<Rightarrow> principal \<Rightarrow> inference_request" where
  "grpc_request env r hr p = zero_request\<lparr>ir_request_id := gateway_new_id (ge_random env),
     ir_idempotency_key := hi_idempotency_key r, ir_task_type := task_from_path (hi_path r),
     ir_prompt := hb_prompt hr, ir_messages := map the (hb_messages hr), ir_documents := hb_documents hr,
     ir_query := hb_query hr, ir_max_tokens := hb_max_tokens hr, ir_stream := hb_stream hr,
     ir_priority := hb_priority hr, ir_cost_budget := hb_cost_budget hr,
     ir_latency_target_ms := hb_latency_target_ms hr, ir_tenant_id := pr_tenant_id p, ir_api_key_id := pr_key_id p,
     ir_metadata := hb_metadata hr, ir_received_at_ms := time_unix_milli (ge_start env)\<rparr>"

text \<open>\<open>Admit\<close> on the parsed request: \<open>validateTask\<close> only looks whether there are messages, and
  \<open>validateSize\<close> reads the content of each, which panics on a nil pointer.\<close>

definition admit_parsed :: "admission \<Rightarrow> time \<Rightarrow> http_body \<Rightarrow> inference_request \<Rightarrow> inference_request result option" where
  "admit_parsed a now hr req =
    (if None \<in> set (hb_messages hr) \<and> validate_task req = None then None else Some (admit a now req))"

text \<open>The loop over the words; \<open>gone\<close> is the index at which the client is found gone, if it is.\<close>

fun stream_loop :: "inference_request \<Rightarrow> inference_response \<Rightarrow> f64 \<Rightarrow> nat option \<Rightarrow> nat \<Rightarrow> nat \<Rightarrow> string list \<Rightarrow>
    sse_event list \<times> bool" where
  "stream_loop req resp latency gone n i [] = ([], True)"
| "stream_loop req resp latency gone n i (word # words) =
     (if (case gone of None \<Rightarrow> False | Some g \<Rightarrow> g \<le> i) then ([], False)
      else
        let chunk = \<lparr>sc_request_id = ir_request_id req, sc_trace_id = rs_trace_id resp, sc_token = word @ '' '',
                     sc_done = (i = n - 1), sc_tokens_out = 0, sc_latency_ms = f64_zero\<rparr>;
            chunk = (if sc_done chunk then chunk\<lparr>sc_tokens_out := rs_tokens_output resp, sc_latency_ms := latency\<rparr> else chunk)
        in (case stream_loop req resp latency gone n (i + 1) words of (events, finished) \<Rightarrow> (SseChunk chunk # events, finished)))"

definition count_gateway :: "(gateway_metrics \<Rightarrow> gateway_metrics) \<Rightarrow> gateway \<Rightarrow> gateway" where
  "count_gateway f g = g\<lparr>gw_metrics := f (gw_metrics g)\<rparr>"

definition handle_sse ::
  "'r invoke \<Rightarrow> gateway_env \<Rightarrow> http_in \<Rightarrow> inference_request \<Rightarrow> gateway \<times> 'r \<Rightarrow> (gateway \<times> 'r) \<times> gateway_reply" where
  "handle_sse invoke env r req s =
    (if \<not> hi_flushes r then (s, json_error 500 ''streaming not supported by this transport'')
     else
       let headers = [(''Content-Type'', ''text/event-stream''), (''Cache-Control'', ''no-cache''), (''Connection'', ''keep-alive''),
                      (''X-Request-ID'', ir_request_id req)]
       in (case router_client_route invoke (ge_stream_now env + 30 * second) req (snd s) of
         (rt, Inl e) \<Rightarrow>
           ((fst s, rt), \<lparr>gr_code = 200, gr_headers = headers, gr_body = GwEvents [SseError (err_text e) (ir_request_id req)]\<rparr>)
       | (rt, Inr resp) \<Rightarrow>
           let words = string_fields (rs_content resp);
               words = (if length words = 0 then [[]] else words);
               latency = f64_of_int (to_millis (time_sub (ge_end env) (ge_start env)))
           in (case stream_loop req resp latency (ge_gone_at env) (length words) 0 words of (events, finished) \<Rightarrow>
                 ((if finished then count_gateway (\<lambda>m. m\<lparr>gm_streamed := gm_streamed m + 1\<rparr>) (fst s) else fst s, rt),
                  \<lparr>gr_code = 200, gr_headers = headers, gr_body = GwEvents events\<rparr>))))"

definition handle_inference ::
  "'r invoke \<Rightarrow> gateway_env \<Rightarrow> http_in \<Rightarrow> gateway \<times> 'r \<Rightarrow> (gateway \<times> 'r) \<times> gateway_reply option" where
  "handle_inference invoke env r s =
    (let g = count_gateway (\<lambda>m. m\<lparr>gm_total := gm_total m + 1\<rparr>) (fst s)
     in case validate (gw_auth g) (ge_db env) (extract_key r) (ge_auth_now env) (ge_auth_stored env) of
       (au, Inl e) \<Rightarrow>
         ((count_gateway (\<lambda>m. m\<lparr>gm_auth_failed := gm_auth_failed m + 1\<rparr>) (g\<lparr>gw_auth := au\<rparr>), snd s),
          Some (json_error 401 ''invalid or missing API key''))
     | (au, Inr p) \<Rightarrow>
         let g = g\<lparr>gw_auth := au\<rparr>
         in (case hi_body r of
           Inl e \<Rightarrow>
             ((count_gateway (\<lambda>m. m\<lparr>gm_admit_failed := gm_admit_failed m + 1\<rparr>) g, snd s),
              Some (json_error 400 ''invalid request body''))
         | Inr hr \<Rightarrow>
             (case admit_parsed (gw_admitter g) (ge_admit_now env) hr (grpc_request env r hr p) of
               None \<Rightarrow> ((g, snd s), None)
             | Some (Inl e) \<Rightarrow>
                 ((count_gateway (\<lambda>m. m\<lparr>gm_admit_failed := gm_admit_failed m + 1\<rparr>) g, snd s), Some (json_error 400 (err_text e)))
             | Some (Inr req) \<Rightarrow>
                 let g = count_gateway (\<lambda>m. m\<lparr>gm_admitted := gm_admitted m + 1\<rparr>) g
                 in if ir_stream req
                    then (case handle_sse invoke env r req (g, snd s) of (s', reply) \<Rightarrow> (s', Some reply))
                    else (case router_client_route invoke (unix_milli_time (ir_deadline_unix_ms req)) req (snd s) of
                      (rt, Inl e) \<Rightarrow>
                        ((count_gateway (\<lambda>m. m\<lparr>gm_errors := gm_errors m + 1\<rparr>) g, rt), Some (routing_error e))
                    | (rt, Inr resp) \<Rightarrow>
                        ((count_gateway (\<lambda>m. m\<lparr>gm_routed := gm_routed m + 1\<rparr>) g, rt),
                         Some (json_ok (GwResponse resp)
                           [(''X-Request-ID'', ir_request_id req), (''X-Trace-ID'', rs_trace_id resp),
                            (''X-Response-Time-Ms'', show_int (to_millis (time_sub (ge_end env) (ge_start env))))]))))))"

definition gateway_counters :: "gateway_metrics \<Rightarrow> (string \<times> int64) list" where
  "gateway_counters m = [(''total'', gm_total m), (''auth_failed'', gm_auth_failed m), (''admitted'', gm_admitted m),
     (''admit_failed'', gm_admit_failed m), (''rate_limited'', gm_rate_limited m), (''routed'', gm_routed m),
     (''streamed'', gm_streamed m), (''errors'', gm_errors m)]"

definition stats_handler :: "gateway \<Rightarrow> time \<Rightarrow> gateway_reply" where
  "stats_handler g now = json_ok (GwStats (map (\<lambda>(k, v). (k, sint v)) (gateway_counters (gw_metrics g))
     @ [(''uptime_ms'', to_millis (time_sub now (gw_started_at g)))])) []"

definition metrics_line :: "string \<Rightarrow> int64 \<Rightarrow> string" where
  "metrics_line name v = ''gateway_'' @ name @ '' '' @ show_int (sint v) @ [CHR 0x0A]"

definition metrics_handler :: "gateway \<Rightarrow> gateway_reply" where
  "metrics_handler g =
    (let m = gw_metrics g in
     \<lparr>gr_code = 200, gr_headers = [], gr_body = GwText (
        metrics_line ''requests_total'' (gm_total m) @ metrics_line ''auth_failed'' (gm_auth_failed m) @
        metrics_line ''admitted'' (gm_admitted m) @ metrics_line ''admit_failed'' (gm_admit_failed m) @
        metrics_line ''routed'' (gm_routed m) @ metrics_line ''streamed'' (gm_streamed m) @
        metrics_line ''errors'' (gm_errors m))\<rparr>)"

definition post_only :: "http_in \<Rightarrow> 's \<times> gateway_reply option \<Rightarrow> 's \<Rightarrow> 's \<times> gateway_reply option" where
  "post_only r h s = (if hi_method r \<noteq> ''POST'' then (s, Some (http_error 405 ''method not allowed'')) else h)"

definition get_only :: "http_in \<Rightarrow> 's \<times> gateway_reply option \<Rightarrow> 's \<Rightarrow> 's \<times> gateway_reply option" where
  "get_only r h s = (if hi_method r \<noteq> ''GET'' then (s, Some (http_error 405 ''method not allowed'')) else h)"

definition gateway_tasks :: "string list" where
  "gateway_tasks = [''chat'', ''summarize'', ''embed'', ''rerank'', ''classify'', ''moderate'']"

text \<open>The routes. The path is a clean one: to one with \<open>//\<close>, \<open>.\<close> or \<open>..\<close> in it the multiplexer of net/http answers
  with a redirect to the clean path and calls no handler. It answers 404 to any other clean path.\<close>

definition gateway_handler ::
  "'r invoke \<Rightarrow> gateway_env \<Rightarrow> http_in \<Rightarrow> gateway \<times> 'r \<Rightarrow> (gateway \<times> 'r) \<times> gateway_reply option" where
  "gateway_handler invoke env r s =
    (if hi_path r \<in> set (map (\<lambda>task. ''/v1/'' @ task) gateway_tasks) then post_only r (handle_inference invoke env r s) s
     else if hi_path r = ''/healthz/live'' then (s, Some (json_ok (GwStatus ''alive'') []))
     else if hi_path r = ''/healthz/ready'' then (s, Some (json_ok (GwStatus ''ready'') []))
     else if hi_path r = ''/v1/stats'' then get_only r (s, Some (stats_handler (fst s) (ge_end env))) s
     else if hi_path r = ''/metrics'' then (s, Some (metrics_handler (fst s)))
     else (s, Some (http_error 404 ''404 page not found'')))"

end
