(* ===== verification/GatewayFlow.thy ===== *)
theory GatewayFlow
  imports Gateway
begin

section \<open>What the gateway guarantees\<close>

text \<open>
  Which requests reach the router and with what, what the counters count, and what a stream
  of words carries.
\<close>

subsection \<open>Words\<close>

lemma spaces_proper: "list_all (\<lambda>p. p \<noteq> [] \<and> CHR 0x20 \<notin> set (tl p)) spaces"
  by (simp add: spaces_def)

lemma space_width_0: "space_width s = 0 \<longleftrightarrow> (\<forall>p \<in> set spaces. \<not> has_prefix s p)"
proof (cases "find (\<lambda>p. has_prefix s p) spaces")
  case None
  then have "\<forall>p \<in> set spaces. \<not> has_prefix s p" by (simp add: find_None_iff)
  then show ?thesis using None by (simp add: space_width_def)
next
  case (Some p)
  then have "p \<in> set spaces" "has_prefix s p" by (metis find_Some_iff nth_mem)+
  then show ?thesis using Some spaces_proper by (auto simp: space_width_def list_all_iff)
qed

lemma space_width_blank [simp]: "space_width (CHR 0x20 # s) = 1"
  by (simp add: space_width_def spaces_def has_prefix_def)

lemma no_inner_blank: "p \<in> set spaces \<Longrightarrow> CHR 0x20 \<notin> set (tl p)"
  using spaces_proper by (simp add: list_all_iff)

text \<open>No white space starts within \<open>w\<close> when \<open>s\<close> follows it.\<close>

definition solid :: "string \<Rightarrow> string \<Rightarrow> bool" where
  "solid w s \<longleftrightarrow> (\<forall>i < length w. space_width (drop i w @ s) = 0)"

lemma solid_Nil [simp]: "solid [] s"
  by (simp add: solid_def)

lemma solid_snoc: "solid (w @ [c]) s \<longleftrightarrow> solid w (c # s) \<and> space_width (c # s) = 0"
  by (auto simp: solid_def less_Suc_eq)

lemma solid_blank:
  assumes "solid w s"
  shows "solid w (CHR 0x20 # t)"
  unfolding solid_def
proof (intro allI impI)
  fix i assume i: "i < length w"
  let ?v = "drop i w"
  have v: "?v \<noteq> []" "space_width (?v @ s) = 0" using i assms by (simp_all add: solid_def)
  have "\<not> has_prefix (?v @ CHR 0x20 # t) p" if p: "p \<in> set spaces" for p
  proof
    assume h: "has_prefix (?v @ CHR 0x20 # t) p"
    show False
    proof (cases "length p \<le> length ?v")
      case True
      then have "has_prefix (?v @ s) p" using h by (simp add: has_prefix_def)
      then show False using v(2) p by (simp add: space_width_0)
    next
      case False
      then have "p ! length ?v = CHR 0x20"
        using h by (metis has_prefix_def linorder_not_less nth_append_length nth_take)
      moreover have "p ! length ?v \<in> set (tl p)"
        using False v(1) by (cases p) (auto simp: nth_Cons split: nat.split)
      ultimately show False using no_inner_blank [OF p] by metis
    qed
  qed
  then show "space_width (?v @ CHR 0x20 # t) = 0" by (simp add: space_width_0)
qed

text \<open>The words of a text are solid and not empty.\<close>

lemma split_fields_solid:
  assumes "solid w s"
  shows "\<forall>v \<in> set (split_fields w s). v \<noteq> [] \<and> (\<exists>t. solid v t)"
  using assms
proof (induction w s rule: split_fields.induct)
  case (2 w c cs)
  show ?case
  proof (cases "space_width (c # cs) = 0")
    case True
    then show ?thesis using 2 by (simp add: solid_snoc)
  next
    case False
    then show ?thesis using 2 by auto
  qed
qed auto

lemma split_fields_word:
  assumes "solid (w @ v) (CHR 0x20 # t)" "w @ v \<noteq> []"
  shows "split_fields w (v @ CHR 0x20 # t) = (w @ v) # split_fields [] t"
  using assms
proof (induction v arbitrary: w)
  case (Cons c v)
  have "space_width (drop (length w) (w @ c # v) @ CHR 0x20 # t) = 0"
    using Cons.prems(1) unfolding solid_def by (metis length_append less_add_same_cancel1 list.size(3) neq0_conv length_0_conv list.distinct(1))
  then show ?case using Cons.IH [of "w @ [c]"] Cons.prems by simp
qed simp

text \<open>Printing the words of a text, each with a blank, and splitting again gives the words.\<close>

lemma string_fields_again:
  "string_fields (concat (map (\<lambda>w. w @ '' '') (string_fields s))) = string_fields s"
proof -
  have *: "split_fields [] (concat (map (\<lambda>w. w @ '' '') ws)) = ws"
    if "\<forall>v \<in> set ws. v \<noteq> [] \<and> (\<exists>t. solid v t)" for ws
    using that
  proof (induction ws)
    case (Cons w ws)
    then have "solid w (CHR 0x20 # concat (map (\<lambda>w. w @ '' '') ws))" using solid_blank by auto
    then show ?case using Cons split_fields_word [of "[]" w] by simp
  qed simp
  show ?thesis unfolding string_fields_def using * [OF split_fields_solid [OF solid_Nil]] by simp
qed

subsection \<open>Streams\<close>

definition word_chunk :: "inference_request \<Rightarrow> inference_response \<Rightarrow> f64 \<Rightarrow> bool \<Rightarrow> string \<Rightarrow> stream_chunk" where
  "word_chunk req resp latency final word = \<lparr>sc_request_id = ir_request_id req, sc_trace_id = rs_trace_id resp,
     sc_token = word @ '' '', sc_done = final, sc_tokens_out = (if final then rs_tokens_output resp else 0),
     sc_latency_ms = (if final then latency else f64_zero)\<rparr>"

fun chunks_from :: "inference_request \<Rightarrow> inference_response \<Rightarrow> f64 \<Rightarrow> nat \<Rightarrow> nat \<Rightarrow> string list \<Rightarrow> stream_chunk list" where
  "chunks_from req resp latency n i [] = []"
| "chunks_from req resp latency n i (word # words) =
     word_chunk req resp latency (i = n - 1) word # chunks_from req resp latency n (i + 1) words"

lemma chunks_from_props:
  "length (chunks_from req resp latency n i words) = length words"
  "map sc_token (chunks_from req resp latency n i words) = map (\<lambda>w. w @ '' '') words"
  "j < length words \<Longrightarrow> chunks_from req resp latency n i words ! j = word_chunk req resp latency (i + j = n - 1) (words ! j)"
proof (induction words arbitrary: i j)
  case (Cons word words)
  { case 1 show ?case using Cons.IH(1) by simp }
  { case 2 show ?case using Cons.IH(2) by (simp add: word_chunk_def) }
  { case 3 then show ?case using Cons.IH(3) [of "j - 1" "i + 1"] by (cases j) simp_all }
qed simp_all

lemma stream_loop_Cons:
  "stream_loop req resp latency gone n i (word # words) =
    (if gone \<noteq> None \<and> the gone \<le> i then ([], False)
     else (SseChunk (word_chunk req resp latency (i = n - 1) word) # fst (stream_loop req resp latency gone n (i + 1) words),
           snd (stream_loop req resp latency gone n (i + 1) words)))"
  by (simp add: word_chunk_def Let_def split_def split: option.split)

definition sent_words :: "nat option \<Rightarrow> nat \<Rightarrow> nat \<Rightarrow> nat" where
  "sent_words gone i len = (case gone of None \<Rightarrow> len | Some g \<Rightarrow> min len (g - i))"

lemma sent_step:
  "gone \<noteq> None \<and> the gone \<le> i \<Longrightarrow> sent_words gone i len = 0"
  "\<not> (gone \<noteq> None \<and> the gone \<le> i) \<Longrightarrow> sent_words gone i (Suc len) = Suc (sent_words gone (Suc i) len)"
  by (auto simp: sent_words_def split: option.splits)

lemma stream_loop_eq:
  "stream_loop req resp latency gone n i words =
    (map SseChunk (take (sent_words gone i (length words)) (chunks_from req resp latency n i words)),
     sent_words gone i (length words) = length words)"
proof (induction words arbitrary: i)
  case Nil
  show ?case by (simp add: sent_words_def split: option.split)
next
  case (Cons word words)
  show ?case
  proof (cases "gone \<noteq> None \<and> the gone \<le> i")
    case True
    then show ?thesis unfolding stream_loop_Cons using sent_step(1) [OF True] by simp
  next
    case False
    then show ?thesis unfolding stream_loop_Cons Cons.IH using sent_step(2) [OF False] by simp
  qed
qed

text \<open>The words a stream is cut into: never none.\<close>

definition stream_words :: "string \<Rightarrow> string list" where
  "stream_words s = (if string_fields s = [] then [[]] else string_fields s)"

lemma stream_words_again: "string_fields (concat (map (\<lambda>w. w @ '' '') (stream_words s))) = string_fields s"
proof (cases "string_fields s = []")
  case True
  then show ?thesis by (simp add: stream_words_def string_fields_def)
qed (simp add: stream_words_def string_fields_again)

lemma stream_words_ne: "stream_words s \<noteq> []"
  by (simp add: stream_words_def)

definition sse_latency :: "gateway_env \<Rightarrow> f64" where
  "sse_latency env = f64_of_int (to_millis (time_sub (ge_end env) (ge_start env)))"

definition sse_chunks :: "gateway_env \<Rightarrow> inference_request \<Rightarrow> inference_response \<Rightarrow> stream_chunk list" where
  "sse_chunks env req resp = chunks_from req resp (sse_latency env) (length (stream_words (rs_content resp))) 0 (stream_words (rs_content resp))"

definition sse_sent :: "gateway_env \<Rightarrow> inference_response \<Rightarrow> nat" where
  "sse_sent env resp = sent_words (ge_gone_at env) 0 (length (stream_words (rs_content resp)))"

lemma sse_chunks_props:
  "length (sse_chunks env req resp) = length (stream_words (rs_content resp))"
  "map sc_token (sse_chunks env req resp) = map (\<lambda>w. w @ '' '') (stream_words (rs_content resp))"
  "j < length (stream_words (rs_content resp)) \<Longrightarrow> sse_chunks env req resp ! j =
     word_chunk req resp (sse_latency env) (j = length (stream_words (rs_content resp)) - 1) (stream_words (rs_content resp) ! j)"
  "sse_chunks env req resp \<noteq> []"
  using chunks_from_props [where i = 0] stream_words_ne [of "rs_content resp"] by (simp_all add: sse_chunks_def) (metis length_0_conv)

lemma sse_sent_le: "sse_sent env resp \<le> length (sse_chunks env req resp)"
  by (simp add: sse_sent_def sent_words_def sse_chunks_props(1) split: option.split)

lemma handle_sse_eq:
  assumes "hi_flushes r" "router_client_route invoke (ge_stream_now env + 30 * second) req rt = (rt', Inr resp)"
  shows "handle_sse invoke env r req (g, rt) =
      ((if sse_sent env resp = length (sse_chunks env req resp)
        then count_gateway (\<lambda>m. m\<lparr>gm_streamed := gm_streamed m + 1\<rparr>) g else g, rt'),
       \<lparr>gr_code = 200, gr_headers = [(''Content-Type'', ''text/event-stream''), (''Cache-Control'', ''no-cache''),
          (''Connection'', ''keep-alive''), (''X-Request-ID'', ir_request_id req)],
        gr_body = GwEvents (map SseChunk (take (sse_sent env resp) (sse_chunks env req resp)))\<rparr>)"
proof -
  have w: "(if length (string_fields (rs_content resp)) = 0 then [[]] else string_fields (rs_content resp)) = stream_words (rs_content resp)"
    by (simp add: stream_words_def)
  show ?thesis
    unfolding handle_sse_def Let_def snd_conv fst_conv assms(2) prod.case sum.case w stream_loop_eq
    using assms(1) by (simp add: sse_chunks_def sse_sent_def sse_latency_def chunks_from_props(1))
qed

text \<open>C10. A stream carries the answer. For a transport that can flush and a client that stays, the events are
  chunks with the ids of the request; exactly the last one is marked as done and has the token count; and
  the tokens, put together, have the same words in the same order as the router's content. A client that
  leaves gets a prefix, and the stream counts as streamed exactly when the done chunk was sent.\<close>

theorem sse_carries_answer:
  assumes "hi_flushes r" "router_client_route invoke (ge_stream_now env + 30 * second) req rt = (rt', Inr resp)"
  shows "\<exists>chunks k. string_fields (concat (map sc_token chunks)) = string_fields (rs_content resp) \<and> chunks \<noteq> []
    \<and> (\<forall>i < length chunks. sc_request_id (chunks ! i) = ir_request_id req \<and> sc_trace_id (chunks ! i) = rs_trace_id resp
         \<and> (sc_done (chunks ! i) \<longleftrightarrow> i = length chunks - 1)
         \<and> (sc_done (chunks ! i) \<longrightarrow> sc_tokens_out (chunks ! i) = rs_tokens_output resp))
    \<and> (ge_gone_at env = None \<longrightarrow> k = length chunks)
    \<and> gr_body (snd (handle_sse invoke env r req (g, rt))) = GwEvents (map SseChunk (take k chunks))
    \<and> fst (handle_sse invoke env r req (g, rt)) =
        (if length chunks \<le> k then count_gateway (\<lambda>m. m\<lparr>gm_streamed := gm_streamed m + 1\<rparr>) g else g, rt')"
proof -
  define chunks where "chunks = sse_chunks env req resp"
  note h = handle_sse_eq [OF assms, of g, folded chunks_def]
  have c: "\<And>j. j < length chunks \<Longrightarrow> chunks ! j = word_chunk req resp (sse_latency env) (j = length chunks - 1) (stream_words (rs_content resp) ! j)"
    using sse_chunks_props(1,3) by (simp add: chunks_def)
  show ?thesis
  proof (intro exI [of _ chunks] exI [of _ "sse_sent env resp"] conjI allI impI)
    show "string_fields (concat (map sc_token chunks)) = string_fields (rs_content resp)"
      by (simp add: chunks_def sse_chunks_props(2) stream_words_again)
    show "fst (handle_sse invoke env r req (g, rt)) =
        (if length chunks \<le> sse_sent env resp then count_gateway (\<lambda>m. m\<lparr>gm_streamed := gm_streamed m + 1\<rparr>) g else g, rt')"
      unfolding h using sse_sent_le [of env resp req] by (auto simp: chunks_def)
    show "gr_body (snd (handle_sse invoke env r req (g, rt))) = GwEvents (map SseChunk (take (sse_sent env resp) chunks))"
      by (simp add: h)
  qed (use c in \<open>simp_all add: word_chunk_def chunks_def sse_chunks_props sse_sent_def sent_words_def\<close>)
qed

definition demo_gateway_env :: gateway_env where
  "demo_gateway_env = \<lparr>ge_start = 0, ge_db = Inr demo_auth, ge_auth_now = 0, ge_auth_stored = 0, ge_random = [1, 2],
     ge_admit_now = second, ge_stream_now = second, ge_gone_at = None, ge_end = 2 * second\<rparr>"

definition demo_http :: "bool \<Rightarrow> http_in" where
  "demo_http stream = \<lparr>hi_method = ''POST'', hi_path = ''/v1/chat'', hi_authorization = ''Bearer h'', hi_x_api_key = [],
     hi_idempotency_key = [], hi_body = Inr \<lparr>hb_prompt = ''hi'', hb_messages = [], hb_documents = [], hb_query = [],
       hb_max_tokens = 0, hb_stream = stream, hb_priority = 1, hb_cost_budget = [], hb_latency_target_ms = 0,
       hb_metadata = None\<rparr>, hi_flushes = True\<rparr>"

theorem sse_carries_answer_witness:
  "\<exists>chunks. gr_body (snd (handle_sse (\<lambda>method deadline req rt. (rt, Inr (zero_response\<lparr>rs_content := ''big world''\<rparr>)))
      demo_gateway_env (demo_http True) demo_chat (new_gateway 0, ()))) = GwEvents (map SseChunk chunks)
    \<and> string_fields (concat (map sc_token chunks)) = string_fields ''big world''"
proof -
  let ?invoke = "\<lambda>method deadline req rt. (rt :: unit, Inr (zero_response\<lparr>rs_content := ''big world''\<rparr>))"
  have "router_client_route ?invoke (ge_stream_now demo_gateway_env + 30 * second) demo_chat () =
      ((), Inr (zero_response\<lparr>rs_content := ''big world''\<rparr>))"
    by (simp add: router_client_route_def)
  from sse_carries_answer [OF _ this, of "demo_http True" "new_gateway 0"] obtain chunks k where
    "string_fields (concat (map sc_token chunks)) = string_fields (rs_content (zero_response\<lparr>rs_content := ''big world''\<rparr>))"
    "ge_gone_at demo_gateway_env = None \<longrightarrow> k = length chunks"
    "gr_body (snd (handle_sse ?invoke demo_gateway_env (demo_http True) demo_chat (new_gateway 0, ()))) = GwEvents (map SseChunk (take k chunks))"
    by (auto simp: demo_http_def)
  then show ?thesis by (intro exI [of _ chunks]) (simp add: demo_gateway_env_def)
qed

subsection \<open>The stages of a request\<close>

definition caller :: "gateway_env \<Rightarrow> http_in \<Rightarrow> gateway \<Rightarrow> principal result" where
  "caller env r g = snd (validate (gw_auth g) (ge_db env) (extract_key r) (ge_auth_now env) (ge_auth_stored env))"

definition bumped :: "(gateway_metrics \<Rightarrow> gateway_metrics) \<Rightarrow> gateway_env \<Rightarrow> http_in \<Rightarrow> gateway \<Rightarrow> gateway" where
  "bumped f env r g = g\<lparr>gw_auth := fst (validate (gw_auth g) (ge_db env) (extract_key r) (ge_auth_now env) (ge_auth_stored env)),
     gw_metrics := f ((gw_metrics g)\<lparr>gm_total := gm_total (gw_metrics g) + 1\<rparr>)\<rparr>"

lemma bumped_keeps [simp]:
  "gw_metrics (bumped f env r g) = f ((gw_metrics g)\<lparr>gm_total := gm_total (gw_metrics g) + 1\<rparr>)"
  "gw_admitter (bumped f env r g) = gw_admitter g"
  by (simp_all add: bumped_def)

lemma admit_parsed_Inr:
  "admit_parsed a now hr req = Some (Inr req') \<longleftrightarrow> None \<notin> set (hb_messages hr) \<and> admit a now req = Inr req'"
  by (auto simp: admit_parsed_def admit_def)

lemma handle_stages:
  obtains (unauthorized) e where "caller env r g = Inl e"
      "handle_inference invoke env r (g, rt) = ((bumped (\<lambda>m. m\<lparr>gm_auth_failed := gm_auth_failed m + 1\<rparr>) env r g, rt),
         Some (json_error 401 ''invalid or missing API key''))"
  | (rejected) p msg where "caller env r g = Inr p"
      "handle_inference invoke env r (g, rt) = ((bumped (\<lambda>m. m\<lparr>gm_admit_failed := gm_admit_failed m + 1\<rparr>) env r g, rt),
         Some (json_error 400 msg))"
  | (panicked) p hr where "caller env r g = Inr p" "hi_body r = Inr hr" "None \<in> set (hb_messages hr)"
      "handle_inference invoke env r (g, rt) = ((bumped id env r g, rt), None)"
  | (streamed) p hr req where "caller env r g = Inr p" "hi_body r = Inr hr"
      "admit (gw_admitter g) (ge_admit_now env) (grpc_request env r hr p) = Inr req" "ir_stream req"
      "handle_inference invoke env r (g, rt) =
        (case handle_sse invoke env r req (bumped (\<lambda>m. m\<lparr>gm_admitted := gm_admitted m + 1\<rparr>) env r g, rt) of (s', reply) \<Rightarrow> (s', Some reply))"
  | (failed) p hr req rt' e where "caller env r g = Inr p" "hi_body r = Inr hr"
      "admit (gw_admitter g) (ge_admit_now env) (grpc_request env r hr p) = Inr req" "\<not> ir_stream req"
      "router_client_route invoke (unix_milli_time (ir_deadline_unix_ms req)) req rt = (rt', Inl e)"
      "handle_inference invoke env r (g, rt) =
        ((bumped (\<lambda>m. m\<lparr>gm_admitted := gm_admitted m + 1, gm_errors := gm_errors m + 1\<rparr>) env r g, rt'), Some (routing_error e))"
  | (served) p hr req rt' resp headers where "caller env r g = Inr p" "hi_body r = Inr hr"
      "admit (gw_admitter g) (ge_admit_now env) (grpc_request env r hr p) = Inr req" "\<not> ir_stream req"
      "router_client_route invoke (unix_milli_time (ir_deadline_unix_ms req)) req rt = (rt', Inr resp)"
      "handle_inference invoke env r (g, rt) =
        ((bumped (\<lambda>m. m\<lparr>gm_admitted := gm_admitted m + 1, gm_routed := gm_routed m + 1\<rparr>) env r g, rt'),
         Some (json_ok (GwResponse resp) headers))"
proof -
  obtain au v where v: "validate (gw_auth g) (ge_db env) (extract_key r) (ge_auth_now env) (ge_auth_stored env) = (au, v)"
    by (meson surj_pair)
  have c: "caller env r g = v" and b: "\<And>f. bumped f env r g = g\<lparr>gw_auth := au, gw_metrics := f ((gw_metrics g)\<lparr>gm_total := gm_total (gw_metrics g) + 1\<rparr>)\<rparr>"
    by (simp_all add: caller_def bumped_def v)
  note h = handle_inference_def [of invoke env r "(g, rt)"]
  show ?thesis
  proof (cases v)
    case (Inl e)
    then show ?thesis using unauthorized c b v by (simp add: h count_gateway_def)
  next
    case p: (Inr p)
    show ?thesis
    proof (cases "hi_body r")
      case (Inl e)
      then show ?thesis using rejected [of p] c b v p by (simp add: h count_gateway_def Let_def)
    next
      case hr: (Inr hr)
      show ?thesis
      proof (cases "admit_parsed (gw_admitter g) (ge_admit_now env) hr (grpc_request env r hr p)")
        case None
        then have "None \<in> set (hb_messages hr)" by (simp add: admit_parsed_def split: if_splits)
        with None show ?thesis using panicked [of p hr] c b v p hr by (simp add: h count_gateway_def Let_def)
      next
        case a: (Some x)
        show ?thesis
        proof (cases x)
          case (Inl e)
          then show ?thesis using rejected [of p] c b v p hr a by (simp add: h count_gateway_def Let_def)
        next
          case req: (Inr req)
          then have adm: "admit (gw_admitter g) (ge_admit_now env) (grpc_request env r hr p) = Inr req"
            using a by (simp add: admit_parsed_Inr)
          show ?thesis
          proof (cases "ir_stream req")
            case True
            then show ?thesis using streamed [of p hr req] c b v p hr a req adm by (simp add: h count_gateway_def Let_def)
          next
            case False
            obtain rt' x where x: "router_client_route invoke (unix_milli_time (ir_deadline_unix_ms req)) req rt = (rt', x)"
              by (meson surj_pair)
            show ?thesis
            proof (cases x)
              case (Inl e)
              then show ?thesis using failed [of p hr req rt' e] False c b v p hr a req adm x by (simp add: h count_gateway_def Let_def)
            next
              case (Inr resp)
              then show ?thesis using served [of p hr req rt' resp] False c b v p hr a req adm x by (simp add: h count_gateway_def Let_def)
            qed
          qed
        qed
      qed
    qed
  qed
qed

subsection \<open>Properties\<close>

lemma grpc_request_fields:
  "ir_tenant_id (grpc_request env r hr p) = pr_tenant_id p" "ir_api_key_id (grpc_request env r hr p) = pr_key_id p"
  "ir_request_id (grpc_request env r hr p) = gateway_new_id (ge_random env)"
  "ir_task_type (grpc_request env r hr p) = task_from_path (hi_path r)" "ir_prompt (grpc_request env r hr p) = hb_prompt hr"
  by (simp_all add: grpc_request_def)

lemma admitted_fields:
  assumes "admit a now req0 = Inr req" "sane_admission (ad_cfg a) now"
  shows "ir_tenant_id req = ir_tenant_id req0" "ir_api_key_id req = ir_api_key_id req0" "ir_request_id req = ir_request_id req0"
    "ir_task_type req = ir_task_type req0" "ir_prompt req = ir_prompt req0" "task_complete req" "within_limits (ad_cfg a) req"
  using arg_cong [OF admitted_parts(5) [OF assms], of ir_tenant_id] arg_cong [OF admitted_parts(5) [OF assms], of ir_api_key_id]
    arg_cong [OF admitted_parts(5) [OF assms], of ir_request_id] arg_cong [OF admitted_parts(5) [OF assms], of ir_task_type]
    arg_cong [OF admitted_parts(5) [OF assms], of ir_prompt] admitted_parts(6) [OF assms]
  by (simp_all add: admit_cases)

definition forwarded :: "gateway_env \<Rightarrow> http_in \<Rightarrow> gateway \<Rightarrow> time \<Rightarrow> inference_request \<Rightarrow> bool" where
  "forwarded env r g deadline req \<longleftrightarrow>
    (\<exists>p hr. caller env r g = Inr p \<and> hi_body r = Inr hr \<and> ir_tenant_id req = pr_tenant_id p \<and> ir_api_key_id req = pr_key_id p
       \<and> ir_prompt req = hb_prompt hr)
    \<and> ir_task_type req = task_from_path (hi_path r) \<and> task_complete req \<and> within_limits (ad_cfg (gw_admitter g)) req
    \<and> 0 < sint (ir_max_tokens req)
    \<and> deadline \<le> (if ir_stream req then ge_stream_now env + 30 * second else ge_admit_now env + ac_deadline_max (ad_cfg (gw_admitter g)))"

lemma forwarded_request:
  assumes "caller env r g = Inr p" "hi_body r = Inr hr" "admit (gw_admitter g) (ge_admit_now env) (grpc_request env r hr p) = Inr req"
    and "sane_admission (ad_cfg (gw_admitter g)) (ge_admit_now env)"
    and "deadline = (if ir_stream req then ge_stream_now env + 30 * second else unix_milli_time (ir_deadline_unix_ms req))"
  shows "forwarded env r g deadline req"
proof -
  note f = admitted_fields [OF assms(3,4)] and d = admitted_parts [OF assms(3,4)]
  have "\<exists>p hr. caller env r g = Inr p \<and> hi_body r = Inr hr \<and> ir_tenant_id req = pr_tenant_id p \<and> ir_api_key_id req = pr_key_id p
       \<and> ir_prompt req = hb_prompt hr"
    using assms(1,2) f by (simp add: grpc_request_fields)
  then show ?thesis using f d assms(5) by (simp add: forwarded_def grpc_request_fields)
qed

text \<open>C8. The gateway lets nothing unchecked through. A request changes the router's state only through one
  \<open>Route\<close> call, on a request that carries the tenant and the key of the caller that the key resolved
  to, the task of the path, what that task needs, within the limits, with a token limit that is set, and
  with a deadline of at most the maximal one (thirty seconds for a stream). Without a caller the answer is
  401, and any answer without a \<open>Route\<close> call is an error, or the handler panicked over a null message.\<close>

theorem gateway_forwards_checked:
  fixes invoke :: "'r invoke"
  assumes "sane_admission (ad_cfg (gw_admitter g)) (ge_admit_now env)"
    and "handle_inference invoke env r (g, rt) = ((g', rt'), reply)"
  shows "((\<exists>e. caller env r g = Inl e) \<longrightarrow> rt' = rt \<and> map_option gr_code reply = Some 401)
    \<and> ((\<exists>deadline req. forwarded env r g deadline req
          \<and> rt' = fst (invoke ''/routing.v1.RouterService/Route'' deadline req rt))
       \<or> rt' = rt \<and> (case reply of None \<Rightarrow> (\<exists>hr. hi_body r = Inr hr \<and> None \<in> set (hb_messages hr))
            | Some rep \<Rightarrow> gr_code rep \<in> {400, 401, 500}))"
  using handle_stages [of env r g invoke rt]
proof cases
  case (unauthorized e)
  then show ?thesis using assms(2) by (simp add: json_error_def)
next
  case (rejected p msg)
  then show ?thesis using assms(2) by (simp add: json_error_def)
next
  case (panicked p hr)
  then show ?thesis using assms(2) by simp
next
  case (streamed p hr req)
  show ?thesis
  proof (cases "hi_flushes r")
    case True
    have "forwarded env r g (ge_stream_now env + 30 * second) req"
      using forwarded_request [OF streamed(1-3) assms(1)] streamed(4) by simp
    moreover have "rt' = fst (invoke ''/routing.v1.RouterService/Route'' (ge_stream_now env + 30 * second) req rt)"
      using True assms(2) unfolding streamed(5) handle_sse_def
      by (auto simp: router_client_route_def Let_def split: prod.splits sum.splits)
    ultimately show ?thesis using streamed(1) by auto
  next
    case False
    then show ?thesis using assms(2) streamed(1) unfolding streamed(5) handle_sse_def by (auto simp: json_error_def)
  qed
next
  case (failed p hr req rt'' e)
  then show ?thesis using assms(2) forwarded_request [OF failed(1-3) assms(1)] by (auto simp: router_client_route_def intro!: exI)
next
  case (served p hr req rt'' resp headers)
  then show ?thesis using assms(2) forwarded_request [OF served(1-3) assms(1)] by (auto simp: router_client_route_def intro!: exI)
qed

text \<open>A history of requests, and what a reply counts as.\<close>

fun gateway_run :: "'r invoke \<Rightarrow> (gateway_env \<times> http_in) list \<Rightarrow> gateway \<times> 'r \<Rightarrow> (gateway \<times> 'r) \<times> gateway_reply option list" where
  "gateway_run invoke [] s = (s, [])"
| "gateway_run invoke ((env, r) # rs) s =
     (case handle_inference invoke env r s of (s, reply) \<Rightarrow>
        (case gateway_run invoke rs s of (s, replies) \<Rightarrow> (s, reply # replies)))"

definition answer_count :: "(gateway_reply \<Rightarrow> bool) \<Rightarrow> gateway_reply option list \<Rightarrow> int64" where
  "answer_count P replies = of_nat (length (filter (\<lambda>x. case x of None \<Rightarrow> False | Some rep \<Rightarrow> P rep) replies))"

definition is_answer :: "gateway_reply \<Rightarrow> bool" where
  "is_answer rep = (case gr_body rep of GwResponse _ \<Rightarrow> True | _ \<Rightarrow> False)"

definition is_finished_stream :: "gateway_reply \<Rightarrow> bool" where
  "is_finished_stream rep = (case gr_body rep of GwEvents evs \<Rightarrow> evs \<noteq> [] \<and> (case last evs of SseChunk c \<Rightarrow> sc_done c | _ \<Rightarrow> False) | _ \<Rightarrow> False)"

definition is_routing_error :: "gateway_reply \<Rightarrow> bool" where
  "is_routing_error rep \<longleftrightarrow> gr_code rep \<in> {429, 503} \<or> rep = json_error 500 ''inference failed''"

lemma answer_count_Cons:
  "answer_count P (x # xs) = (case x of None \<Rightarrow> 0 | Some rep \<Rightarrow> if P rep then 1 else 0) + answer_count P xs"
  by (simp add: answer_count_def split: option.split)

definition counts_reply :: "gateway_metrics \<Rightarrow> gateway_reply option list \<Rightarrow> gateway_metrics \<Rightarrow> bool" where
  "counts_reply m xs m' \<longleftrightarrow>
    gm_total m' = gm_total m + of_nat (length xs)
    \<and> gm_auth_failed m' = gm_auth_failed m + answer_count (\<lambda>rep. gr_code rep = 401) xs
    \<and> gm_admit_failed m' = gm_admit_failed m + answer_count (\<lambda>rep. gr_code rep = 400) xs
    \<and> gm_admitted m' = gm_admitted m + answer_count (\<lambda>rep. gr_code rep \<notin> {400, 401}) xs
    \<and> gm_routed m' = gm_routed m + answer_count is_answer xs
    \<and> gm_streamed m' = gm_streamed m + answer_count is_finished_stream xs
    \<and> gm_errors m' = gm_errors m + answer_count is_routing_error xs
    \<and> gm_rate_limited m' = gm_rate_limited m"

lemma counts_reply_trans:
  "counts_reply m [x] m' \<Longrightarrow> counts_reply m' xs m'' \<Longrightarrow> counts_reply m (x # xs) m''"
  by (simp add: counts_reply_def answer_count_Cons answer_count_def)

lemma take_last_done:
  assumes "k \<le> length (sse_chunks env req resp)"
  shows "is_finished_stream \<lparr>gr_code = c, gr_headers = hs, gr_body = GwEvents (map SseChunk (take k (sse_chunks env req resp)))\<rparr>
    \<longleftrightarrow> k = length (sse_chunks env req resp)"
proof (cases "k = 0")
  case True
  then show ?thesis using sse_chunks_props(4) [of env req resp] by (auto simp: is_finished_stream_def)
next
  case False
  then have ne: "take k (sse_chunks env req resp) \<noteq> []" "k - 1 < length (sse_chunks env req resp)"
    using assms sse_chunks_props(4) by auto
  then have "last (map SseChunk (take k (sse_chunks env req resp))) = SseChunk (sse_chunks env req resp ! (k - 1))"
    using assms by (simp add: last_map last_conv_nth min_def)
  moreover have "sc_done (sse_chunks env req resp ! (k - 1)) \<longleftrightarrow> k - 1 = length (sse_chunks env req resp) - 1"
    using ne(2) by (simp add: sse_chunks_props(1,3) word_chunk_def)
  ultimately show ?thesis using ne False assms by (auto simp: is_finished_stream_def)
qed

lemma handle_sse_counts:
  assumes "handle_sse invoke env r req (g, rt) = ((g', rt'), rep)"
  shows "gw_metrics g' = (if is_finished_stream rep then (gw_metrics g)\<lparr>gm_streamed := gm_streamed (gw_metrics g) + 1\<rparr> else gw_metrics g)"
    and "\<not> is_answer rep" "\<not> is_routing_error rep" "gr_code rep \<noteq> 400" "gr_code rep \<noteq> 401"
proof -
  have "gw_metrics g' = (if is_finished_stream rep then (gw_metrics g)\<lparr>gm_streamed := gm_streamed (gw_metrics g) + 1\<rparr> else gw_metrics g)
      \<and> \<not> is_answer rep \<and> \<not> is_routing_error rep \<and> gr_code rep \<noteq> 400 \<and> gr_code rep \<noteq> 401"
  proof (cases "hi_flushes r")
    case False
    then show ?thesis using assms
      by (auto simp: handle_sse_def json_error_def is_finished_stream_def is_answer_def is_routing_error_def)
  next
    case True
    obtain rt2 x where x: "router_client_route invoke (ge_stream_now env + 30 * second) req rt = (rt2, x)" by (meson surj_pair)
    show ?thesis
    proof (cases x)
      case (Inl e)
      then show ?thesis using assms True x
        by (auto simp: handle_sse_def json_error_def is_finished_stream_def is_answer_def is_routing_error_def Let_def)
    next
      case (Inr resp)
      note eq = handle_sse_eq [OF True x [unfolded Inr], of g]
      have "rep = \<lparr>gr_code = 200, gr_headers = [(''Content-Type'', ''text/event-stream''), (''Cache-Control'', ''no-cache''),
          (''Connection'', ''keep-alive''), (''X-Request-ID'', ir_request_id req)],
        gr_body = GwEvents (map SseChunk (take (sse_sent env resp) (sse_chunks env req resp)))\<rparr>" using assms unfolding eq by simp
      moreover have "g' = (if sse_sent env resp = length (sse_chunks env req resp)
        then count_gateway (\<lambda>m. m\<lparr>gm_streamed := gm_streamed m + 1\<rparr>) g else g)" using assms unfolding eq by simp
      ultimately show ?thesis
        using take_last_done [OF sse_sent_le]
        by (auto simp: count_gateway_def json_error_def is_answer_def is_routing_error_def)
    qed
  qed
  then show "gw_metrics g' = (if is_finished_stream rep then (gw_metrics g)\<lparr>gm_streamed := gm_streamed (gw_metrics g) + 1\<rparr> else gw_metrics g)"
    "\<not> is_answer rep" "\<not> is_routing_error rep" "gr_code rep \<noteq> 400" "gr_code rep \<noteq> 401" by blast+
qed

lemma reply_kinds [simp]:
  "gr_code (json_error c msg) = c" "\<not> is_answer (json_error c msg)" "\<not> is_finished_stream (json_error c msg)"
  "is_routing_error (json_error c msg) \<longleftrightarrow> c \<in> {429, 503} \<or> c = 500 \<and> msg = ''inference failed''"
  "gr_code (json_ok v hs) = 200" "is_answer (json_ok (GwResponse resp) hs)" "\<not> is_finished_stream (json_ok (GwResponse resp) hs)"
  "\<not> is_routing_error (json_ok v hs)"
  by (simp_all only: json_error_def json_ok_def is_answer_def is_finished_stream_def is_routing_error_def gateway_reply.simps
      gateway_body.simps) simp_all

lemma routing_error_kind:
  "is_routing_error (routing_error e)" "\<not> is_answer (routing_error e)" "\<not> is_finished_stream (routing_error e)"
  "gr_code (routing_error e) \<noteq> 400" "gr_code (routing_error e) \<noteq> 401"
  unfolding routing_error_def by (simp_all del: list.inject)

lemma handle_counts:
  assumes "handle_inference invoke env r (g, rt) = ((g', rt'), reply)"
  shows "counts_reply (gw_metrics g) [reply] (gw_metrics g')"
  using handle_stages [of env r g invoke rt]
proof cases
  case (unauthorized e)
  then show ?thesis using assms by (auto simp: counts_reply_def answer_count_def)
next
  case (rejected p msg)
  then show ?thesis using assms by (auto simp: counts_reply_def answer_count_def)
next
  case (panicked p hr)
  then show ?thesis using assms by (auto simp: counts_reply_def answer_count_def)
next
  case (streamed p hr req)
  let ?g = "bumped (\<lambda>m. m\<lparr>gm_admitted := gm_admitted m + 1\<rparr>) env r g"
  obtain g2 rt2 rep where sse: "handle_sse invoke env r req (?g, rt) = ((g2, rt2), rep)"
    by (cases "handle_sse invoke env r req (?g, rt)") auto
  then have "g' = g2" "reply = Some rep" using assms streamed(5) by simp_all
  then show ?thesis using handle_sse_counts [OF sse] by (simp add: counts_reply_def answer_count_def)
next
  case (failed p hr req rt2 e)
  then have "g' = bumped (\<lambda>m. m\<lparr>gm_admitted := gm_admitted m + 1, gm_errors := gm_errors m + 1\<rparr>) env r g"
    "reply = Some (routing_error e)" using assms by simp_all
  then show ?thesis by (simp add: counts_reply_def answer_count_def routing_error_kind)
next
  case (served p hr req rt2 resp headers)
  then show ?thesis using assms by (auto simp: counts_reply_def answer_count_def)
qed

text \<open>C9. The gateway's counters are right: after any history of requests, \<open>Total\<close> counts the requests, and
  every other counter exactly the replies of its kind: 401 for \<open>AuthFailed\<close>, 400 for \<open>AdmitFailed\<close>,
  any other reply for \<open>Admitted\<close>, an answer for \<open>Routed\<close>, a stream whose done chunk was sent for
  \<open>Streamed\<close>, and an error of the router for \<open>Errors\<close>. Streams that fail or are abandoned count
  nowhere, and \<open>RateLimited\<close> stays zero although the router does refuse requests.\<close>

theorem gateway_counters_exact:
  "counts_reply (gw_metrics (fst s)) (snd (gateway_run invoke rs s)) (gw_metrics (fst (fst (gateway_run invoke rs s))))"
proof (induction rs arbitrary: s)
  case Nil
  show ?case by (simp add: counts_reply_def answer_count_def)
next
  case (Cons e rs)
  obtain env r g rt where e: "e = (env, r)" and s: "s = (g, rt)" by (metis surj_pair)
  obtain g' rt' reply where h: "handle_inference invoke env r (g, rt) = ((g', rt'), reply)" by (metis surj_pair)
  obtain s2 replies where run: "gateway_run invoke rs (g', rt') = (s2, replies)" by (metis surj_pair)
  have eq: "gateway_run invoke (e # rs) (g, rt) = (s2, reply # replies)" by (simp add: e h run)
  have "counts_reply (gw_metrics g') replies (gw_metrics (fst s2))" using Cons.IH [of "(g', rt')"] by (simp add: run)
  then show ?case unfolding s eq fst_conv snd_conv by (rule counts_reply_trans [OF handle_counts [OF h]])
qed

definition demo_principal :: principal where
  "demo_principal = \<lparr>pr_key_id = ''k1'', pr_tenant_id = ''t1'', pr_routing_mode = ''balanced'', pr_rate_limit_rps = 10, pr_burst_limit = 20\<rparr>"

lemma demo_caller: "caller demo_gateway_env (demo_http stream) (new_gateway 0) =
    Inr demo_principal"
  by (simp add: caller_def extract_key_def demo_http_def has_prefix_def validate_def new_gateway_def cached_def new_auth_store_def
      demo_gateway_env_def query_principal_def select_principals_def demo_auth_def demo_principal_def Let_def)

definition demo_admitted :: inference_request where
  "demo_admitted = zero_request\<lparr>ir_request_id := ''0102'', ir_task_type := TaskChat, ir_prompt := ''hi'', ir_max_tokens := 1024,
     ir_priority := 1, ir_tenant_id := ''t1'', ir_api_key_id := ''k1'', ir_deadline_unix_ms := 31000,
     ir_metadata := Some Map.empty\<rparr>"

lemma demo_admission:
  assumes "hi_body (demo_http False) = Inr hr"
  shows "None \<notin> set (hb_messages hr)"
    and "admit (gw_admitter (new_gateway 0)) (ge_admit_now demo_gateway_env) (grpc_request demo_gateway_env (demo_http False) hr demo_principal)
     = Inr demo_admitted"
proof -
  let ?q = "zero_request\<lparr>ir_request_id := ''0102'', ir_task_type := TaskChat, ir_prompt := ''hi'', ir_priority := 1,
      ir_tenant_id := ''t1'', ir_api_key_id := ''k1''\<rparr>"
  have hr: "hr = \<lparr>hb_prompt = ''hi'', hb_messages = [], hb_documents = [], hb_query = [],
       hb_max_tokens = 0, hb_stream = False, hb_priority = 1, hb_cost_budget = [], hb_latency_target_ms = 0, hb_metadata = None\<rparr>"
    using assms by (simp add: demo_http_def)
  then show "None \<notin> set (hb_messages hr)" by simp
  have "gateway_new_id (ge_random demo_gateway_env) = ''0102''"
    by (simp add: gateway_new_id_def demo_gateway_env_def byte_hex_def hex_digit_def)
  moreover have "task_from_path ''/v1/chat'' = TaskChat" by (simp add: task_from_path_def has_suffix_def)
  ultimately have q: "grpc_request demo_gateway_env (demo_http False) hr demo_principal = ?q"
    by (simp add: grpc_request_def hr demo_http_def demo_principal_def zero_request_def demo_gateway_env_def time_unix_milli_def)
  have "normalise (gw_admitter (new_gateway 0)) second ?q = demo_admitted"
    by (simp add: normalise_def Let_def zero_request_def new_gateway_def new_admission_def default_admission_def
        unix_milli_time_def time_unix_milli_def demo_admitted_def)
  moreover have "task_complete ?q" "within_limits (ad_cfg (gw_admitter (new_gateway 0))) ?q"
    by (simp_all add: task_complete_def within_limits_def total_bytes_def zero_request_def new_gateway_def new_admission_def default_admission_def)
  moreover have "ge_admit_now demo_gateway_env = second" by (simp add: demo_gateway_env_def)
  ultimately show "admit (gw_admitter (new_gateway 0)) (ge_admit_now demo_gateway_env) (grpc_request demo_gateway_env (demo_http False) hr demo_principal)
     = Inr demo_admitted" unfolding q admit_cases by simp
qed

lemma handle_served:
  assumes "caller env r g = Inr p" "hi_body r = Inr hr" "None \<notin> set (hb_messages hr)"
    and "admit (gw_admitter g) (ge_admit_now env) (grpc_request env r hr p) = Inr req" "\<not> ir_stream req"
    and "router_client_route invoke (unix_milli_time (ir_deadline_unix_ms req)) req rt = (rt', Inr resp)"
  shows "\<exists>g' headers. handle_inference invoke env r (g, rt) = ((g', rt'), Some (json_ok (GwResponse resp) headers))"
proof -
  obtain au where v: "validate (gw_auth g) (ge_db env) (extract_key r) (ge_auth_now env) (ge_auth_stored env) = (au, Inr p)"
    using assms(1) by (metis caller_def prod.collapse)
  have "admit_parsed (gw_admitter g) (ge_admit_now env) hr (grpc_request env r hr p) = Some (Inr req)"
    using assms(3,4) by (simp add: admit_parsed_Inr)
  then show ?thesis using assms(2,5,6) by (simp add: handle_inference_def count_gateway_def v Let_def) blast
qed

theorem gateway_forwards_checked_witness:
  "\<exists>g' reply. handle_inference (\<lambda>m d req n. (n + 1 :: nat, Inr zero_response)) demo_gateway_env (demo_http False) (new_gateway 0, 7)
      = ((g', 8), reply)
    \<and> (\<exists>deadline req. forwarded demo_gateway_env (demo_http False) (new_gateway 0) deadline req)"
proof -
  let ?invoke = "\<lambda>m d req n. (n + 1 :: nat, Inr zero_response)"
  obtain hr where hr: "hi_body (demo_http False) = Inr hr" by (simp add: demo_http_def)
  have st: "\<not> ir_stream demo_admitted" by (simp add: demo_admitted_def zero_request_def)
  have c: "router_client_route ?invoke d demo_admitted 7 = (8, Inr zero_response)" for d
    by (simp add: router_client_route_def)
  obtain g' headers where h: "handle_inference ?invoke demo_gateway_env (demo_http False) (new_gateway 0, 7) =
      ((g', 8), Some (json_ok (GwResponse zero_response) headers))"
    using handle_served [OF demo_caller hr demo_admission [OF hr] st c] by blast
  have "sane_admission (ad_cfg (gw_admitter (new_gateway 0))) (ge_admit_now demo_gateway_env)"
    by (simp add: new_gateway_def new_admission_def default_admission_def sane_admission_def demo_gateway_env_def)
  from gateway_forwards_checked [OF this h]
  show ?thesis using h by auto
qed

text \<open>On a fresh database both built-in keys belong to the default tenant, with the balanced mode.\<close>

lemma started_keys:
  assumes "start_gateway os (\<lambda>_. Inr \<lparr>at_api_keys = [], at_tenants = []\<rparr>) (\<lambda>_. None) now = Inr (addr, db, g)"
    and "k \<in> {''test-key-1234'', ''platform-key-5678''}"
  shows "\<exists>p. snd (validate (gw_auth g) (Inr db) k t t') = Inr p \<and> pr_tenant_id p = ''tenant-default'' \<and> pr_routing_mode p = ''balanced''"
proof -
  have g: "g = new_gateway now" "db = gateway_open_db \<lparr>at_api_keys = [], at_tenants = []\<rparr>"
    using assms(1) by (simp_all add: start_gateway_def Let_def)
  have "cached (gw_auth g) k t = None" by (simp add: g new_gateway_def new_auth_store_def cached_def)
  moreover have "\<exists>p. query_principal (Inr db) k = Inr p \<and> pr_tenant_id p = ''tenant-default'' \<and> pr_routing_mode p = ''balanced''"
    using assms(2) by (auto simp: g gateway_open_db_def insert_key_def open_key_def open_tenant_def query_principal_def select_principals_def)
  ultimately show ?thesis by (auto simp: validate_def Let_def)
qed

end
