(* ===== verification/Platform.thy ===== *)
theory Platform
  imports GatewayFlow RouterAdmin Codec
begin

section \<open>The gateway and the router together\<close>

text \<open>
  What a client of the gateway gets from the router behind it. The method that the router's
  gRPC server runs is composed as in \<open>main\<close>; the connection in between is gRPC's, and what
  its documentation promises of a call is the relation \<open>rpc\<close>. A history takes one event
  after the other.
\<close>

subsection \<open>The method\<close>

text \<open>\<open>Route\<close> on the router inside the server, behind the interceptors of \<open>main\<close>.\<close>

definition serve_route :: "'c route_env \<Rightarrow> (inference_request, 'c router_server, inference_response) unary_handler" where
  "serve_route env ctx req s = (case route (gs_inner s) env req of (r, out) \<Rightarrow> (s\<lparr>gs_inner := r\<rparr>, out))"

definition router_rpc ::
  "8 word list \<Rightarrow> 8 word list \<Rightarrow> time \<Rightarrow> time \<Rightarrow> 'c route_env \<Rightarrow> call_ctx \<Rightarrow> inference_request result \<Rightarrow>
   'c router_server grpc_server \<Rightarrow> 'c router_server grpc_server \<times> inference_response outcome" where
  "router_rpc rnd1 rnd2 e1 e2 env ctx dec s =
    router_route_handler (serve_route env) dec (Some (chain (router_interceptors rnd1 rnd2 e1 e2))) ctx s"

definition route_path :: string where
  "route_path = ''/'' @ router_service_name @ ''/Route''"

text \<open>The gateway calls the method under the name that the router registers.\<close>

lemma route_path_eq: "route_path = ''/routing.v1.RouterService/Route''"
  by (simp add: route_path_def router_service_name_def)

text \<open>A call is refused because its context is done, or runs \<open>Route\<close>, which does not panic; either way
  it is logged and counted once.\<close>

definition logged :: "'s grpc_server \<Rightarrow> code \<Rightarrow> 's grpc_server \<Rightarrow> bool" where
  "logged s c s' \<longleftrightarrow> (\<exists>line ms. gs_log s' = gs_log s @ [line] \<and> ll_method line = route_path \<and> ll_code line = c
     \<and> gs_metrics s' = record_call (gs_metrics s) ms (c \<noteq> OK))"

definition route_codes :: "code set" where
  "route_codes = {ResourceExhausted, Unavailable, Internal}"

lemma route_outcome:
  assumes "tracker_of ev (xs_health s)"
  obtains (served) s' resp ev' log entry where "route s env req = (s', Done (Inr resp))" "tracker_of ev' (xs_health s')"
      "xm_routed (xs_metrics s') = xm_routed (xs_metrics s) + 1"
      "xs_store s' = log_request (xs_store s) (xe_log_works env) (xe_created_at env) entry"
      "le_request_id entry = ir_request_id req" "le_tenant_id entry = route_tenant req" "le_cost_usd entry = rs_cost_usd resp"
  | (failed) s' c msg ev' where "route s env req = (s', Done (Inl (Status c msg)))" "c \<in> route_codes"
      "tracker_of ev' (xs_health s')" "xm_routed (xs_metrics s') = xm_routed (xs_metrics s)" "xs_store s' = xs_store s"
proof -
  obtain s' out where r: "route s env req = (s', out)" by (meson surj_pair)
  note books = route_books [OF assms, of env req, unfolded r prod.case]
  show ?thesis
  proof (cases out)
    case (Panicked p)
    then show ?thesis using books by simp
  next
    case (Done x)
    show ?thesis
    proof (cases x)
      case (Inr resp)
      then show ?thesis using books served r Done by auto
    next
      case (Inl e)
      then have "\<exists>ev'. tracker_of ev' (xs_health s')" using books Done assms by (auto split: if_splits)
      then show ?thesis using Inl books failed r Done by (auto simp: route_codes_def)
    qed
  qed
qed

lemma rpc_cases:
  assumes "tracker_of ev (xs_health (gs_inner s))"
  obtains (late) s' msg where "router_rpc rnd1 rnd2 e1 e2 env ctx (Inr req) s = (s', Done (Inl (Status DeadlineExceeded msg)))"
      "gs_inner s' = gs_inner s" "logged s DeadlineExceeded s'"
  | (routed) s' r x where "router_rpc rnd1 rnd2 e1 e2 env ctx (Inr req) s = (s', Done x)"
      "route (gs_inner s) env req = (r, Done x)" "gs_inner s' = r" "logged s (code_of x) s'"
proof -
  define rid where "rid = (if md_value ctx ''x-request-id'' = [] then random_id rnd1 else md_value ctx ''x-request-id'')"
  define tid where "tid = (if md_value ctx ''x-trace-id'' = [] then random_id rnd2 else md_value ctx ''x-trace-id'')"
  define ctx' where "ctx' = ctx\<lparr>cx_request_id := Some rid, cx_trace_id := Some tid,
      cx_outgoing := cx_outgoing ctx @ [(''x-request-id'', rid), (''x-trace-id'', tid)]\<rparr>"
  obtain r x where r: "route (gs_inner s) env req = (r, Done x)" "is_error x \<longleftrightarrow> code_of x \<noteq> OK"
    by (rule route_outcome [OF assms, of env req]) (auto simp: is_error_def code_of_def route_codes_def)
  define answer where "answer = (if cx_done ctx
      then (s, Done (Inl (Status DeadlineExceeded (''request deadline already expired before reaching '' @ route_path))))
      else serve_route env ctx' req s)"
  have eq: "router_rpc rnd1 rnd2 e1 e2 env ctx (Inr req) s = (case answer of
       (s', Panicked p) \<Rightarrow> (s', Done (Inl (Status Internal (''internal server error: '' @ p))))
     | (s', Done r) \<Rightarrow>
        (s'\<lparr>gs_metrics := record_call (gs_metrics s') (word_of_int (to_millis e2)) (is_error r),
            gs_log := gs_log s' @ [\<lparr>ll_method = route_path, ll_code = code_of r, ll_latency_ms = to_millis e1,
              ll_request_id = rid, ll_trace_id = tid\<rparr>]\<rparr>, Done r))"
    unfolding router_rpc_def router_route_handler_def sum.case option.case route_path_def [symmetric]
    by (rule router_chain_eq [of rid ctx rnd1 tid rnd2 ctx' answer s route_path "serve_route env" req, OF rid_def tid_def ctx'_def answer_def])
  show ?thesis
  proof (cases "cx_done ctx")
    case True
    show ?thesis
      by (rule late [OF eq [unfolded answer_def if_P [OF True] prod.case outcome.case]])
        (auto simp: logged_def is_error_def code_of_def)
  next
    case False
    have a: "answer = (s\<lparr>gs_inner := r\<rparr>, Done x)" using False r(1) by (simp add: answer_def serve_route_def)
    show ?thesis
      by (rule routed [OF eq [unfolded a prod.case outcome.case] r(1)]) (auto simp: logged_def r(2))
  qed
qed

subsection \<open>The connection\<close>

text \<open>A message that gRPC carries is encoded and decoded by the codec; its encoding is a slice, so its
  length is an \<open>int\<close>.\<close>

definition carried :: "protowire \<Rightarrow> go_value \<Rightarrow> go_value \<Rightarrow> bool" where
  "carried pw v v' \<longleftrightarrow> (\<exists>order b. iteration order v \<and> codec_marshal pw order v = Inr b \<and> length b < max_slice
     \<and> codec_unmarshal pw b (zero_of v) = Some (Inr v'))"

lemma carried_sent: "wire_format pw \<Longrightarrow> carried pw v v' \<Longrightarrow> v' = sent v"
  using codec_back by (fastforce simp: carried_def)

text \<open>
  A unary call of \<open>Route\<close>: it does not reach the router and fails; or the router runs it on the
  request that was carried over, and the response is carried back; or the router runs it and the
  caller gets an error, the router's or one of the connection. At any rate it runs at most
  once: gRPC does not repeat a call that reached the server.
\<close>

inductive rpc ::
  "protowire \<Rightarrow> inference_request \<Rightarrow> 'c router_server grpc_server \<Rightarrow> 'c router_server grpc_server \<Rightarrow> inference_response result \<Rightarrow> bool"
  for pw req where
  rpc_refused: "rpc pw req s s (Inl e)"
| rpc_answered:
    "rpc pw req s s' (Inr resp')"
    if "carried pw (VInferenceRequest req) (VInferenceRequest req')"
      and "router_rpc rnd1 rnd2 e1 e2 env ctx (Inr req') s = (s', Done (Inr resp))"
      and "carried pw (VInferenceResponse resp) (VInferenceResponse resp')"
| rpc_failed:
    "rpc pw req s s' (Inl e)"
    if "carried pw (VInferenceRequest req) (VInferenceRequest req')"
      and "router_rpc rnd1 rnd2 e1 e2 env ctx (Inr req') s = (s', out)"

inductive_cases rpc_InrE: "rpc pw req s s' (Inr resp)"

definition grpc_conn :: "protowire \<Rightarrow> 'c router_server grpc_server invoke \<Rightarrow> bool" where
  "grpc_conn pw invoke \<longleftrightarrow> (\<forall>deadline req s. rpc pw req s (fst (invoke route_path deadline req s)) (snd (invoke route_path deadline req s)))"

lemma conn_rpc:
  assumes "grpc_conn pw invoke" "router_client_route invoke deadline req s = (s', x)"
  shows "rpc pw req s s' x"
  using assms unfolding grpc_conn_def router_client_route_def route_path_eq by (metis fst_conv snd_conv)

subsection \<open>An answer, end to end\<close>

lemma sent_request_keeps:
  "ir_request_id (sent_request q) = ir_request_id q" "ir_tenant_id (sent_request q) = ir_tenant_id q"
  "ir_task_type (sent_request q) = ir_task_type q" "ir_prompt (sent_request q) = ir_prompt q"
  "ir_messages (sent_request q) = ir_messages q"
  by (simp_all add: sent_request_def)

lemma sent_response_keeps:
  "rs_request_id (sent_response a) = rs_request_id a" "rs_content (sent_response a) = rs_content a"
  "rs_executor_id (sent_response a) = rs_executor_id a" "rs_tokens_output (sent_response a) = rs_tokens_output a"
  by (simp_all add: sent_response_def)

lemma rpc_served:
  assumes "wire_format pw" "rpc pw req s s' (Inr resp')" "tracker_of ev (xs_health (gs_inner s))"
  obtains env resp where "route (gs_inner s) env (sent_request req) = (gs_inner s', Done (Inr resp))"
    "resp' = sent_response resp" "logged s OK s'"
proof -
  obtain req' rnd1 rnd2 e1 e2 env ctx resp where r: "carried pw (VInferenceRequest req) (VInferenceRequest req')"
    "router_rpc rnd1 rnd2 e1 e2 env ctx (Inr req') s = (s', Done (Inr resp))"
    "carried pw (VInferenceResponse resp) (VInferenceResponse resp')"
    using assms(2) by (rule rpc_InrE)
  have c: "req' = sent_request req" "resp' = sent_response resp"
    using carried_sent [OF assms(1) r(1)] carried_sent [OF assms(1) r(3)] by simp_all
  show ?thesis
    by (rule rpc_cases [OF assms(3), of rnd1 rnd2 e1 e2 env ctx req'])
      (use r(2) c that in \<open>auto simp: code_of_def\<close>)
qed

subsection \<open>The books of the platform\<close>

definition ok_calls :: "'s grpc_server \<Rightarrow> nat" where
  "ok_calls s = length (filter (\<lambda>l. ll_code l = OK) (gs_log s))"

text \<open>The log of the gRPC server, its counters, those of the router and the audit log agree; \<open>n\<close> rows
  were in the audit log before.\<close>

definition router_books :: "nat \<Rightarrow> 'c router_server grpc_server \<Rightarrow> bool" where
  "router_books n s \<longleftrightarrow> (\<exists>ev. tracker_of ev (xs_health (gs_inner s)))
     \<and> (\<forall>l \<in> set (gs_log s). ll_method l = route_path)
     \<and> im_total_calls (gs_metrics s) = of_nat (length (gs_log s))
     \<and> im_error_calls (gs_metrics s) = of_nat (length (filter (\<lambda>l. ll_code l \<noteq> OK) (gs_log s)))
     \<and> xm_routed (xs_metrics (gs_inner s)) = of_nat (ok_calls s)
     \<and> length (st_request_log (xs_store (gs_inner s))) \<le> n + ok_calls s"

lemma log_request_le: "length (st_request_log (log_request st works created entry)) \<le> Suc (length (st_request_log st))"
  by (simp add: log_request_def)

lemma logged_counts:
  assumes "logged s c s'"
  shows "im_total_calls (gs_metrics s') = im_total_calls (gs_metrics s) + 1"
    and "im_error_calls (gs_metrics s') = im_error_calls (gs_metrics s) + (if c \<noteq> OK then 1 else 0)"
    and "length (gs_log s') = Suc (length (gs_log s))" "ok_calls s' = ok_calls s + (if c = OK then 1 else 0)"
    and "length (filter (\<lambda>l. ll_code l \<noteq> OK) (gs_log s')) = length (filter (\<lambda>l. ll_code l \<noteq> OK) (gs_log s)) + (if c \<noteq> OK then 1 else 0)"
    and "(\<forall>l \<in> set (gs_log s'). ll_method l = route_path) \<longleftrightarrow> (\<forall>l \<in> set (gs_log s). ll_method l = route_path)"
  using assms by (auto simp: logged_def record_call_def ok_calls_def Let_def)

lemma call_books:
  assumes "router_books n s" "router_rpc rnd1 rnd2 e1 e2 env ctx (Inr req) s = (s', out)"
  shows "router_books n s' \<and> ok_calls s' = ok_calls s + (case out of Done (Inr _) \<Rightarrow> 1 | _ \<Rightarrow> 0)"
proof -
  obtain ev where ev: "tracker_of ev (xs_health (gs_inner s))" using assms(1) by (auto simp: router_books_def)
  show ?thesis
  proof (rule rpc_cases [OF ev, of rnd1 rnd2 e1 e2 env ctx req])
    fix s'' msg
    assume "router_rpc rnd1 rnd2 e1 e2 env ctx (Inr req) s = (s'', Done (Inl (Status DeadlineExceeded msg)))"
      "gs_inner s'' = gs_inner s" "logged s DeadlineExceeded s''"
    then show ?thesis using assms logged_counts [of s DeadlineExceeded s''] by (simp add: router_books_def)
  next
    fix s'' r x
    assume a: "router_rpc rnd1 rnd2 e1 e2 env ctx (Inr req) s = (s'', Done x)"
      "route (gs_inner s) env req = (r, Done x)" "gs_inner s'' = r" "logged s (code_of x) s''"
    have s'': "s'' = s'" "out = Done x" using a(1) assms(2) by simp_all
    note cnt = logged_counts [OF a(4)]
    show ?thesis
    proof (rule route_outcome [OF ev, of env req])
      fix s3 resp ev' log entry
      assume b: "route (gs_inner s) env req = (s3, Done (Inr resp))" "tracker_of ev' (xs_health s3)"
        "xm_routed (xs_metrics s3) = xm_routed (xs_metrics (gs_inner s)) + 1"
        "xs_store s3 = log_request (xs_store (gs_inner s)) (xe_log_works env) (xe_created_at env) entry"
      then have "x = Inr resp" "gs_inner s' = s3" using a s'' by simp_all
      then show ?thesis
        using assms(1) b cnt log_request_le [of "xs_store (gs_inner s)" "xe_log_works env" "xe_created_at env" entry] s''
        by (auto simp: router_books_def code_of_def)
    next
      fix s3 c msg ev'
      assume b: "route (gs_inner s) env req = (s3, Done (Inl (Status c msg)))" "c \<in> route_codes"
        "tracker_of ev' (xs_health s3)" "xm_routed (xs_metrics s3) = xm_routed (xs_metrics (gs_inner s))"
        "xs_store s3 = xs_store (gs_inner s)"
      then have "x = Inl (Status c msg)" "gs_inner s' = s3" "c \<noteq> OK" using a s'' by (auto simp: route_codes_def)
      then show ?thesis using assms(1) b cnt s'' by (auto simp: router_books_def code_of_def)
    qed
  qed
qed

lemma rpc_books:
  assumes "router_books n s" "rpc pw req s s' x"
  shows "router_books n s' \<and> ok_calls s \<le> ok_calls s' \<and> (\<forall>resp. x = Inr resp \<longrightarrow> ok_calls s < ok_calls s')"
  using assms(2)
proof cases
  case (rpc_answered resp' req' rnd1 rnd2 e1 e2 env ctx resp)
  then show ?thesis using call_books [OF assms(1)] by fastforce
next
  case (rpc_failed req' rnd1 rnd2 e1 e2 env ctx out e)
  then show ?thesis using call_books [OF assms(1)] by fastforce
qed (use assms(1) in auto)

text \<open>What the gateway counts as routed and streamed is at most what the router served.\<close>

definition platform_books :: "nat \<Rightarrow> gateway \<times> 'c router_server grpc_server \<Rightarrow> bool" where
  "platform_books n st \<longleftrightarrow> router_books n (snd st)
     \<and> (\<exists>a b. gm_routed (gw_metrics (fst st)) = of_nat a \<and> gm_streamed (gw_metrics (fst st)) = of_nat b \<and> a + b \<le> ok_calls (snd st))"

text \<open>A step of the gateway's counters: nothing, or one more for a call that answered.\<close>

lemma books_call:
  assumes "platform_books n (g, s)" "rpc pw req s s' x"
    and "gm_routed (gw_metrics g') = gm_routed (gw_metrics g) \<and> gm_streamed (gw_metrics g') = gm_streamed (gw_metrics g)
      \<or> (\<exists>resp. x = Inr resp) \<and> (gm_routed (gw_metrics g') = gm_routed (gw_metrics g) + 1 \<and> gm_streamed (gw_metrics g') = gm_streamed (gw_metrics g)
         \<or> gm_routed (gw_metrics g') = gm_routed (gw_metrics g) \<and> gm_streamed (gw_metrics g') = gm_streamed (gw_metrics g) + 1)"
  shows "platform_books n (g', s')"
proof -
  have r: "router_books n s'" "ok_calls s \<le> ok_calls s'" "\<And>resp. x = Inr resp \<Longrightarrow> ok_calls s < ok_calls s'"
    using rpc_books [OF _ assms(2)] assms(1) by (auto simp: platform_books_def)
  obtain a b where ab: "gm_routed (gw_metrics g) = of_nat a" "gm_streamed (gw_metrics g) = of_nat b" "a + b \<le> ok_calls s"
    using assms(1) by (auto simp: platform_books_def)
  from assms(3) have "\<exists>a b. gm_routed (gw_metrics g') = of_nat a \<and> gm_streamed (gw_metrics g') = of_nat b \<and> a + b \<le> ok_calls s'"
  proof (elim disjE conjE exE)
    assume "gm_routed (gw_metrics g') = gm_routed (gw_metrics g)" "gm_streamed (gw_metrics g') = gm_streamed (gw_metrics g)"
    then show ?thesis using ab r(2) by (intro exI [of _ a] exI [of _ b]) simp
  next
    fix resp
    assume "x = Inr resp" "gm_routed (gw_metrics g') = gm_routed (gw_metrics g) + 1" "gm_streamed (gw_metrics g') = gm_streamed (gw_metrics g)"
    then show ?thesis using ab r(3) by (intro exI [of _ "Suc a"] exI [of _ b]) auto
  next
    fix resp
    assume "x = Inr resp" "gm_routed (gw_metrics g') = gm_routed (gw_metrics g)" "gm_streamed (gw_metrics g') = gm_streamed (gw_metrics g) + 1"
    then show ?thesis using ab r(3) by (intro exI [of _ a] exI [of _ "Suc b"]) auto
  qed
  then show ?thesis using r(1) by (simp add: platform_books_def)
qed

lemma books_same:
  assumes "platform_books n (g, s)"
    and "gm_routed (gw_metrics g') = gm_routed (gw_metrics g)" "gm_streamed (gw_metrics g') = gm_streamed (gw_metrics g)"
  shows "platform_books n (g', s)"
  using assms by (simp add: platform_books_def)

lemma sse_books:
  assumes "platform_books n (g, s)" "grpc_conn pw invoke" "handle_sse invoke env r req (g, s) = (st', reply)"
  shows "platform_books n st'"
proof (cases "hi_flushes r")
  case False
  then show ?thesis using assms by (auto simp: handle_sse_def)
next
  case True
  obtain s' x where x: "router_client_route invoke (ge_stream_now env + 30 * second) req s = (s', x)" by (meson surj_pair)
  note c = conn_rpc [OF assms(2) x]
  show ?thesis
  proof (cases x)
    case (Inl e)
    then show ?thesis using assms(3) True x books_call [OF assms(1) c, of g] by (auto simp: handle_sse_def Let_def)
  next
    case (Inr resp)
    let ?g = "if sse_sent env resp = length (sse_chunks env req resp)
        then count_gateway (\<lambda>m. m\<lparr>gm_streamed := gm_streamed m + 1\<rparr>) g else g"
    have "st' = (?g, s')" using assms(3) handle_sse_eq [OF True x [unfolded Inr], of g] by simp
    moreover have "platform_books n (?g, s')"
      by (rule books_call [OF assms(1) c]) (simp add: Inr count_gateway_def)
    ultimately show ?thesis by simp
  qed
qed

lemma inference_books:
  assumes "platform_books n (g, s)" "grpc_conn pw invoke" "handle_inference invoke env r (g, s) = (st', reply)"
  shows "platform_books n st'"
  using handle_stages [of env r g invoke s]
proof cases
  case (unauthorized e)
  then show ?thesis using assms(3) books_same [OF assms(1)] by auto
next
  case (rejected p msg)
  then show ?thesis using assms(3) books_same [OF assms(1)] by auto
next
  case (panicked p hr)
  then show ?thesis using assms(3) books_same [OF assms(1)] by auto
next
  case (streamed p hr req)
  let ?g = "bumped (\<lambda>m. m\<lparr>gm_admitted := gm_admitted m + 1\<rparr>) env r g"
  obtain st2 rep where sse: "handle_sse invoke env r req (?g, s) = (st2, rep)" by (meson surj_pair)
  have "platform_books n (?g, s)" by (rule books_same [OF assms(1)]) simp_all
  then show ?thesis using sse_books [OF _ assms(2) sse] assms(3) streamed(5) sse by simp
next
  case (failed p hr req s' e)
  then show ?thesis using assms(3) books_call [OF assms(1) conn_rpc [OF assms(2) failed(5)]] by auto
next
  case (served p hr req s' resp headers)
  then show ?thesis using assms(3) books_call [OF assms(1) conn_rpc [OF assms(2) served(5)]] by auto
qed

subsection \<open>Histories\<close>

text \<open>What happens on the platform: a request to the gateway, a tick of the router's reload loop, a
  request to the router's rollouts, and a tick that cleans the gateway's cache of keys.\<close>

inductive platform_step ::
  "protowire \<Rightarrow> gateway \<times> 'c router_server grpc_server \<Rightarrow> gateway \<times> 'c router_server grpc_server \<Rightarrow> bool" for pw where
  http: "platform_step pw (g, s) st'"
    if "grpc_conn pw invoke" "gateway_handler invoke env r (g, s) = (st', reply)"
| reload: "platform_step pw (g, s) (g, s\<lparr>gs_inner := inner\<rparr>)"
    if "reload_tick conns models_fail works rollouts_fail (gs_inner s) = Some inner"
| rollout: "platform_step pw (g, s) (g, s\<lparr>gs_inner := inner\<rparr>)"
    if "admin_rollout method body upsert_fails load_fails (gs_inner s) = (inner, rep)"
| cleanup: "platform_step pw (g, s) (g\<lparr>gw_auth := cleanup_tick now (gw_auth g)\<rparr>, s)"

definition platform_start :: "gateway \<times> 'c router_server grpc_server \<Rightarrow> bool" where
  "platform_start st \<longleftrightarrow> (\<exists>now conns store models_fail works rollouts_fail inner.
     new_router_server conns store models_fail works rollouts_fail = Some (Inr inner)
     \<and> st = (new_gateway now, \<lparr>gs_inner = inner, gs_log = [], gs_metrics = \<lparr>im_total_calls = 0, im_error_calls = 0, im_total_latency_ms = 0\<rparr>\<rparr>))"

definition audit_rows :: "gateway \<times> 'c router_server grpc_server \<Rightarrow> nat" where
  "audit_rows st = length (st_request_log (xs_store (gs_inner (snd st))))"

lemma start_books:
  assumes "platform_start st"
  shows "platform_books (audit_rows st) st"
proof -
  obtain now conns store models_fail works rollouts_fail inner where i:
    "new_router_server conns store models_fail works rollouts_fail = Some (Inr inner)"
    "st = (new_gateway now, \<lparr>gs_inner = inner, gs_log = [], gs_metrics = \<lparr>im_total_calls = 0, im_error_calls = 0, im_total_latency_ms = 0\<rparr>\<rparr>)"
    using assms by (auto simp: platform_start_def)
  have "xs_health inner = new_health_tracker" "xm_routed (xs_metrics inner) = 0"
    using i(1) by (auto simp: new_router_server_def Let_def map_option_case split: option.splits sum.splits)
  then show ?thesis
    using tracker_of_new by (auto simp: i(2) platform_books_def router_books_def ok_calls_def audit_rows_def new_gateway_def
        zero_gateway_metrics_def intro!: exI [of _ 0])
qed

lemma inner_books:
  assumes "platform_books n (g, s)" "xs_health inner = xs_health (gs_inner s)" "xs_metrics inner = xs_metrics (gs_inner s)"
    and "st_request_log (xs_store inner) = st_request_log (xs_store (gs_inner s))"
  shows "platform_books n (g, s\<lparr>gs_inner := inner\<rparr>)"
  using assms by (auto simp: platform_books_def router_books_def ok_calls_def)

lemma reload_keeps:
  assumes "reload_tick conns mf works rf s = Some inner"
  shows "xs_health inner = xs_health s" "xs_metrics inner = xs_metrics s" "xs_store inner = xs_store s"
  using assms by (auto simp: reload_tick_def map_option_case Let_def split: option.splits sum.splits)

lemma step_books:
  assumes "platform_step pw st st'" "platform_books n st"
  shows "platform_books n st'"
  using assms
proof cases
  case (http invoke env r g s reply)
  have b: "platform_books n (g, s)" using assms(2) http by simp
  show ?thesis
    using http(3) inference_books [OF b http(2)] b
    by (auto simp: gateway_handler_def post_only_def get_only_def split: if_splits)
next
  case (reload conns mf works rf s inner g)
  then have "xs_health inner = xs_health (gs_inner s)" "xs_metrics inner = xs_metrics (gs_inner s)" "xs_store inner = xs_store (gs_inner s)"
    using reload_keeps by blast+
  then show ?thesis using inner_books [of n g s inner] assms(2) reload by simp
next
  case (rollout mtd bdy uf lf s inner rep g)
  then have "xs_health inner = xs_health (gs_inner s)" "xs_metrics inner = xs_metrics (gs_inner s)"
    "st_request_log (xs_store inner) = st_request_log (xs_store (gs_inner s))"
    by (auto simp: admin_rollout_def upsert_rollout_def Let_def split: sum.splits if_splits option.splits)
  then show ?thesis using inner_books [of n g s inner] assms(2) rollout by simp
next
  case (cleanup g s now)
  then show ?thesis using books_same [of n g s] assms(2) by auto
qed

lemma reach_books:
  assumes "(platform_step pw)\<^sup>*\<^sup>* st0 st" "platform_start st0"
  shows "platform_books (audit_rows st0) st"
  using assms(1)
proof (induction rule: rtranclp_induct)
  case base
  show ?case by (rule start_books [OF assms(2)])
next
  case (step st st')
  then show ?case using step_books by blast
qed

subsection \<open>Properties\<close>

text \<open>C2. An answer that a client gets comes from a model that its tenant may use. Let the connection keep gRPC's promises, the limits of
  the admission be ordinary ones (\<open>sane_admission\<close>: the deadlines far from the end of int64, the default at least a millisecond and at most the maximum, at least
  1024 tokens), and the router be well formed (\<open>router_sane\<close>: no two models share an id, their costs are finite, between 0 and a million, the shares of the rollouts lie
  between 0 and 1, and the health records are those of fewer than 2^63 events per model). When the gateway then
  answers a request, the key belongs to a caller; the router has a
  model that is enabled, supports the task of the path and is allowed by the policy of the caller's
  tenant; that model's executor was given the client's prompt under the gateway's request id, and the
  answer has the content it returned and that id. The call is in the log of the gRPC server as OK. The audit log grew by
  one row, with the caller's tenant and the request's id, if the goroutine's INSERT worked, and by none if it failed (the code drops the error).\<close>

theorem platform_answer:
  fixes invoke :: "'c router_server grpc_server invoke"
  assumes "wire_format pw" "grpc_conn pw invoke" "sane_admission (ad_cfg (gw_admitter g)) (ge_admit_now env)"
    and "router_sane ev (gs_inner s)"
    and "handle_inference invoke env r (g, s) = ((g', s'), Some reply)" "gr_body reply = GwResponse resp"
  shows "\<exists>p hr renv m c q er entry. caller env r g = Inr p \<and> hi_body r = Inr hr
    \<and> m \<in> set (xs_models (gs_inner s)) \<and> mr_enabled m \<and> task_string (task_from_path (hi_path r)) \<in> set (mr_tasks m)
    \<and> (let allowed = tp_allowed_models (snd (tenant_policy_of (gs_inner s) renv (le_tenant_id entry)))
       in allowed = [] \<or> map_of allowed (mr_model_id m) = Some True)
    \<and> le_tenant_id entry = (if pr_tenant_id p = [] then ''tenant-default'' else pr_tenant_id p)
    \<and> le_request_id entry = gateway_new_id (ge_random env)
    \<and> xs_store (gs_inner s') = (if xe_log_works renv
         then (xs_store (gs_inner s))\<lparr>st_request_log := st_request_log (xs_store (gs_inner s)) @ [(xe_created_at renv, entry)]\<rparr> else xs_store (gs_inner s))
    \<and> snd (pool_client (xs_pool (gs_inner s)) (mr_executor_addr m) (xe_dial renv)) = Inr c \<and> xe_execute renv c q = Inr er
    \<and> er_model_id q = mr_model_id m \<and> er_prompt q = hb_prompt hr \<and> er_request_id q = gateway_new_id (ge_random env)
    \<and> rs_request_id resp = gateway_new_id (ge_random env) \<and> rs_content resp = ex_content er
    \<and> rs_executor_id resp = mr_executor_addr m \<and> logged s OK s'"
  using handle_stages [of env r g invoke s]
proof cases
  case (served p hr req s2 resp2 headers)
  have eq: "s' = s2" "resp = resp2" using assms(5,6) served(6) by (auto simp: json_ok_def)
  note f = admitted_fields [OF served(3) assms(3)]
  have tr: "tracker_of ev (xs_health (gs_inner s))" using assms(4) by (simp add: router_sane_def)
  obtain renv resp1 where r: "route (gs_inner s) renv (sent_request req) = (gs_inner s', Done (Inr resp1))"
    "resp = sent_response resp1" "logged s OK s'"
    using rpc_served [OF assms(1) conn_rpc [OF assms(2) served(5)] tr] unfolding eq .
  obtain m c er where m: "m \<in> set (xs_models (gs_inner s))" "mr_enabled m" "task_string (ir_task_type req) \<in> set (mr_tasks m)"
    "let allowed = tp_allowed_models (route_policy (gs_inner s) renv (sent_request req)) in allowed = [] \<or> map_of allowed (mr_model_id m) = Some True"
    "snd (pool_client (xs_pool (gs_inner s)) (mr_executor_addr m) (xe_dial renv)) = Inr c"
    "xe_execute renv c (route_execute_request (sent_request req) (route_score (gs_inner s) renv (sent_request req) m)) = Inr er"
    "rs_request_id resp1 = ir_request_id req" "rs_content resp1 = ex_content er" "rs_executor_id resp1 = mr_executor_addr m"
    using route_best [OF assms(4) r(1)] unfolding sent_request_keeps by blast
  obtain entry where e: "xs_store (gs_inner s') = log_request (xs_store (gs_inner s)) (xe_log_works renv) (xe_created_at renv) entry"
    "le_request_id entry = ir_request_id req" "le_tenant_id entry = route_tenant (sent_request req)"
    by (rule route_outcome [OF tr, of renv "sent_request req"]) (use r(1) in \<open>auto simp: sent_request_keeps\<close>)
  let ?q = "route_execute_request (sent_request req) (route_score (gs_inner s) renv (sent_request req) m)"
  have q: "er_model_id ?q = mr_model_id m" "er_prompt ?q = ir_prompt req" "er_request_id ?q = ir_request_id req"
    by (simp_all add: route_execute_request_def route_score_def sent_request_keeps)
  show ?thesis
    by (intro exI [of _ p] exI [of _ hr] exI [of _ renv] exI [of _ m] exI [of _ c] exI [of _ ?q] exI [of _ er] exI [of _ entry])
      (use m e q r served(1,2) f in \<open>simp add: sent_response_keeps grpc_request_fields route_tenant_def sent_request_keeps route_policy_def log_request_def\<close>)
next
  case (streamed p hr req)
  then show ?thesis using assms(5,6) by (auto simp: handle_sse_def json_error_def Let_def split: if_splits prod.splits sum.splits)
qed (use assms(5,6) in \<open>auto simp: json_error_def routing_error_def split: if_splits\<close>)

text \<open>C3. The books of the platform balance after any history of requests, reloads, changes of rollouts and
  cache ticks, whatever the executors, the connection and the database do. \<open>Route\<close> never panics;
  the gRPC server has counted each line of its log, and each line that is not OK as an error; the
  router's \<open>Routed\<close> is the number of OK lines, the audit log has at most one new row for each, and what
  the gateway counts as routed and as streamed are answers of the router, each counted once.\<close>

theorem platform_accounting:
  assumes "platform_start st0" "(platform_step pw)\<^sup>*\<^sup>* st0 (g, s)"
  shows "xm_routed (xs_metrics (gs_inner s)) = of_nat (ok_calls s)
    \<and> im_total_calls (gs_metrics s) = of_nat (length (gs_log s))
    \<and> im_error_calls (gs_metrics s) = of_nat (length (filter (\<lambda>l. ll_code l \<noteq> OK) (gs_log s)))
    \<and> (\<forall>l \<in> set (gs_log s). ll_method l = route_path)
    \<and> audit_rows (g, s) \<le> audit_rows st0 + ok_calls s
    \<and> (\<exists>a b. gm_routed (gw_metrics g) = of_nat a \<and> gm_streamed (gw_metrics g) = of_nat b \<and> a + b \<le> ok_calls s)
    \<and> (\<exists>inner x. route (gs_inner s) env req = (inner, Done x))"
proof -
  have b: "router_books (audit_rows st0) s"
    "\<exists>a b. gm_routed (gw_metrics g) = of_nat a \<and> gm_streamed (gw_metrics g) = of_nat b \<and> a + b \<le> ok_calls s"
    using reach_books [OF assms(2,1)] by (simp_all add: platform_books_def)
  obtain ev where "tracker_of ev (xs_health (gs_inner s))" using b(1) by (auto simp: router_books_def)
  then have "\<exists>inner x. route (gs_inner s) env req = (inner, Done x)" by (rule route_outcome [of _ _ env req]) blast+
  then show ?thesis using b by (simp add: router_books_def audit_rows_def)
qed

text \<open>A connection that loses nothing but what is too long to encode.\<close>

definition direct_invoke :: "'c route_env \<Rightarrow> 'c router_server grpc_server invoke" where
  "direct_invoke env method deadline req s =
    (if method = route_path \<and> iterates [] (ir_metadata req) \<and> length (marshal_request protobuf [] req) < max_slice
     then (case router_rpc [] [] 0 0 env demo_ctx (Inr (sent_request req)) s of
         (s', Done (Inr resp)) \<Rightarrow>
           (s', if length (marshal_response protobuf resp) < max_slice then Inr (sent_response resp)
                else Inl (Status Internal ''message too large''))
       | (s', Done (Inl e)) \<Rightarrow> (s', Inl e)
       | (s', Panicked p) \<Rightarrow> (s', Inl (Status Unavailable p)))
     else (s, Inl (Status Internal ''message too large'')))"

lemma direct_conn: "grpc_conn protobuf (direct_invoke env)"
  unfolding grpc_conn_def
proof (intro allI)
  fix deadline :: time and req :: inference_request and s :: "'a router_server grpc_server"
  show "rpc protobuf req s (fst (direct_invoke env route_path deadline req s)) (snd (direct_invoke env route_path deadline req s))"
  proof (cases "iterates [] (ir_metadata req) \<and> length (marshal_request protobuf [] req) < max_slice")
    case False
    then show ?thesis by (auto simp: direct_invoke_def intro: rpc_refused)
  next
    case True
    have q: "carried protobuf (VInferenceRequest req) (VInferenceRequest (sent_request req))"
      unfolding carried_def using True codec_back [OF protobuf.wire_format_axioms, of "[]" "VInferenceRequest req"]
      by (intro exI [of _ "[]"] exI [of _ "marshal_request protobuf [] req"]) simp
    have a: "carried protobuf (VInferenceResponse resp) (VInferenceResponse (sent_response resp))"
      if "length (marshal_response protobuf resp) < max_slice" for resp
      unfolding carried_def using that codec_back [OF protobuf.wire_format_axioms, of "[]" "VInferenceResponse resp"]
      by (intro exI [of _ "[]"] exI [of _ "marshal_response protobuf resp"]) simp
    obtain s' out where r: "router_rpc [] [] 0 0 env demo_ctx (Inr (sent_request req)) s = (s', out)" by (meson surj_pair)
    have "rpc protobuf req s s' (Inr (sent_response resp))"
      if "out = Done (Inr resp)" "length (marshal_response protobuf resp) < max_slice" for resp
      using rpc_answered [OF q r [unfolded that(1)] a [OF that(2)]] .
    then show ?thesis
      using True by (auto simp: direct_invoke_def r split: outcome.split sum.split intro: rpc_failed [OF q r])
  qed
qed

text \<open>How long an encoded response is.\<close>

lemma response_length:
  assumes "rs_embedding m = []" "rs_scores m = []"
    and "length (rs_request_id m) + length (rs_trace_id m) + length (rs_model_id m) + length (rs_model_version m)
      + length (rs_content m) + length (rs_executor_id m) < 2 ^ 60"
  shows "length (marshal_response protobuf m) < max_slice"
proof -
  have skip: "put_doubles protobuf num [] b = b" for num b by (simp add: put_doubles_def)
  have "length (marshal_response protobuf m) \<le> 0 + (20 + 2 * length (rs_request_id m)) + (20 + 2 * length (rs_trace_id m)) + 20
      + (20 + 2 * length (rs_model_id m)) + (20 + 2 * length (rs_model_version m)) + 20 + (20 + 2 * length (rs_content m))
      + 20 + 20 + 20 + 20 + 20 + 20 + 20 + 20 + (20 + 2 * length (rs_executor_id m))"
    unfolding marshal_response_def Let_def assms(1,2) skip by (intro put_lengths) simp
  then show ?thesis using assms(3) by simp
qed

definition demo_backend :: "string router_server grpc_server" where
  "demo_backend = \<lparr>gs_inner = demo_router 0, gs_log = [], gs_metrics = \<lparr>im_total_calls = 0, im_error_calls = 0, im_total_latency_ms = 0\<rparr>\<rparr>"

definition demo_platform_env :: "string route_env" where
  "demo_platform_env = demo_route_env (\<lambda>c r. Inr (demo_answer r))"

lemma demo_rpc:
  "\<exists>s' resp. router_client_route (direct_invoke demo_platform_env) deadline demo_admitted demo_backend = (s', Inr (sent_response resp))"
proof -
  have len: "length (marshal_request protobuf [] demo_admitted) < max_slice"
    by (simp add: marshal_request_def demo_admitted_def zero_request_def protobuf_def put_string_def put_strings_def
      put_int32_def put_int64_def put_bool_def put_varint_def put_bytes_def metadata_entry_def marshal_chat_def
      varint_bytes.simps)
  have "ir_task_type (sent_request demo_admitted) = TaskChat" by (simp add: sent_request_def demo_admitted_def)
  from chat_served [OF this, of 0, folded demo_platform_env_def]
  obtain inner resp where r: "route (demo_router 0) demo_platform_env (sent_request demo_admitted) = (inner, Done (Inr resp))"
    and resp: "\<exists>primary cost share. resp = route_response demo_platform_env (sent_request demo_admitted) primary
      (demo_answer (route_execute_request (sent_request demo_admitted) primary)) (route_latency demo_platform_env) cost False share
      \<and> cs_model_id primary = ''m'' \<and> cs_executor_addr primary = ''e''"
    by (fastforce simp: route_score_def demo_model_def)
  have "length (marshal_response protobuf resp) < max_slice"
    by (rule response_length) (use resp in \<open>auto simp: route_response_def demo_answer_def demo_platform_env_def demo_route_env_def
      route_execute_request_def zero_response_def sent_request_def demo_admitted_def\<close>)
  moreover have "\<exists>s'. router_rpc [] [] 0 0 demo_platform_env demo_ctx (Inr (sent_request demo_admitted)) demo_backend = (s', Done (Inr resp))"
    using r by (simp add: router_rpc_def router_route_handler_def router_interceptors_def recovery_def with_request_id_def logging_def
        with_metrics_def deadline_check_def serve_route_def demo_ctx_def demo_backend_def Let_def)
  moreover have "iterates [] (ir_metadata demo_admitted)" by (simp add: iterates_def demo_admitted_def)
  ultimately show ?thesis using len by (auto simp: router_client_route_def direct_invoke_def route_path_eq)
qed

text \<open>The whole path, for one client: the answer comes from the executor of the one model.\<close>

theorem platform_answer_witness:
  "\<exists>g' s' reply resp. handle_inference (direct_invoke demo_platform_env) demo_gateway_env (demo_http False) (new_gateway 0, demo_backend)
       = ((g', s'), Some reply) \<and> gr_body reply = GwResponse resp \<and> rs_request_id resp = ''0102'' \<and> rs_executor_id resp = ''e''
     \<and> logged demo_backend OK s'"
proof -
  obtain hr where hr: "hi_body (demo_http False) = Inr hr" by (simp add: demo_http_def)
  obtain s' resp where c: "router_client_route (direct_invoke demo_platform_env) (unix_milli_time (ir_deadline_unix_ms demo_admitted))
      demo_admitted demo_backend = (s', Inr resp)" using demo_rpc by blast
  have "\<not> ir_stream demo_admitted" by (simp add: demo_admitted_def zero_request_def)
  from handle_served [OF demo_caller hr demo_admission [OF hr] this c]
  obtain g' reply where h: "handle_inference (direct_invoke demo_platform_env) demo_gateway_env (demo_http False) (new_gateway 0, demo_backend)
       = ((g', s'), Some reply)" "gr_body reply = GwResponse resp" by (auto simp: json_ok_def)
  have "sane_admission (ad_cfg (gw_admitter (new_gateway 0))) (ge_admit_now demo_gateway_env)"
    by (simp add: new_gateway_def new_admission_def default_admission_def sane_admission_def demo_gateway_env_def)
  moreover have "router_sane (\<lambda>_. []) (gs_inner demo_backend)" by (simp add: demo_backend_def demo_router_sane)
  ultimately obtain m where "m \<in> set (xs_models (gs_inner demo_backend))" "rs_executor_id resp = mr_executor_addr m"
    "rs_request_id resp = gateway_new_id (ge_random demo_gateway_env)" "logged demo_backend OK s'"
    using platform_answer [OF protobuf.wire_format_axioms direct_conn _ _ h] by metis
  moreover have "gateway_new_id (ge_random demo_gateway_env) = ''0102''"
    by (simp add: gateway_new_id_def demo_gateway_env_def byte_hex_def hex_digit_def)
  ultimately show ?thesis using h by (auto simp: demo_backend_def demo_router_def demo_model_def)
qed

text \<open>A history: the cache is cleaned, and a client sends a request to a router without models.\<close>

definition demo_platform :: "gateway \<times> string router_server grpc_server" where
  "demo_platform = (new_gateway 0, \<lparr>gs_inner = (demo_router 0)\<lparr>xs_breakers := new_breakers, xs_models := []\<rparr>, gs_log = [],
     gs_metrics = \<lparr>im_total_calls = 0, im_error_calls = 0, im_total_latency_ms = 0\<rparr>\<rparr>)"

lemma demo_platform_start: "platform_start demo_platform"
  unfolding platform_start_def
proof (intro exI conjI)
  show "new_router_server store_pool fresh_store None (\<lambda>_. True) (Inr id) =
      Some (Inr ((demo_router 0)\<lparr>xs_breakers := new_breakers, xs_models := []\<rparr> :: string router_server))"
    by (simp add: new_router_server_def load_models_def store_pool_def fresh_store_def demo_router_def load_rollouts_def canary_reload_def)
qed (simp add: demo_platform_def)

theorem platform_accounting_witness:
  "\<exists>g s. fst (gateway_handler (direct_invoke demo_platform_env) demo_gateway_env (demo_http False)
       ((fst demo_platform)\<lparr>gw_auth := cleanup_tick second (gw_auth (fst demo_platform))\<rparr>, snd demo_platform)) = (g, s)
     \<and> xm_routed (xs_metrics (gs_inner s)) = of_nat (ok_calls s) \<and> im_total_calls (gs_metrics s) = of_nat (length (gs_log s))"
proof -
  let ?g = "(fst demo_platform)\<lparr>gw_auth := cleanup_tick second (gw_auth (fst demo_platform))\<rparr>"
  obtain g s reply where h: "gateway_handler (direct_invoke demo_platform_env) demo_gateway_env (demo_http False) (?g, snd demo_platform)
      = ((g, s), reply)" by (metis surj_pair)
  have "platform_step protobuf demo_platform (?g, snd demo_platform)"
    using cleanup [of protobuf "fst demo_platform" "snd demo_platform"] by simp
  moreover have "platform_step protobuf (?g, snd demo_platform) (g, s)" by (rule http [OF direct_conn h])
  ultimately have "(platform_step protobuf)\<^sup>*\<^sup>* demo_platform (g, s)" by (meson converse_rtranclp_into_rtranclp r_into_rtranclp)
  from platform_accounting [OF demo_platform_start this] h show ?thesis by simp
qed

end
