(* ===== verification/ModelRegistry.thy ===== *)
theory ModelRegistry
  imports Prelude Float64 "HOL-Library.List_Lexorder" "HOL-Library.Char_ord"
begin

section \<open>The model registry\<close>

text \<open>
  \<open>services/control-plane/internal/registry/registry.go\<close>. The tables \<open>models\<close> and
  \<open>model_capabilities\<close> are lists of rows; the outcomes of the statements and
  \<open>datetime('now')\<close> are arguments, and so are \<open>encoding/json\<close>'s functions on labels. A query
  holds a connection of the pool until its rows are closed; \<open>free\<close> is the number of
  connections that are free when an operation starts, and an operation that waits for one
  that nobody will release is \<open>None\<close>, as is one that panics.
\<close>

type_synonym labels = "(string \<rightharpoonup> string) option"

record model =
  gm_model_id :: string
  gm_version :: string
  gm_name :: string
  gm_tier :: string
  gm_capabilities :: "string list"
  gm_cost_per_1k :: f64
  gm_avg_latency_ms :: int64
  gm_max_tokens :: int64
  gm_executor_addr :: string
  gm_enabled :: bool
  gm_labels :: labels
  gm_created_at :: "time option"
  gm_updated_at :: "time option"

record model_row =
  gr_model_id :: string
  gr_version :: string
  gr_name :: string
  gr_tier :: string
  gr_cost_per_1k :: f64
  gr_avg_latency_ms :: int64
  gr_max_tokens :: int64
  gr_executor_addr :: string
  gr_enabled :: int
  gr_labels :: string
  gr_created_at :: time
  gr_updated_at :: time

record registry_db =
  gd_models :: "model_row list"
  gd_capabilities :: "(string \<times> string) list"

record json_labels =
  json_marshal :: "labels \<Rightarrow> string"
  json_unmarshal :: "string \<Rightarrow> labels"

definition registry_b2i :: "bool \<Rightarrow> int" where
  "registry_b2i b = (if b then 1 else 0)"

subsection \<open>Operations\<close>

definition new_row :: "json_labels \<Rightarrow> time \<Rightarrow> model \<Rightarrow> model_row" where
  "new_row json now m = \<lparr>gr_model_id = gm_model_id m, gr_version = gm_version m, gr_name = gm_name m, gr_tier = gm_tier m,
     gr_cost_per_1k = gm_cost_per_1k m, gr_avg_latency_ms = gm_avg_latency_ms m, gr_max_tokens = gm_max_tokens m,
     gr_executor_addr = gm_executor_addr m, gr_enabled = registry_b2i (gm_enabled m), gr_labels = json_marshal json (gm_labels m),
     gr_created_at = now, gr_updated_at = now\<rparr>"

text \<open>\<open>INSERT ... ON CONFLICT(model_id) DO UPDATE SET ...\<close> keeps the \<open>created_at\<close> of an existing
  row; either way it affects one row.\<close>

definition upsert_model :: "model_row \<Rightarrow> model_row list \<Rightarrow> model_row list \<times> int" where
  "upsert_model row rows =
    (if \<exists>r \<in> set rows. gr_model_id r = gr_model_id row
     then (map (\<lambda>r. if gr_model_id r = gr_model_id row then row\<lparr>gr_created_at := gr_created_at r\<rparr> else r) rows, 1)
     else (rows @ [row], 1))"

text \<open>\<open>INSERT OR IGNORE INTO model_capabilities\<close>.\<close>

definition insert_capability :: "string \<Rightarrow> string \<Rightarrow> (string \<times> string) list \<Rightarrow> (string \<times> string) list" where
  "insert_capability mid cap caps = (if (mid, cap) \<in> set caps then caps else caps @ [(mid, cap)])"

definition register ::
  "json_labels \<Rightarrow> registry_db \<Rightarrow> err option \<Rightarrow> bool \<Rightarrow> (string \<Rightarrow> bool) \<Rightarrow> time \<Rightarrow> model \<Rightarrow> registry_db \<times> bool result" where
  "register json db fails delete_works insert_works now m =
    (if gm_model_id m = [] \<or> gm_name m = [] \<or> gm_tier m = []
     then (db, Inl (Plain ''model_id, name, and tier are required''))
     else
       let m = (if gm_version m = [] then m\<lparr>gm_version := ''v1''\<rparr> else m)
       in case fails of
            Some err \<Rightarrow> (db, Inl err)
          | None \<Rightarrow>
              let (models, affected) = upsert_model (new_row json now m) (gd_models db);
                  caps = (if delete_works then filter (\<lambda>(mid, _). mid \<noteq> gm_model_id m) (gd_capabilities db) else gd_capabilities db);
                  caps = foldl (\<lambda>caps cap. if insert_works cap then insert_capability (gm_model_id m) cap caps else caps)
                           caps (gm_capabilities m);
                  created = (affected > 0)
              in (\<lparr>gd_models = models, gd_capabilities = caps\<rparr>, Inr created))"

text \<open>\<open>loadCaps\<close>: a failing query gives nil rows, and closing those panics.\<close>

definition load_caps :: "nat \<Rightarrow> registry_db \<Rightarrow> bool \<Rightarrow> string \<Rightarrow> string list option" where
  "load_caps free db works mid =
    (if free = 0 then None
     else if \<not> works then None
     else Some (sort (map snd (filter (\<lambda>(m, _). m = mid) (gd_capabilities db)))))"

definition model_of_row :: "json_labels \<Rightarrow> model_row \<Rightarrow> string list \<Rightarrow> model" where
  "model_of_row json r caps = \<lparr>gm_model_id = gr_model_id r, gm_version = gr_version r, gm_name = gr_name r, gm_tier = gr_tier r,
     gm_capabilities = caps, gm_cost_per_1k = gr_cost_per_1k r, gm_avg_latency_ms = gr_avg_latency_ms r,
     gm_max_tokens = gr_max_tokens r, gm_executor_addr = gr_executor_addr r, gm_enabled = (gr_enabled r = 1),
     gm_labels = json_unmarshal json (gr_labels r), gm_created_at = None, gm_updated_at = None\<rparr>"

text \<open>The loop of \<open>List\<close> runs while its own rows hold a connection.\<close>

fun list_loop :: "json_labels \<Rightarrow> nat \<Rightarrow> registry_db \<Rightarrow> (string \<Rightarrow> bool) \<Rightarrow> model_row list \<Rightarrow> model list \<Rightarrow> model list option" where
  "list_loop json free db works [] out = Some out"
| "list_loop json free db works (r # rows) out =
     (case load_caps free db (works (gr_model_id r)) (gr_model_id r) of
        None \<Rightarrow> None
      | Some caps \<Rightarrow> list_loop json free db works rows (out @ [model_of_row json r caps]))"

definition list_models ::
  "json_labels \<Rightarrow> nat \<Rightarrow> registry_db \<Rightarrow> err option \<Rightarrow> (string \<Rightarrow> bool) \<Rightarrow> bool \<Rightarrow> model list result option" where
  "list_models json free db fails works enabled_only =
    (if free = 0 then None
     else case fails of
        Some err \<Rightarrow> Some (Inl err)
      | None \<Rightarrow>
          let rows = (if enabled_only then filter (\<lambda>r. gr_enabled r = 1) (gd_models db) else gd_models db);
              rows = sort_key gr_model_id rows
          in map_option Inr (list_loop json (free - 1) db works rows []))"

definition get_model ::
  "json_labels \<Rightarrow> nat \<Rightarrow> registry_db \<Rightarrow> err option \<Rightarrow> bool \<Rightarrow> string \<Rightarrow> model option result option" where
  "get_model json free db fails works mid =
    (if free = 0 then None
     else case fails of
        Some err \<Rightarrow> Some (Inl err)
      | None \<Rightarrow> (case find (\<lambda>r. gr_model_id r = mid) (gd_models db) of
          None \<Rightarrow> Some (Inr None)
        | Some r \<Rightarrow> map_option (\<lambda>caps. Inr (Some (model_of_row json r caps))) (load_caps free db works (gr_model_id r))))"

definition set_enabled :: "registry_db \<Rightarrow> err option \<Rightarrow> time \<Rightarrow> string \<Rightarrow> bool \<Rightarrow> registry_db \<times> err option" where
  "set_enabled db fails now mid enabled =
    (case fails of
       Some err \<Rightarrow> (db, Some err)
     | None \<Rightarrow>
        let n = length (filter (\<lambda>r. gr_model_id r = mid) (gd_models db));
            db = db\<lparr>gd_models := map (\<lambda>r. if gr_model_id r = mid
                   then r\<lparr>gr_enabled := registry_b2i enabled, gr_updated_at := now\<rparr> else r) (gd_models db)\<rparr>
        in if n = 0 then (db, Some (Plain (''model '' @ mid @ '' not found''))) else (db, None))"

subsection \<open>Reading back what was registered\<close>

lemma list_loop_eq:
  "list_loop json free db works rows out =
    (if rows = [] then Some out
     else if free = 0 \<or> (\<exists>r \<in> set rows. \<not> works (gr_model_id r)) then None
     else Some (out @ map (\<lambda>r. model_of_row json r
            (sort (map snd (filter (\<lambda>(m, _). m = gr_model_id r) (gd_capabilities db))))) rows))"
  by (induction rows arbitrary: out) (auto simp: load_caps_def)

lemma set_insert_capabilities:
  "set (foldl (\<lambda>caps cap. if p cap then insert_capability mid cap caps else caps) caps cs) =
     set caps \<union> {(mid, c) |c. c \<in> set cs \<and> p c}"
  by (induction cs arbitrary: caps) (auto simp: insert_capability_def)

lemma distinct_insert_capabilities:
  "distinct caps \<Longrightarrow> distinct (foldl (\<lambda>caps cap. if p cap then insert_capability mid cap caps else caps) caps cs)"
  by (induction cs arbitrary: caps) (auto simp: insert_capability_def)

lemma sorted_caps:
  assumes "distinct caps" "\<forall>c. (mid, c) \<in> set caps \<longleftrightarrow> c \<in> S" "finite S"
  shows "sort (map snd (filter (\<lambda>(m, _). m = mid) caps)) = sorted_list_of_set S"
proof -
  let ?cs = "map snd (filter (\<lambda>(m, _). m = mid) caps)"
  have d: "distinct ?cs" using assms(1) by (auto simp: distinct_map inj_on_def)
  have "set ?cs = S" using assms(2) by force
  then show ?thesis using sorted_list_of_set_sort_remdups [of ?cs] d by (simp add: distinct_remdups_id)
qed

definition replace_row :: "model_row \<Rightarrow> model_row list \<Rightarrow> model_row list" where
  "replace_row row = map (\<lambda>r. if gr_model_id r = gr_model_id row then row\<lparr>gr_created_at := gr_created_at r\<rparr> else r)"

lemma find_replace:
  "find (\<lambda>r. gr_model_id r = mid) (replace_row row rows) =
     (if mid = gr_model_id row then map_option (\<lambda>r. row\<lparr>gr_created_at := gr_created_at r\<rparr>) (find (\<lambda>r. gr_model_id r = mid) rows)
      else find (\<lambda>r. gr_model_id r = mid) rows)"
  by (induction rows) (auto simp: replace_row_def)

lemma find_snoc: "find P (xs @ [x]) = (case find P xs of None \<Rightarrow> if P x then Some x else None | Some y \<Rightarrow> Some y)"
  by (induction xs) simp_all

lemma find_upsert:
  "find (\<lambda>r. gr_model_id r = mid) (fst (upsert_model row rows)) =
     (if mid = gr_model_id row
      then Some (case find (\<lambda>r. gr_model_id r = mid) rows of None \<Rightarrow> row | Some r \<Rightarrow> row\<lparr>gr_created_at := gr_created_at r\<rparr>)
      else find (\<lambda>r. gr_model_id r = mid) rows)"
proof (cases "find (\<lambda>r. gr_model_id r = gr_model_id row) rows")
  case None
  then have "fst (upsert_model row rows) = rows @ [row]"
    by (auto simp: upsert_model_def find_None_iff)
  then show ?thesis using None by (simp add: find_snoc split: option.split)
next
  case (Some r)
  then have "\<exists>r \<in> set rows. gr_model_id r = gr_model_id row" by (auto simp: find_Some_iff)
  then have "fst (upsert_model row rows) = replace_row row rows" by (simp add: upsert_model_def replace_row_def)
  then show ?thesis using Some by (simp add: find_replace)
qed

lemma finite_section: "finite {c. (k, c) \<in> set xs}"
  by (rule finite_subset [of _ "snd ` set xs"]) force+

definition versioned :: "model \<Rightarrow> model" where
  "versioned m = (if gm_version m = [] then m\<lparr>gm_version := ''v1''\<rparr> else m)"

lemma versioned_simps [simp]:
  "gm_model_id (versioned m) = gm_model_id m" "gm_capabilities (versioned m) = gm_capabilities m"
  "gm_labels (versioned m) = gm_labels m"
  by (simp_all add: versioned_def)

text \<open>The capabilities a registration leaves the model: those whose insert worked, and the old
  ones when the delete did not.\<close>

definition kept_capabilities :: "registry_db \<Rightarrow> bool \<Rightarrow> (string \<Rightarrow> bool) \<Rightarrow> model \<Rightarrow> string set" where
  "kept_capabilities db delete_works insert_works m =
     {c \<in> set (gm_capabilities m). insert_works c}
     \<union> {c. \<not> delete_works \<and> (gm_model_id m, c) \<in> set (gd_capabilities db)}"

lemma register_ok:
  assumes "register json db fails delete_works insert_works now m = (db', Inr created)"
  shows "gd_models db' = fst (upsert_model (new_row json now (versioned m)) (gd_models db))"
    and "gd_capabilities db' = foldl (\<lambda>caps cap. if insert_works cap then insert_capability (gm_model_id m) cap caps else caps)
       (if delete_works then filter (\<lambda>(mid, _). mid \<noteq> gm_model_id m) (gd_capabilities db) else gd_capabilities db)
       (gm_capabilities m)"
    and "created"
  using assms
  by (auto simp: register_def versioned_def [symmetric] upsert_model_def Let_def case_prod_unfold
      cong: if_cong split: if_splits option.splits)

lemma register_caps:
  assumes "register json db fails delete_works insert_works now m = (db', Inr created)"
    and "distinct (gd_capabilities db)" "0 < free"
  shows "load_caps free db' True (gm_model_id m) = Some (sorted_list_of_set (kept_capabilities db delete_works insert_works m))"
    and "mid \<noteq> gm_model_id m \<Longrightarrow> load_caps free db' True mid = load_caps free db True mid"
proof -
  let ?caps = "gd_capabilities db'"
  note caps = register_ok(2) [OF assms(1)]
  have d: "distinct ?caps" unfolding caps using assms(2) by (intro distinct_insert_capabilities) simp
  have s: "set ?caps = {(k, c) \<in> set (gd_capabilities db). delete_works \<longrightarrow> k \<noteq> gm_model_id m}
      \<union> {(gm_model_id m, c) |c. c \<in> set (gm_capabilities m) \<and> insert_works c}"
    unfolding caps set_insert_capabilities by auto
  have f: "finite (kept_capabilities db delete_works insert_works m)"
    using finite_section [of "gm_model_id m" "gd_capabilities db"] by (simp add: kept_capabilities_def)
  show "load_caps free db' True (gm_model_id m) = Some (sorted_list_of_set (kept_capabilities db delete_works insert_works m))"
    using assms(3) s by (simp add: load_caps_def) (intro sorted_caps [OF d _ f], auto simp: kept_capabilities_def)
  assume mid: "mid \<noteq> gm_model_id m"
  have "sort (map snd (filter (\<lambda>(k, _). k = mid) ?caps)) = sorted_list_of_set {c. (mid, c) \<in> set (gd_capabilities db)}"
    using s mid by (intro sorted_caps [OF d]) (auto simp: finite_section)
  moreover have "sort (map snd (filter (\<lambda>(k, _). k = mid) (gd_capabilities db))) = sorted_list_of_set {c. (mid, c) \<in> set (gd_capabilities db)}"
    by (intro sorted_caps [OF assms(2)]) (auto simp: finite_section)
  ultimately show "load_caps free db' True mid = load_caps free db True mid"
    by (simp add: load_caps_def)
qed

lemma register_get_parts:
  assumes r: "register json db fails delete_works insert_works now m = (db', Inr created)"
    and "distinct (gd_capabilities db)" "0 < free"
    and json: "json_unmarshal json (json_marshal json (gm_labels m)) = gm_labels m"
  shows "get_model json free db' None True (gm_model_id m) =
      Some (Inr (Some ((versioned m)\<lparr>gm_capabilities := sorted_list_of_set (kept_capabilities db delete_works insert_works m),
        gm_created_at := None, gm_updated_at := None\<rparr>)))"
    and "mid \<noteq> gm_model_id m \<Longrightarrow> get_model json free db' None True mid = get_model json free db None True mid"
proof -
  have id: "gr_model_id (new_row json now (versioned m)) = gm_model_id m" by (simp add: new_row_def)
  have find: "find (\<lambda>r. gr_model_id r = k) (gd_models db') =
      (if k = gm_model_id m
       then Some (case find (\<lambda>r. gr_model_id r = k) (gd_models db) of None \<Rightarrow> new_row json now (versioned m)
          | Some r \<Rightarrow> (new_row json now (versioned m))\<lparr>gr_created_at := gr_created_at r\<rparr>)
       else find (\<lambda>r. gr_model_id r = k) (gd_models db))" for k
    by (simp add: register_ok(1) [OF r] find_upsert id)
  have json': "json_unmarshal json (json_marshal json (gm_labels (versioned m))) = gm_labels (versioned m)"
    using json by simp
  have row: "model_of_row json ((new_row json now (versioned m))\<lparr>gr_created_at := t\<rparr>) caps =
      (versioned m)\<lparr>gm_capabilities := caps, gm_created_at := None, gm_updated_at := None\<rparr>" for t caps
    using json' by (cases "versioned m") (simp add: model_of_row_def new_row_def registry_b2i_def)
  have row0: "model_of_row json (new_row json now (versioned m)) caps =
      (versioned m)\<lparr>gm_capabilities := caps, gm_created_at := None, gm_updated_at := None\<rparr>" for caps
    using json' by (cases "versioned m") (simp add: model_of_row_def new_row_def registry_b2i_def)
  show "get_model json free db' None True (gm_model_id m) =
      Some (Inr (Some ((versioned m)\<lparr>gm_capabilities := sorted_list_of_set (kept_capabilities db delete_works insert_works m),
        gm_created_at := None, gm_updated_at := None\<rparr>)))"
    using assms(3) register_caps(1) [OF r assms(2,3)]
    by (cases "find (\<lambda>r. gr_model_id r = gm_model_id m) (gd_models db)") (simp_all add: get_model_def find id row row0)
  assume mid: "mid \<noteq> gm_model_id m"
  have f: "find (\<lambda>r. gr_model_id r = mid) (gd_models db') = find (\<lambda>r. gr_model_id r = mid) (gd_models db)"
    using mid by (simp add: find)
  show "get_model json free db' None True mid = get_model json free db None True mid"
  proof (cases "find (\<lambda>r. gr_model_id r = mid) (gd_models db)")
    case None
    then show ?thesis unfolding get_model_def f by simp
  next
    case (Some r')
    then have "gr_model_id r' = mid" by (auto simp: find_Some_iff)
    then show ?thesis
      unfolding get_model_def f Some using register_caps(2) [OF r assms(2,3) mid] by simp
  qed
qed

lemma list_models_parts:
  shows "list_models json 1 db None works enabled_only = None \<longleftrightarrow>
      (\<exists>r \<in> set (gd_models db). enabled_only \<longrightarrow> gr_enabled r = 1)"
    and "2 \<le> free \<Longrightarrow> \<forall>mid. works mid \<Longrightarrow> \<exists>ms. list_models json free db None works enabled_only = Some (Inr ms) \<and>
      map gm_model_id ms = map gr_model_id (sort_key gr_model_id
        (filter (\<lambda>r. enabled_only \<longrightarrow> gr_enabled r = 1) (gd_models db)))"
proof -
  have e: "sort_key gr_model_id rows = [] \<longleftrightarrow> rows = []" for rows :: "model_row list"
    by (metis set_empty set_sort)
  have l: "list_models json n db None works enabled_only =
      (if n = 0 then None else map_option Inr (list_loop json (n - 1) db works
         (sort_key gr_model_id (filter (\<lambda>r. enabled_only \<longrightarrow> gr_enabled r = 1) (gd_models db))) []))" for n
    by (cases enabled_only) (simp_all add: list_models_def Let_def)
  show "list_models json 1 db None works enabled_only = None \<longleftrightarrow>
      (\<exists>r \<in> set (gd_models db). enabled_only \<longrightarrow> gr_enabled r = 1)"
    unfolding l list_loop_eq e by (auto simp: filter_empty_conv)
  show "\<exists>ms. list_models json free db None works enabled_only = Some (Inr ms) \<and>
      map gm_model_id ms = map gr_model_id (sort_key gr_model_id
        (filter (\<lambda>r. enabled_only \<longrightarrow> gr_enabled r = 1) (gd_models db)))"
    if "2 \<le> free" "\<forall>mid. works mid"
    unfolding l list_loop_eq e using that by (simp add: model_of_row_def o_def)
qed

definition demo_registered :: model where
  "demo_registered = \<lparr>gm_model_id = ''m'', gm_version = [], gm_name = ''M'', gm_tier = ''small'',
     gm_capabilities = [''embed'', ''chat'', ''chat''], gm_cost_per_1k = f64_zero, gm_avg_latency_ms = 1, gm_max_tokens = 10,
     gm_executor_addr = ''a'', gm_enabled = True, gm_labels = None, gm_created_at = None, gm_updated_at = None\<rparr>"

definition demo_json :: json_labels where
  "demo_json = \<lparr>json_marshal = (\<lambda>l. case l of None \<Rightarrow> ''null'' | Some _ \<Rightarrow> ''{}''),
     json_unmarshal = (\<lambda>s. if s = ''null'' then None else Some Map.empty)\<rparr>"

definition empty_db :: registry_db where
  "empty_db = \<lparr>gd_models = [], gd_capabilities = []\<rparr>"

definition demo_db :: registry_db where
  "demo_db = fst (register demo_json empty_db None True (\<lambda>_. True) 0 demo_registered)"

lemma demo_register: "register demo_json empty_db None True (\<lambda>_. True) 0 demo_registered = (demo_db, Inr True)"
  by (simp add: demo_db_def register_def demo_registered_def empty_db_def upsert_model_def Let_def)

text \<open>C36. A model is read back as it was registered: whenever \<open>Register\<close> reports success, a \<open>Get\<close>
  that finds a connection and whose queries work returns the model with its fields and
  labels, and the version \<open>v1\<close> where it had none, whatever the registry held for it before;
  its capabilities come sorted and without duplicates, and they are the registered ones whose
  inserts worked together with the earlier ones if the delete failed (\<open>Register\<close> reports
  neither failure). The timestamps are not read. Success is always reported as a creation,
  and what \<open>Get\<close> returns for any other model is unchanged. The labels are assumed to survive
  JSON, and the capabilities table to hold no pair twice, which is its primary key.\<close>

theorem register_get:
  assumes "register json db fails delete_works insert_works now m = (db', Inr created)"
    and "distinct (gd_capabilities db)" "0 < free"
    and "json_unmarshal json (json_marshal json (gm_labels m)) = gm_labels m"
  shows "get_model json free db' None True (gm_model_id m) =
      Some (Inr (Some ((versioned m)\<lparr>gm_capabilities := sorted_list_of_set
          ({c \<in> set (gm_capabilities m). insert_works c}
           \<union> {c. \<not> delete_works \<and> (gm_model_id m, c) \<in> set (gd_capabilities db)}),
        gm_created_at := None, gm_updated_at := None\<rparr>)))
    \<and> created
    \<and> (mid \<noteq> gm_model_id m \<longrightarrow> get_model json free db' None True mid = get_model json free db None True mid)"
  using register_get_parts [OF assms] register_ok(3) [OF assms(1)] by (simp add: kept_capabilities_def)

theorem register_get_witness:
  "register demo_json demo_db None False (\<lambda>c. c = ''rank'') 5 (demo_registered\<lparr>gm_capabilities := [''rank'', ''x'']\<rparr>)
     = (fst (register demo_json demo_db None False (\<lambda>c. c = ''rank'') 5 (demo_registered\<lparr>gm_capabilities := [''rank'', ''x'']\<rparr>)), Inr True)
   \<and> get_model demo_json 1 (fst (register demo_json demo_db None False (\<lambda>c. c = ''rank'') 5
        (demo_registered\<lparr>gm_capabilities := [''rank'', ''x'']\<rparr>))) None True ''m'' =
     Some (Inr (Some (demo_registered\<lparr>gm_version := ''v1'', gm_capabilities := [''chat'', ''embed'', ''rank'']\<rparr>)))"
proof -
  let ?m = "demo_registered\<lparr>gm_capabilities := [''rank'', ''x'']\<rparr>"
  let ?db = "fst (register demo_json demo_db None False (\<lambda>c. c = ''rank'') 5 ?m)"
  have c: "gd_capabilities demo_db = [(''m'', ''embed''), (''m'', ''chat'')]"
    by (simp add: demo_db_def register_def demo_registered_def empty_db_def upsert_model_def insert_capability_def Let_def)
  have r: "register demo_json demo_db None False (\<lambda>c. c = ''rank'') 5 ?m = (?db, Inr True)"
    by (simp add: register_def demo_registered_def upsert_model_def Let_def case_prod_unfold)
  have "{c \<in> set [''rank'', ''x'']. c = ''rank''} \<union> {c. (''m'', c) \<in> set [(''m'', ''embed''), (''m'', ''chat'')]}
      = set [''chat'', ''embed'', ''rank'']" by auto
  moreover have "sorted_list_of_set (set [''chat'', ''embed'', ''rank'']) = [''chat'', ''embed'', ''rank'']"
    unfolding sorted_list_of_set_sort_remdups by code_simp
  ultimately show ?thesis
    using register_get [OF r, of 1 "''x''"] r c
    by (simp add: demo_registered_def demo_json_def versioned_def)
qed

text \<open>Listing the models blocks for ever on one connection: the rows of \<open>List\<close> hold a connection
  while \<open>loadCaps\<close> asks the pool for another, and the control plane's pool has one; so a working
  \<open>List\<close> of at least one model never returns, while with two free connections it returns every model
  in the order of the ids.\<close>

theorem list_models_needs_two:
  "(list_models json 1 db None works enabled_only = None \<longleftrightarrow>
      (\<exists>r \<in> set (gd_models db). enabled_only \<longrightarrow> gr_enabled r = 1)) \<and>
   (2 \<le> free \<and> (\<forall>mid. works mid) \<longrightarrow> (\<exists>ms. list_models json free db None works enabled_only = Some (Inr ms) \<and>
      map gm_model_id ms = map gr_model_id (sort_key gr_model_id
        (filter (\<lambda>r. enabled_only \<longrightarrow> gr_enabled r = 1) (gd_models db)))))"
  using list_models_parts(1) list_models_parts(2) by blast

theorem list_models_needs_two_witness:
  "list_models demo_json 1 demo_db None (\<lambda>_. True) False = None \<and>
   (\<exists>ms. list_models demo_json 2 demo_db None (\<lambda>_. True) False = Some (Inr ms))"
proof -
  have "gd_models demo_db = [new_row demo_json 0 (versioned demo_registered)]"
    by (simp add: register_ok(1) [OF demo_register] empty_db_def upsert_model_def)
  then show ?thesis
    using list_models_needs_two [of demo_json demo_db "\<lambda>_. True" False 2] by auto
qed

end
