(* ===== verification/Rollout.thy ===== *)
theory Rollout
  imports Shares "HOL-Library.List_Lexorder" "HOL-Library.Char_ord"
begin

section \<open>Rollouts\<close>

text \<open>
  \<open>services/control-plane/internal/rollout/rollout.go\<close>. The table \<open>rollouts\<close> is the list of its
  rows, whose primary key is the rollout's id, and \<open>rollout_metrics\<close> the list of its rows. The
  outcome of each statement is an argument (a database may fail), as are the times, the order
  of Go's iteration over a map, SQLite's \<open>AVG\<close> and \<open>fmt\<close>'s rendering of \<open>%.0f\<close>.
\<close>

record rollout_config =
  ro_id :: string
  ro_base :: string
  ro_canary :: string
  ro_pct :: f64
  ro_auto :: bool
  ro_max_p99_ratio :: f64
  ro_max_error_rate :: f64
  ro_enabled :: bool

record rollout_row =
  rr_id :: string
  rr_base :: string
  rr_canary :: string
  rr_pct :: f64
  rr_auto :: int
  rr_max_p99_ratio :: f64
  rr_max_error_rate :: f64
  rr_enabled :: int
  rr_rolled_back_at :: "time option"
  rr_reason :: "string option"

record window_metrics =
  wm_model_id :: string
  wm_window_key :: string
  wm_requests :: int64
  wm_errors :: int64
  wm_p99_ms :: f64
  wm_avg_tokens :: f64
  wm_total_cost :: f64

definition window_error_rate :: "window_metrics \<Rightarrow> f64" where
  "window_error_rate m =
    (if wm_requests m = 0 then f64_zero
     else f64_div (f64_of_int (sint (wm_errors m))) (f64_of_int (sint (wm_requests m))))"

record metrics_row =
  mr_rollout_id :: "string option"
  mr_metrics :: window_metrics

record manager =
  mg_rollouts :: "rollout_row list"
  mg_metrics :: "metrics_row list"
  mg_configs :: "string \<rightharpoonup> rollout_config"

definition new_manager :: "rollout_row list \<Rightarrow> metrics_row list \<Rightarrow> manager" where
  "new_manager rollouts metrics = \<lparr>mg_rollouts = rollouts, mg_metrics = metrics, mg_configs = Map.empty\<rparr>"

definition b2i :: "bool \<Rightarrow> int" where
  "b2i b = (if b then 1 else 0)"

subsection \<open>Operations\<close>

definition row_of :: "rollout_config \<Rightarrow> rollout_row" where
  "row_of cfg = \<lparr>rr_id = ro_id cfg, rr_base = ro_base cfg, rr_canary = ro_canary cfg, rr_pct = ro_pct cfg,
     rr_auto = b2i (ro_auto cfg), rr_max_p99_ratio = ro_max_p99_ratio cfg, rr_max_error_rate = ro_max_error_rate cfg,
     rr_enabled = b2i (ro_enabled cfg), rr_rolled_back_at = None, rr_reason = None\<rparr>"

definition insert_or_replace :: "rollout_row \<Rightarrow> rollout_row list \<Rightarrow> rollout_row list" where
  "insert_or_replace row rows = filter (\<lambda>r. rr_id r \<noteq> rr_id row) rows @ [row]"

text \<open>
  \<open>Upsert\<close> checks the configuration, runs its statement, and only then takes the mutex and
  writes the map; nothing holds the two together.
\<close>

definition upsert_check :: "rollout_config \<Rightarrow> err option" where
  "upsert_check cfg =
    (if ro_id cfg = [] then Some (Plain ''rollout_id required'')
     else if ro_base cfg = [] then Some (Plain ''base_model_id required'')
     else if ro_canary cfg = [] then Some (Plain ''canary_model_id required'')
     else if f64_lt (ro_pct cfg) f64_zero \<or> f64_lt f64_one (ro_pct cfg)
       then Some (Plain ''canary_pct must be between 0 and 1'')
     else None)"

definition upsert_statement :: "manager \<Rightarrow> rollout_config \<Rightarrow> manager" where
  "upsert_statement m cfg = m\<lparr>mg_rollouts := insert_or_replace (row_of cfg) (mg_rollouts m)\<rparr>"

definition upsert_entry :: "manager \<Rightarrow> rollout_config \<Rightarrow> manager" where
  "upsert_entry m cfg = m\<lparr>mg_configs := (mg_configs m)(ro_id cfg \<mapsto> cfg)\<rparr>"

text \<open>A call that no other call overlaps.\<close>

definition upsert :: "manager \<Rightarrow> err option \<Rightarrow> rollout_config \<Rightarrow> manager \<times> err option" where
  "upsert m fails cfg =
    (case upsert_check cfg of
       Some err \<Rightarrow> (m, Some err)
     | None \<Rightarrow>
         (case fails of
            Some err \<Rightarrow> (m, Some err)
          | None \<Rightarrow> (upsert_entry (upsert_statement m cfg) cfg, None)))"

definition config_of :: "rollout_row \<Rightarrow> rollout_config" where
  "config_of r = \<lparr>ro_id = rr_id r, ro_base = rr_base r, ro_canary = rr_canary r, ro_pct = rr_pct r,
     ro_auto = (rr_auto r = 1), ro_max_p99_ratio = rr_max_p99_ratio r, ro_max_error_rate = rr_max_error_rate r,
     ro_enabled = (rr_enabled r = 1)\<rparr>"

text \<open>\<open>List\<close>: the rows in the order of their ids.\<close>

definition list_rollouts :: "manager \<Rightarrow> err option \<Rightarrow> rollout_config list result" where
  "list_rollouts m fails =
    (case fails of Some err \<Rightarrow> Inl err | None \<Rightarrow> Inr (map config_of (sort_key rr_id (mg_rollouts m))))"

text \<open>\<open>UPDATE rollouts SET enabled=0, rolled_back_at=..., rollback_reason=?\<close> on one row.\<close>

definition disable_row :: "time \<Rightarrow> string \<Rightarrow> rollout_row \<Rightarrow> rollout_row" where
  "disable_row now reason r = r\<lparr>rr_enabled := 0, rr_rolled_back_at := Some now, rr_reason := Some reason\<rparr>"

text \<open>\<open>Rollback\<close> too: the statement first, then the map under the mutex.\<close>

definition rollback_statement :: "manager \<Rightarrow> time \<Rightarrow> string \<Rightarrow> string \<Rightarrow> manager" where
  "rollback_statement m now rollout_id reason =
    m\<lparr>mg_rollouts := map (\<lambda>r. if rr_id r = rollout_id then disable_row now reason r else r) (mg_rollouts m)\<rparr>"

definition rollback_entry :: "manager \<Rightarrow> string \<Rightarrow> manager" where
  "rollback_entry m rollout_id =
    (case mg_configs m rollout_id of
       Some cfg \<Rightarrow> m\<lparr>mg_configs := (mg_configs m)(rollout_id \<mapsto> cfg\<lparr>ro_enabled := False\<rparr>)\<rparr>
     | None \<Rightarrow> m)"

definition rollback :: "manager \<Rightarrow> err option \<Rightarrow> time \<Rightarrow> string \<Rightarrow> string \<Rightarrow> manager \<times> err option" where
  "rollback m fails now rollout_id reason =
    (case fails of
       Some err \<Rightarrow> (m, Some err)
     | None \<Rightarrow> (rollback_entry (rollback_statement m now rollout_id reason) rollout_id, None))"

lemmas rollout_parts = upsert_check_def upsert_statement_def upsert_entry_def rollback_statement_def rollback_entry_def

text \<open>The row gets the id of some enabled rollout of the model; \<open>LIMIT 1\<close> takes the first.\<close>

definition record_metrics :: "manager \<Rightarrow> bool \<Rightarrow> window_metrics \<Rightarrow> manager" where
  "record_metrics m works wm =
    (if works
     then m\<lparr>mg_metrics := mg_metrics m @
       [\<lparr>mr_rollout_id = map_option rr_id
           (find (\<lambda>r. (rr_base r = wm_model_id wm \<or> rr_canary r = wm_model_id wm) \<and> rr_enabled r = 1) (mg_rollouts m)),
         mr_metrics = wm\<rparr>]\<rparr>
     else m)"

text \<open>\<open>order\<close> lists the entries of the map in the order of the iteration.\<close>

definition rollout_weights :: "rollout_config list \<Rightarrow> string \<rightharpoonup> f64" where
  "rollout_weights order =
    foldl (\<lambda>weights cfg.
      if \<not> ro_enabled cfg then weights
      else weights(ro_base cfg \<mapsto> f64_sub f64_one (ro_pct cfg), ro_canary cfg \<mapsto> ro_pct cfg)) Map.empty order"

subsection \<open>Automatic rollback\<close>

text \<open>
  \<open>SELECT COALESCE(AVG(p99_latency_ms),0), COALESCE(SUM(error_count)*1.0/NULLIF(SUM(request_count),0),0)
  FROM rollout_metrics WHERE model_id = ? AND window_start >= ?\<close>; strings are compared bytewise.
\<close>

definition window_rows :: "metrics_row list \<Rightarrow> string \<Rightarrow> string \<Rightarrow> window_metrics list" where
  "window_rows rows model window =
    filter (\<lambda>m. wm_model_id m = model \<and> window \<le> wm_window_key m) (map mr_metrics rows)"

definition model_stats :: "(f64 list \<Rightarrow> f64) \<Rightarrow> metrics_row list \<Rightarrow> string \<Rightarrow> string \<Rightarrow> f64 \<times> f64" where
  "model_stats avg rows model window =
    (let ms = window_rows rows model window;
         errors = sum_list (map (sint \<circ> wm_errors) ms);
         requests = sum_list (map (sint \<circ> wm_requests) ms)
     in (if ms = [] then f64_zero else avg (map wm_p99_ms ms),
         if ms = [] \<or> requests = 0 then f64_zero else f64_div (f64_of_int errors) (f64_of_int requests)))"

text \<open>A query that fails leaves the variables zero.\<close>

definition should_rollback ::
  "(f64 list \<Rightarrow> f64) \<Rightarrow> calendar \<Rightarrow> manager \<Rightarrow> bool \<times> bool \<Rightarrow> time \<Rightarrow> rollout_config \<Rightarrow> bool" where
  "should_rollback avg cal m works now cfg =
    (let window = minute_key cal (now - 600 * second);
         (canary_p99, canary_err) = (if fst works then model_stats avg (mg_metrics m) (ro_canary cfg) window
                                     else (f64_zero, f64_zero));
         base_p99 = (if snd works then fst (model_stats avg (mg_metrics m) (ro_base cfg) window) else f64_zero)
     in if f64_lt (ro_max_error_rate cfg) canary_err then True
        else if f64_lt f64_zero base_p99 \<and> f64_lt (ro_max_p99_ratio cfg) (f64_div canary_p99 base_p99) then True
        else False)"

record eval_env =
  ev_list_fails :: "err option"
  ev_works :: "string \<Rightarrow> bool \<times> bool"
  ev_rollback_fails :: "string \<Rightarrow> err option"
  ev_now :: "string \<Rightarrow> time"

definition rollback_reason :: "(f64 \<Rightarrow> string) \<Rightarrow> rollout_config \<Rightarrow> string" where
  "rollback_reason fmt0 cfg = ''auto-rollback: canary metrics exceeded thresholds (pct='' @
     fmt0 (f64_mul (ro_pct cfg) (f64_of_int 100)) @ ''%)''"

definition evaluate_one ::
  "(f64 list \<Rightarrow> f64) \<Rightarrow> (f64 \<Rightarrow> string) \<Rightarrow> calendar \<Rightarrow> eval_env \<Rightarrow> manager \<Rightarrow> rollout_config \<Rightarrow> manager" where
  "evaluate_one avg fmt0 cal env m cfg =
    (if \<not> ro_enabled cfg \<or> \<not> ro_auto cfg then m
     else if should_rollback avg cal m (ev_works env (ro_id cfg)) (ev_now env (ro_id cfg)) cfg
     then fst (rollback m (ev_rollback_fails env (ro_id cfg)) (ev_now env (ro_id cfg)) (ro_id cfg) (rollback_reason fmt0 cfg))
     else m)"

definition evaluate_all :: "(f64 list \<Rightarrow> f64) \<Rightarrow> (f64 \<Rightarrow> string) \<Rightarrow> calendar \<Rightarrow> eval_env \<Rightarrow> manager \<Rightarrow> manager" where
  "evaluate_all avg fmt0 cal env m =
    (case list_rollouts m (ev_list_fails env) of
       Inl err \<Rightarrow> m
     | Inr configs \<Rightarrow> foldl (evaluate_one avg fmt0 cal env) m configs)"

subsection \<open>The memory and the table agree\<close>

definition valid_config :: "rollout_config \<Rightarrow> bool" where
  "valid_config cfg \<longleftrightarrow> ro_id cfg \<noteq> [] \<and> ro_base cfg \<noteq> [] \<and> ro_canary cfg \<noteq> [] \<and> f64_unit (ro_pct cfg)"

definition manager_inv :: "manager \<Rightarrow> bool" where
  "manager_inv m \<longleftrightarrow> distinct (map rr_id (mg_rollouts m)) \<and>
     (\<forall>rid cfg. mg_configs m rid = Some cfg \<longrightarrow>
        ro_id cfg = rid \<and> valid_config cfg \<and> cfg \<in> config_of ` set (mg_rollouts m))"

lemma filter_unique_key:
  assumes "distinct (map f xs)" "x \<in> set xs"
  shows "filter (\<lambda>y. f y = f x) xs = [x]"
  using assms by (induction xs) (auto simp: filter_empty_conv image_iff)

lemma config_of_row_of [simp]: "config_of (row_of cfg) = cfg"
  by (cases cfg) (simp add: config_of_def row_of_def b2i_def)

lemma config_of_id [simp]: "ro_id (config_of r) = rr_id r"
  by (simp add: config_of_def)

lemma rr_id_row_of [simp]: "rr_id (row_of cfg) = ro_id cfg"
  by (simp add: row_of_def)

lemma unit_range:
  assumes "\<not> f64_is_nan x" "\<not> f64_lt x f64_zero" "\<not> f64_lt f64_one x"
  shows "f64_unit x"
proof -
  have k: "0 \<le> f64_key x" "f64_key x \<le> f64_key f64_one"
    using assms by (simp_all add: f64_lt_def)
  then have "f64_finite x" using f64_finite_between [of f64_zero f64_one x] f64_one_props by simp
  then show ?thesis using k by (simp add: f64_unit_def)
qed

lemma manager_invI:
  assumes "distinct (map rr_id rows)"
    and "\<And>k c. configs k = Some c \<Longrightarrow> ro_id c = k \<and> valid_config c \<and> c \<in> config_of ` set rows"
  shows "manager_inv (m\<lparr>mg_rollouts := rows, mg_configs := configs\<rparr>)"
  using assms by (simp add: manager_inv_def)

lemma upsert_inv:
  assumes "manager_inv m" "\<not> f64_is_nan (ro_pct cfg)"
  shows "manager_inv (fst (upsert m fails cfg))"
proof (cases "snd (upsert m fails cfg) = None")
  case True
  then have v: "valid_config cfg"
    using unit_range assms(2) by (auto simp: upsert_def rollout_parts valid_config_def split: if_splits)
  have u: "fst (upsert m fails cfg) = m\<lparr>mg_rollouts := insert_or_replace (row_of cfg) (mg_rollouts m),
      mg_configs := (mg_configs m)(ro_id cfg \<mapsto> cfg)\<rparr>"
    using True by (auto simp: upsert_def rollout_parts split: if_splits option.splits)
  have d: "distinct (map rr_id (insert_or_replace (row_of cfg) (mg_rollouts m)))"
    using assms(1) by (auto simp: manager_inv_def insert_or_replace_def distinct_map_filter)
  have "c \<in> config_of ` set (insert_or_replace (row_of cfg) (mg_rollouts m))"
    if "((mg_configs m)(ro_id cfg \<mapsto> cfg)) rid = Some c" for rid c
  proof (cases "rid = ro_id cfg")
    case True
    then show ?thesis using that by (auto simp: insert_or_replace_def image_iff intro!: bexI [of _ "row_of cfg"])
  next
    case False
    then have "c \<in> config_of ` set (mg_rollouts m)" "ro_id c = rid"
      using that assms(1) unfolding manager_inv_def by auto
    then show ?thesis using False by (auto simp: insert_or_replace_def)
  qed
  then show ?thesis
    using assms(1) v d unfolding u manager_inv_def by (auto simp: map_upd_Some_iff)
next
  case False
  then have "fst (upsert m fails cfg) = m" by (auto simp: upsert_def split: option.splits)
  then show ?thesis using assms(1) by simp
qed

lemma config_of_disable [simp]: "config_of (disable_row now reason r) = (config_of r)\<lparr>ro_enabled := False\<rparr>"
  by (simp add: config_of_def disable_row_def)

lemma rr_id_disable [simp]: "rr_id (disable_row now reason r) = rr_id r"
  by (simp add: disable_row_def)

lemma rollback_inv:
  assumes "manager_inv m"
  shows "manager_inv (fst (rollback m fails now rid reason))"
proof (cases fails)
  case None
  let ?rows = "map (\<lambda>r. if rr_id r = rid then disable_row now reason r else r) (mg_rollouts m)"
  let ?configs = "\<lambda>k. if k = rid then map_option (\<lambda>c. c\<lparr>ro_enabled := False\<rparr>) (mg_configs m k) else mg_configs m k"
  have m: "fst (rollback m None now rid reason) = m\<lparr>mg_rollouts := ?rows, mg_configs := ?configs\<rparr>"
    by (cases "mg_configs m rid"; cases m) (auto simp: rollback_def rollout_parts fun_eq_iff)
  have ids: "map rr_id ?rows = map rr_id (mg_rollouts m)" by simp
  have "ro_id c = k \<and> valid_config c \<and> c \<in> config_of ` set ?rows" if k: "?configs k = Some c" for k c
  proof -
    obtain c0 where c0: "mg_configs m k = Some c0" "c = (if k = rid then c0\<lparr>ro_enabled := False\<rparr> else c0)"
      using k by (auto split: if_splits)
    then obtain r where r: "ro_id c0 = k" "valid_config c0" "r \<in> set (mg_rollouts m)" "c0 = config_of r"
      using assms unfolding manager_inv_def by blast
    then have "config_of (if rr_id r = rid then disable_row now reason r else r) = c" using c0(2) by auto
    moreover have "(if rr_id r = rid then disable_row now reason r else r) \<in> set ?rows" using r(3) by simp
    ultimately have "c \<in> config_of ` set ?rows" by blast
    then show ?thesis using r(1,2) c0(2) by (auto simp: valid_config_def)
  qed
  note entries = this
  have d: "distinct (map rr_id ?rows)" unfolding ids using assms by (simp add: manager_inv_def)
  show ?thesis unfolding None m by (rule manager_invI [OF d]) (rule entries)
qed (use assms in \<open>simp add: rollback_def\<close>)

subsection \<open>Overlapping calls\<close>

text \<open>
  Calls of \<open>Upsert\<close> and \<open>Rollback\<close> (the evaluation's too) from several goroutines: the manager
  and the writes to the map that are still to come. Statements exclude one another by the
  database's only connection, writes by the mutex. A share that is not a number cannot come
  out of JSON.
\<close>

datatype map_write = Put rollout_config | Disable string

fun written_id :: "map_write \<Rightarrow> string" where
  "written_id (Put cfg) = ro_id cfg"
| "written_id (Disable rid) = rid"

fun write_entry :: "manager \<Rightarrow> map_write \<Rightarrow> manager" where
  "write_entry m (Put cfg) = upsert_entry m cfg"
| "write_entry m (Disable rid) = rollback_entry m rid"

inductive manager_move :: "manager \<times> map_write list \<Rightarrow> manager \<times> map_write list \<Rightarrow> bool" where
  upserting: "upsert_check cfg = None \<Longrightarrow> \<not> f64_is_nan (ro_pct cfg) \<Longrightarrow>
    manager_move (m, ps) (upsert_statement m cfg, ps @ [Put cfg])"
| rolling_back: "manager_move (m, ps) (rollback_statement m now rid reason, ps @ [Disable rid])"
| writing: "p \<in> set ps \<Longrightarrow> manager_move (m, ps) (write_entry m p, remove1 p ps)"
| recording: "manager_move (m, ps) (record_metrics m works wm, ps)"

text \<open>A move after which no two calls for one rollout are under way.\<close>

definition orderly_move :: "manager \<times> map_write list \<Rightarrow> manager \<times> map_write list \<Rightarrow> bool" where
  "orderly_move s s' \<longleftrightarrow> manager_move s s' \<and> distinct (map written_id (snd s'))"

text \<open>The manager as it will be when the writes are done.\<close>

definition settled :: "manager \<Rightarrow> map_write list \<Rightarrow> manager" where
  "settled m ps = foldl write_entry m ps"

definition entry_change :: "map_write \<Rightarrow> rollout_config option \<Rightarrow> rollout_config option" where
  "entry_change p old =
    (case p of Put cfg \<Rightarrow> Some cfg | Disable rid \<Rightarrow> map_option (\<lambda>c. c\<lparr>ro_enabled := False\<rparr>) old)"

lemma write_entry_eq:
  "write_entry m p = m\<lparr>mg_configs := (mg_configs m)(written_id p := entry_change p (mg_configs m (written_id p)))\<rparr>"
proof (cases p)
  case (Disable rid)
  then show ?thesis
    by (cases "mg_configs m rid"; cases m) (auto simp: rollback_entry_def entry_change_def fun_upd_idem)
qed (simp add: upsert_entry_def entry_change_def)

lemma write_entry_commute:
  "written_id p \<noteq> written_id q \<Longrightarrow> write_entry (write_entry m p) q = write_entry (write_entry m q) p"
  by (simp add: write_entry_eq fun_upd_twist)

lemma settled_front:
  assumes "p \<in> set ps" "distinct (map written_id ps)"
  shows "settled m ps = settled (write_entry m p) (remove1 p ps)"
  using assms
proof (induction ps arbitrary: m)
  case (Cons q ps)
  show ?case
  proof (cases "p = q")
    case False
    then have "p \<in> set ps" "distinct (map written_id ps)" "written_id q \<notin> written_id ` set ps"
      using Cons.prems by auto
    moreover from this have "written_id p \<noteq> written_id q" by (metis imageI)
    ultimately have "p \<in> set ps" "distinct (map written_id ps)" "written_id p \<noteq> written_id q" by simp_all
    then show ?thesis using Cons.IH [of "write_entry m q"] False by (simp add: settled_def write_entry_commute)
  qed (simp add: settled_def)
qed simp

lemma settled_frame:
  "mg_rollouts (settled m ps) = mg_rollouts m" "mg_metrics (settled m ps) = mg_metrics m"
  "rid \<notin> written_id ` set ps \<Longrightarrow> mg_configs (settled m ps) rid = mg_configs m rid"
  by (induction ps arbitrary: m) (simp_all add: settled_def write_entry_eq)

lemma write_entry_statement:
  "write_entry (upsert_statement m cfg) p = upsert_statement (write_entry m p) cfg"
  "write_entry (rollback_statement m now rid reason) p = rollback_statement (write_entry m p) now rid reason"
  "write_entry (record_metrics m works wm) p = record_metrics (write_entry m p) works wm"
  by (simp_all add: write_entry_eq upsert_statement_def rollback_statement_def record_metrics_def)

lemma settled_statement:
  "settled (upsert_statement m cfg) ps = upsert_statement (settled m ps) cfg"
  "settled (rollback_statement m now rid reason) ps = rollback_statement (settled m ps) now rid reason"
  "settled (record_metrics m works wm) ps = record_metrics (settled m ps) works wm"
  by (induction ps arbitrary: m)
    (simp_all add: settled_def write_entry_statement)

text \<open>Orderly overlapping calls are calls one after the other.\<close>

lemma orderly_move_step:
  assumes "orderly_move (m, ps) (m', ps')" "distinct (map written_id ps)" "manager_inv (settled m ps)"
  shows "manager_inv (settled m' ps') \<and> distinct (map written_id ps')"
proof -
  have d: "distinct (map written_id ps')" and "manager_move (m, ps) (m', ps')"
    using assms(1) by (simp_all add: orderly_move_def)
  from this(2) have "manager_inv (settled m' ps')"
  proof cases
    case (upserting cfg)
    have "settled m' ps' = fst (upsert (settled m ps) None cfg)"
      using upserting by (simp add: settled_def [of _ "_ @ _"] settled_def [symmetric] settled_statement upsert_def)
    then show ?thesis using upsert_inv [OF assms(3) upserting(4), of None] by simp
  next
    case (rolling_back now rid reason)
    have "settled m' ps' = fst (rollback (settled m ps) None now rid reason)"
      using rolling_back by (simp add: settled_def [of _ "_ @ _"] settled_def [symmetric] settled_statement rollback_def)
    then show ?thesis using rollback_inv [OF assms(3), of None] by simp
  next
    case (writing p)
    then show ?thesis using settled_front [OF writing(3) assms(2)] assms(3) by simp
  next
    case (recording works wm)
    then have "settled m' ps' = record_metrics (settled m ps) works wm" by (simp add: settled_statement)
    then show ?thesis using assms(3) by (simp add: record_metrics_def manager_inv_def)
  qed
  with d show ?thesis by simp
qed

lemma orderly_run_inv:
  assumes "orderly_move\<^sup>*\<^sup>* (new_manager rows metrics, []) (m, ps)" "distinct (map rr_id rows)"
  shows "manager_inv (settled m ps)"
proof -
  have "manager_inv (settled (fst s) (snd s)) \<and> distinct (map written_id (snd s))"
    if "orderly_move\<^sup>*\<^sup>* (new_manager rows metrics, []) s" for s
    using that
  proof (induction rule: rtranclp_induct)
    case base
    then show ?case using assms(2) by (simp add: settled_def manager_inv_def new_manager_def)
  next
    case (step s s')
    then show ?case using orderly_move_step [of "fst s" "snd s" "fst s'" "snd s'"] by simp
  qed
  from this [OF assms(1)] show ?thesis by simp
qed

text \<open>C33. As long as no two calls for one rollout overlap, the manager's memory does not
  contradict its table: after any interleaving of upserts, rollbacks (an evaluation's too) and
  recorded metrics whose statements succeed (a call whose check or statement fails changes
  nothing), every configuration in memory that no call under way is about to write is the one
  that \<open>List\<close> reads back from the table under the same id; it names a rollout, a base and a
  canary model, and its canary share is between 0 and 1.\<close>

theorem memory_matches_table:
  assumes "orderly_move\<^sup>*\<^sup>* (new_manager rows metrics, []) (m, ps)" "distinct (map rr_id rows)"
    and "mg_configs m rid = Some cfg" "rid \<notin> written_id ` set ps"
  shows "\<exists>cfgs. list_rollouts m None = Inr cfgs \<and> filter (\<lambda>c. ro_id c = rid) cfgs = [cfg] \<and> valid_config cfg"
proof -
  let ?m = "settled m ps"
  have inv: "manager_inv ?m" using assms(1,2) by (rule orderly_run_inv)
  have c: "mg_configs ?m rid = Some cfg" using assms(3,4) by (simp add: settled_frame)
  then obtain r where r: "r \<in> set (mg_rollouts m)" "config_of r = cfg" "ro_id cfg = rid" "valid_config cfg"
    using inv unfolding manager_inv_def settled_frame by blast
  have d: "distinct (map rr_id (sort_key rr_id (mg_rollouts m)))"
    using inv by (simp add: manager_inv_def distinct_map settled_frame)
  have rid: "rid = rr_id r" using r(2,3) by auto
  have "filter (\<lambda>x. rr_id x = rid) (sort_key rr_id (mg_rollouts m)) = [r]"
    unfolding rid by (rule filter_unique_key [OF d]) (simp add: r(1))
  then show ?thesis using r(2,4) by (simp add: list_rollouts_def filter_map o_def)
qed

definition demo_rollout :: rollout_config where
  "demo_rollout = \<lparr>ro_id = ''r'', ro_base = ''b'', ro_canary = ''c'', ro_pct = f64_const 1 10, ro_auto = True,
     ro_max_p99_ratio = f64_of_int 2, ro_max_error_rate = f64_const 5 100, ro_enabled = True\<rparr>"

lemma demo_pct: "f64_unit (ro_pct demo_rollout)"
  unfolding demo_rollout_def by (simp add: f64_unit_constI)

lemma demo_check: "upsert_check demo_rollout = None" "\<not> f64_is_nan (ro_pct demo_rollout)"
  "upsert_check (demo_rollout\<lparr>ro_enabled := False\<rparr>) = None"
proof -
  have "\<not> f64_lt (ro_pct demo_rollout) f64_zero \<and> \<not> f64_lt f64_one (ro_pct demo_rollout)"
    using demo_pct by (simp add: f64_unit_def f64_lt_def)
  then show "upsert_check demo_rollout = None" "upsert_check (demo_rollout\<lparr>ro_enabled := False\<rparr>) = None"
    by (simp_all add: upsert_check_def) (simp_all add: demo_rollout_def)
  show "\<not> f64_is_nan (ro_pct demo_rollout)" using f64_unit_not_nan [OF demo_pct] by simp
qed

theorem memory_matches_table_witness:
  "\<exists>m cfgs. orderly_move\<^sup>*\<^sup>* (new_manager [] [], []) (m, [Put (demo_rollout\<lparr>ro_id := ''s''\<rparr>)])
     \<and> list_rollouts m None = Inr cfgs \<and> filter (\<lambda>c. ro_id c = ''r'') cfgs = [demo_rollout] \<and> valid_config demo_rollout"
proof -
  let ?s = "demo_rollout\<lparr>ro_id := ''s''\<rparr>"
  have id: "ro_id demo_rollout = ''r''" by (simp add: demo_rollout_def)
  have s: "upsert_check ?s = None" "\<not> f64_is_nan (ro_pct ?s)"
    using demo_check by (auto simp: upsert_check_def split: if_splits)
  let ?m0 = "new_manager [] []"
  let ?m1 = "upsert_statement ?m0 demo_rollout"
  let ?m2 = "upsert_statement ?m1 ?s"
  let ?m3 = "write_entry ?m2 (Put demo_rollout)"
  have "orderly_move (?m0, []) (?m1, [Put demo_rollout])"
    using upserting [OF demo_check(1,2), of ?m0 "[]"] by (simp add: orderly_move_def)
  moreover have "orderly_move (?m1, [Put demo_rollout]) (?m2, [Put demo_rollout, Put ?s])"
    using upserting [OF s, of ?m1 "[Put demo_rollout]"] by (simp add: orderly_move_def id)
  moreover have "orderly_move (?m2, [Put demo_rollout, Put ?s]) (?m3, [Put ?s])"
    using writing [of "Put demo_rollout" "[Put demo_rollout, Put ?s]" ?m2] by (simp add: orderly_move_def)
  ultimately have run: "orderly_move\<^sup>*\<^sup>* (?m0, []) (?m3, [Put ?s])"
    by (meson converse_rtranclp_into_rtranclp rtranclp.rtrancl_refl)
  have "mg_configs ?m3 ''r'' = Some demo_rollout" by (simp add: upsert_entry_def id)
  then show ?thesis using memory_matches_table [OF run, of "''r''" demo_rollout] run by auto
qed

subsection \<open>What an evaluation rolls back\<close>

text \<open>The rollouts that an evaluation is meant to stop.\<close>

definition failing :: "(f64 list \<Rightarrow> f64) \<Rightarrow> calendar \<Rightarrow> eval_env \<Rightarrow> manager \<Rightarrow> rollout_config \<Rightarrow> bool" where
  "failing avg cal env m cfg \<longleftrightarrow> ro_enabled cfg \<and> ro_auto cfg \<and>
     should_rollback avg cal m (ev_works env (ro_id cfg)) (ev_now env (ro_id cfg)) cfg"

abbreviation stopped :: "(f64 \<Rightarrow> string) \<Rightarrow> eval_env \<Rightarrow> rollout_config \<Rightarrow> rollout_row \<Rightarrow> rollout_row" where
  "stopped fmt0 env cfg r \<equiv> disable_row (ev_now env (ro_id cfg)) (rollback_reason fmt0 cfg) r"

lemma should_rollback_metrics:
  "mg_metrics m' = mg_metrics m \<Longrightarrow> should_rollback avg cal m' works now cfg = should_rollback avg cal m works now cfg"
  by (simp add: should_rollback_def)

lemma evaluate_one_effect:
  assumes "ev_rollback_fails env = (\<lambda>_. None)"
  shows "mg_metrics (evaluate_one avg fmt0 cal env m cfg) = mg_metrics m"
    and "mg_rollouts (evaluate_one avg fmt0 cal env m cfg) =
      map (\<lambda>r. if failing avg cal env m cfg \<and> rr_id r = ro_id cfg then stopped fmt0 env cfg r else r) (mg_rollouts m)"
    and "mg_configs (evaluate_one avg fmt0 cal env m cfg) k =
      (if failing avg cal env m cfg \<and> k = ro_id cfg then map_option (\<lambda>c. c\<lparr>ro_enabled := False\<rparr>) (mg_configs m k)
       else mg_configs m k)"
  using assms by (auto simp: evaluate_one_def failing_def rollback_def rollout_parts split: option.split)

lemma evaluate_list_effect:
  assumes "ev_rollback_fails env = (\<lambda>_. None)" "distinct (map ro_id cs)"
  shows "mg_metrics (foldl (evaluate_one avg fmt0 cal env) m cs) = mg_metrics m \<and>
    mg_rollouts (foldl (evaluate_one avg fmt0 cal env) m cs) =
      map (\<lambda>r. case find (\<lambda>c. ro_id c = rr_id r) cs of None \<Rightarrow> r
        | Some c \<Rightarrow> if failing avg cal env m c then stopped fmt0 env c r else r) (mg_rollouts m) \<and>
    mg_configs (foldl (evaluate_one avg fmt0 cal env) m cs) = (\<lambda>k.
      case find (\<lambda>c. ro_id c = k) cs of None \<Rightarrow> mg_configs m k
        | Some c \<Rightarrow> if failing avg cal env m c then map_option (\<lambda>c. c\<lparr>ro_enabled := False\<rparr>) (mg_configs m k) else mg_configs m k)"
  using assms(2)
proof (induction cs arbitrary: m)
  case (Cons c cs)
  let ?m = "evaluate_one avg fmt0 cal env m c"
  have f: "failing avg cal env ?m = failing avg cal env m"
    using should_rollback_metrics [OF evaluate_one_effect(1) [OF assms(1), of avg fmt0 cal m c]]
    by (simp add: failing_def fun_eq_iff)
  have n: "find (\<lambda>c'. ro_id c' = ro_id c) cs = None"
    using Cons.prems by (auto simp: find_None_iff image_iff)
  have d: "distinct (map ro_id cs)" using Cons.prems by simp
  show ?case
    unfolding foldl_Cons Cons.IH [OF d, of ?m, THEN conjunct1] Cons.IH [OF d, of ?m, THEN conjunct2, THEN conjunct1]
      Cons.IH [OF d, of ?m, THEN conjunct2, THEN conjunct2] f evaluate_one_effect(1,2) [OF assms(1)] list.map_comp
    using n by (auto simp: fun_eq_iff evaluate_one_effect(3) [OF assms(1)] split: option.split)
qed simp

lemma find_unique_key: "distinct (map f xs) \<Longrightarrow> x \<in> set xs \<Longrightarrow> find (\<lambda>y. f y = f x) xs = Some x"
  by (induction xs) (auto simp: image_iff)

lemma find_map: "find P (map f xs) = map_option f (find (P \<circ> f) xs)"
  by (induction xs) simp_all

lemma find_config:
  assumes "distinct (map rr_id rows)" "r \<in> set rows"
  shows "find (\<lambda>c. ro_id c = rr_id r) (map config_of (sort_key rr_id rows)) = Some (config_of r)"
  using find_unique_key [of rr_id "sort_key rr_id rows" r] assms by (simp add: find_map o_def distinct_map)

lemma evaluation_parts:
  assumes "ev_list_fails env = None" "ev_rollback_fails env = (\<lambda>_. None)"
    and "distinct (map rr_id (mg_rollouts m))"
  shows "mg_rollouts (evaluate_all avg fmt0 cal env m) = map (\<lambda>r.
      if failing avg cal env m (config_of r)
      then r\<lparr>rr_enabled := 0, rr_rolled_back_at := Some (ev_now env (rr_id r)),
             rr_reason := Some (rollback_reason fmt0 (config_of r))\<rparr>
      else r) (mg_rollouts m)"
    and "r \<in> set (mg_rollouts m) \<Longrightarrow> failing avg cal env m (config_of r) \<Longrightarrow>
      mg_configs (evaluate_all avg fmt0 cal env m) (rr_id r) = Some cfg \<Longrightarrow> \<not> ro_enabled cfg"
proof -
  let ?cs = "map config_of (sort_key rr_id (mg_rollouts m))"
  have e: "evaluate_all avg fmt0 cal env m = foldl (evaluate_one avg fmt0 cal env) m ?cs"
    by (simp add: evaluate_all_def list_rollouts_def assms(1))
  have d: "distinct (map ro_id ?cs)" using assms(3) by (simp add: o_def distinct_map)
  note effect = evaluate_list_effect [OF assms(2) d, of avg fmt0 cal m]
  show "mg_rollouts (evaluate_all avg fmt0 cal env m) = map (\<lambda>r.
      if failing avg cal env m (config_of r)
      then r\<lparr>rr_enabled := 0, rr_rolled_back_at := Some (ev_now env (rr_id r)),
             rr_reason := Some (rollback_reason fmt0 (config_of r))\<rparr>
      else r) (mg_rollouts m)"
    unfolding e effect [THEN conjunct2, THEN conjunct1] map_eq_conv
    by (simp add: find_config [OF assms(3)] disable_row_def)
  show "\<not> ro_enabled cfg" if "r \<in> set (mg_rollouts m)" "failing avg cal env m (config_of r)"
    "mg_configs (evaluate_all avg fmt0 cal env m) (rr_id r) = Some cfg"
    using that(3) unfolding e effect [THEN conjunct2, THEN conjunct2] by (auto simp: find_config [OF assms(3) that(1)] that(2))
qed

text \<open>
  The criterion, stated without the code's queries: of the metrics of a model whose window
  began at most ten minutes ago, the summed errors over the summed requests, and the average
  of the latencies, both zero where there are none (or the query failed).
\<close>

definition recent_metrics :: "calendar \<Rightarrow> time \<Rightarrow> manager \<Rightarrow> bool \<Rightarrow> string \<Rightarrow> window_metrics list" where
  "recent_metrics cal now m works model =
    (if works then filter (\<lambda>wm. wm_model_id wm = model \<and>
       \<not> wm_window_key wm < minute_key cal (now - 10 * (60 * second))) (map mr_metrics (mg_metrics m)) else [])"

definition canary_fails :: "(f64 list \<Rightarrow> f64) \<Rightarrow> calendar \<Rightarrow> eval_env \<Rightarrow> manager \<Rightarrow> rollout_row \<Rightarrow> bool" where
  "canary_fails avg cal env m r \<longleftrightarrow>
    (let now = ev_now env (rr_id r);
         canary = recent_metrics cal now m (fst (ev_works env (rr_id r))) (rr_canary r);
         base = recent_metrics cal now m (snd (ev_works env (rr_id r))) (rr_base r);
         errors = (\<Sum>wm \<leftarrow> canary. sint (wm_errors wm));
         requests = (\<Sum>wm \<leftarrow> canary. sint (wm_requests wm));
         rate = (if requests = 0 then f64_zero else f64_div (f64_of_int errors) (f64_of_int requests));
         p99 = (\<lambda>wms. if wms = [] then f64_zero else avg (map wm_p99_ms wms))
     in rr_enabled r = 1 \<and> rr_auto r = 1
        \<and> (f64_lt (rr_max_error_rate r) rate
           \<or> f64_lt f64_zero (p99 base) \<and> f64_lt (rr_max_p99_ratio r) (f64_div (p99 canary) (p99 base))))"

lemma recent_rows:
  "recent_metrics cal now m works model =
    (if works then window_rows (mg_metrics m) model (minute_key cal (now - 600 * second)) else [])"
  by (simp add: recent_metrics_def window_rows_def not_less)

lemma failing_canary: "failing avg cal env m (config_of r) \<longleftrightarrow> canary_fails avg cal env m r"
  by (auto simp: failing_def canary_fails_def should_rollback_def model_stats_def recent_rows config_of_def
      o_def case_prod_unfold Let_def)


text \<open>A canary with six errors in ten requests.\<close>

definition demo_window :: window_metrics where
  "demo_window = \<lparr>wm_model_id = ''c'', wm_window_key = ''9'', wm_requests = 10, wm_errors = 6,
     wm_p99_ms = f64_one, wm_avg_tokens = f64_one, wm_total_cost = f64_one\<rparr>"

definition demo_eval :: eval_env where
  "demo_eval = \<lparr>ev_list_fails = None, ev_works = (\<lambda>_. (True, True)), ev_rollback_fails = (\<lambda>_. None), ev_now = (\<lambda>_. 7)\<rparr>"


subsection \<open>Two calls for one rollout\<close>

lemma evaluate_one_other:
  "ro_id cfg = rid \<Longrightarrow> \<not> ro_enabled cfg \<Longrightarrow> mg_configs (evaluate_one avg fmt0 cal env m cfg) rid = mg_configs m rid"
  "ro_id cfg \<noteq> rid \<Longrightarrow> mg_configs (evaluate_one avg fmt0 cal env m cfg) rid = mg_configs m rid"
  by (auto simp: evaluate_one_def rollback_def rollout_parts split: option.split)

lemma evaluate_all_other:
  assumes "\<forall>r \<in> set (mg_rollouts m). rr_id r = rid \<longrightarrow> rr_enabled r \<noteq> 1"
  shows "mg_configs (evaluate_all avg fmt0 cal env m) rid = mg_configs m rid"
proof -
  have "mg_configs (foldl (evaluate_one avg fmt0 cal env) m cs) rid = mg_configs m rid"
    if "\<forall>c \<in> set cs. ro_id c = rid \<longrightarrow> \<not> ro_enabled c" for cs
    using that
  proof (induction cs arbitrary: m)
    case (Cons c cs)
    then show ?case using evaluate_one_other [of c rid] by (cases "ro_id c = rid") simp_all
  qed simp
  then show ?thesis
    using assms by (auto simp: evaluate_all_def list_rollouts_def config_of_def split: option.split)
qed



subsection \<open>Weights\<close>

interpretation manager_shares: shares rollout_weights ro_enabled ro_base ro_canary ro_pct
  by unfold_locales (simp_all add: rollout_weights_def)

text \<open>The weights that the router polls: whatever the order of the iteration over the rollouts,
  every weight is a share between 0 and 1 and belongs to the base or the canary of an enabled rollout;
  a rollout whose two models no other enabled rollout names gives its canary the canary share and its
  base the rest; and the models of rollouts that are all disabled have no weight at all.\<close>

theorem rollout_weights_shares:
  assumes "\<forall>cfg \<in> set order. f64_unit (ro_pct cfg)"
  shows "(rollout_weights order model = Some w \<longrightarrow>
      f64_unit w \<and> (\<exists>cfg \<in> set order. ro_enabled cfg \<and> model \<in> {ro_base cfg, ro_canary cfg})) \<and>
    (cfg \<in> set order \<and> ro_enabled cfg \<and> ro_base cfg \<noteq> ro_canary cfg \<and>
      (\<forall>c \<in> set order. ro_enabled c \<and> c \<noteq> cfg \<longrightarrow> {ro_base c, ro_canary c} \<inter> {ro_base cfg, ro_canary cfg} = {}) \<longrightarrow>
      rollout_weights order (ro_base cfg) = Some (f64_sub f64_one (ro_pct cfg)) \<and>
      rollout_weights order (ro_canary cfg) = Some (ro_pct cfg)) \<and>
    ((\<forall>cfg \<in> set order. model \<in> {ro_base cfg, ro_canary cfg} \<longrightarrow> \<not> ro_enabled cfg) \<longrightarrow> rollout_weights order model = None)"
  using manager_shares.weight_unit [OF assms] manager_shares.weight_owner [of order model w]
    manager_shares.weight_alone [of cfg order] manager_shares.no_weight [of order model] by blast

theorem rollout_weights_shares_witness:
  "rollout_weights [demo_rollout] ''b'' = Some (f64_sub f64_one (f64_const 1 10)) \<and>
   rollout_weights [demo_rollout] ''c'' = Some (f64_const 1 10) \<and>
   rollout_weights [demo_rollout\<lparr>ro_enabled := False\<rparr>] ''c'' = None"
proof -
  have "rollout_weights [demo_rollout] (ro_base demo_rollout) = Some (f64_sub f64_one (ro_pct demo_rollout)) \<and>
      rollout_weights [demo_rollout] (ro_canary demo_rollout) = Some (ro_pct demo_rollout)"
    using rollout_weights_shares [of "[demo_rollout]" "''b''" f64_zero demo_rollout]
    by (simp add: demo_pct) (simp add: demo_rollout_def)
  moreover have "rollout_weights [demo_rollout\<lparr>ro_enabled := False\<rparr>] ''c'' = None"
    using rollout_weights_shares [of "[demo_rollout\<lparr>ro_enabled := False\<rparr>]" "''c''" f64_zero demo_rollout]
    by (simp add: demo_pct)
  ultimately show ?thesis by (simp add: demo_rollout_def)
qed

end
