(* ===== verification/Quota.thy ===== *)
theory Quota
  imports TtlCache UnitInterval
begin

section \<open>Quotas\<close>

text \<open>
  \<open>services/control-plane/internal/quota/quota.go\<close>. The tables \<open>quotas\<close> and
  \<open>quota_usage\<close> are maps from their primary keys; the statements that the code sends are
  written out on them. The time of each \<open>time.Now\<close> and the outcome of each statement (a
  database may fail) are arguments. \<open>time.Format\<close> in the two layouts that the code uses is
  a \<open>calendar\<close>. A stored token count is an integer; where it does not fit the \<open>int64\<close> that
  it is scanned into, the scan fails.
\<close>

record quota_config =
  qc_tenant_id :: string
  qc_tokens_per_minute :: int64
  qc_tokens_per_day :: int64
  qc_budget_usd_per_day :: f64
  qc_max_context_tokens :: int32

definition default_quota :: "string \<Rightarrow> quota_config" where
  "default_quota tenant = \<lparr>qc_tenant_id = tenant, qc_tokens_per_minute = 100000, qc_tokens_per_day = 5000000,
     qc_budget_usd_per_day = f64_of_int 50, qc_max_context_tokens = 8192\<rparr>"

record usage =
  us_config :: "quota_config option"
  us_used_today :: int64
  us_spent_today :: f64
  us_used_minute :: int64
  us_window_key :: string

text \<open>A nil \<open>Config\<close> panics.\<close>

definition tokens_remaining_day :: "usage \<Rightarrow> int64 option" where
  "tokens_remaining_day u = map_option (\<lambda>cfg.
     let rem = qc_tokens_per_day cfg - us_used_today u in if sint rem < 0 then 0 else rem) (us_config u)"

definition budget_remaining_day :: "usage \<Rightarrow> f64 option" where
  "budget_remaining_day u = map_option (\<lambda>cfg.
     let rem = f64_sub (qc_budget_usd_per_day cfg) (us_spent_today u)
     in if f64_lt rem f64_zero then f64_zero else rem) (us_config u)"

record check_result =
  cr_allowed :: bool
  cr_reason :: string

definition quota_allowed :: check_result where
  "quota_allowed = \<lparr>cr_allowed = True, cr_reason = []\<rparr>"
definition denied_token_day :: check_result where
  "denied_token_day = \<lparr>cr_allowed = False, cr_reason = ''daily token quota exceeded''\<rparr>"
definition denied_budget_day :: check_result where
  "denied_budget_day = \<lparr>cr_allowed = False, cr_reason = ''daily spend budget exceeded''\<rparr>"
definition denied_token_minute :: check_result where
  "denied_token_minute = \<lparr>cr_allowed = False, cr_reason = ''per-minute token quota exceeded''\<rparr>"
definition denied_context :: check_result where
  "denied_context = \<lparr>cr_allowed = False, cr_reason = ''context length exceeds tenant maximum''\<rparr>"

lemmas check_results = quota_allowed_def denied_token_day_def denied_budget_day_def denied_token_minute_def denied_context_def

record config_entry =
  ce_cfg :: quota_config
  ce_fetched_at :: time

record minute_counter =
  mc_used :: int64
  mc_window :: string

text \<open>The rows of \<open>quota_usage\<close>: tokens and cost by tenant, window key and window type.\<close>

record quota_tables =
  qt_quotas :: "string \<rightharpoonup> quota_config"
  qt_usage :: "string \<times> string \<times> string \<rightharpoonup> int \<times> f64"

record enforcer =
  qe_db :: quota_tables
  qe_cache :: "string \<rightharpoonup> config_entry"
  qe_minute_counts :: "string \<rightharpoonup> minute_counter"

definition new_enforcer :: "quota_tables \<Rightarrow> enforcer" where
  "new_enforcer db = \<lparr>qe_db = db, qe_cache = Map.empty, qe_minute_counts = Map.empty\<rparr>"

subsection \<open>Configurations\<close>

definition cached_config :: "enforcer \<Rightarrow> string \<Rightarrow> time \<Rightarrow> quota_config option" where
  "cached_config e tenant now =
    (case qe_cache e tenant of
       Some entry \<Rightarrow> if time_sub now (ce_fetched_at entry) < 60 * second then Some (ce_cfg entry) else None
     | None \<Rightarrow> None)"

definition cache_config :: "enforcer \<Rightarrow> string \<Rightarrow> quota_config \<Rightarrow> time \<Rightarrow> enforcer" where
  "cache_config e tenant cfg t = e\<lparr>qe_cache := (qe_cache e)(tenant \<mapsto> \<lparr>ce_cfg = cfg, ce_fetched_at = t\<rparr>)\<rparr>"

text \<open>\<open>SELECT ... FROM quotas WHERE tenant_id = ?\<close>; an error of the driver and a missing row both give nil.\<close>

definition select_quota :: "bool \<Rightarrow> quota_tables \<Rightarrow> string \<Rightarrow> quota_config option" where
  "select_quota works db tenant = (if works then map_option (\<lambda>cfg. cfg\<lparr>qc_tenant_id := tenant\<rparr>) (qt_quotas db tenant) else None)"

definition load_config :: "enforcer \<Rightarrow> bool \<Rightarrow> string \<Rightarrow> time \<Rightarrow> time \<Rightarrow> enforcer \<times> quota_config option" where
  "load_config e works tenant now t =
    (case cached_config e tenant now of
       Some cfg \<Rightarrow> (e, Some cfg)
     | None \<Rightarrow> (case select_quota works (qe_db e) tenant of
         None \<Rightarrow> (e, None)
       | Some cfg \<Rightarrow> (cache_config e tenant cfg t, Some cfg)))"

definition upsert_config :: "enforcer \<Rightarrow> err option \<Rightarrow> quota_config \<Rightarrow> time \<Rightarrow> enforcer \<times> err option" where
  "upsert_config e fails cfg t =
    (case fails of
       Some err \<Rightarrow> (e, Some err)
     | None \<Rightarrow>
         let db = (qe_db e)\<lparr>qt_quotas := (qt_quotas (qe_db e))(qc_tenant_id cfg \<mapsto> cfg)\<rparr>
         in (cache_config (e\<lparr>qe_db := db\<rparr>) (qc_tenant_id cfg) cfg t, None))"

subsection \<open>Usage\<close>

text \<open>
  \<open>SELECT COALESCE(SUM(tokens_used),0), COALESCE(SUM(cost_usd),0) FROM quota_usage WHERE ...\<close>
  selects the one row of the primary key. When the query or the scan of the tokens fails, the
  fields keep their zeros; the error is ignored.
\<close>

definition fits_int64 :: "int \<Rightarrow> bool" where
  "fits_int64 i \<longleftrightarrow> - (2 ^ 63) \<le> i \<and> i < 2 ^ 63"

definition day_usage :: "calendar \<Rightarrow> enforcer \<Rightarrow> bool \<Rightarrow> string \<Rightarrow> time \<Rightarrow> usage" where
  "day_usage cal e works tenant now =
    (let dk = day_key cal now;
         u = \<lparr>us_config = None, us_used_today = 0, us_spent_today = f64_zero, us_used_minute = 0, us_window_key = dk\<rparr>
     in case (if works then qt_usage (qe_db e) (tenant, dk, ''day'') else None) of
          None \<Rightarrow> u
        | Some (tokens, cost) \<Rightarrow>
            if fits_int64 tokens then u\<lparr>us_used_today := word_of_int tokens, us_spent_today := cost\<rparr> else u)"

definition get_usage :: "calendar \<Rightarrow> enforcer \<Rightarrow> bool \<Rightarrow> bool \<Rightarrow> string \<Rightarrow> time \<Rightarrow> time \<Rightarrow> time \<Rightarrow> enforcer \<times> usage" where
  "get_usage cal e works1 works2 tenant now t now' =
    (case load_config e works1 tenant now t of (e, cfg) \<Rightarrow>
       let cfg = (case cfg of None \<Rightarrow> default_quota tenant | Some cfg \<Rightarrow> cfg);
           u = day_usage cal e works2 tenant now'
       in (e, u\<lparr>us_config := Some cfg\<rparr>))"

subsection \<open>Checking\<close>

definition check_minute :: "calendar \<Rightarrow> enforcer \<Rightarrow> string \<Rightarrow> int64 \<Rightarrow> quota_config \<Rightarrow> time \<Rightarrow> enforcer \<times> bool" where
  "check_minute cal e tenant est cfg now =
    (let key = minute_key cal now;
         e = (case qe_minute_counts e tenant of
                Some mc \<Rightarrow> if mc_window mc \<noteq> key
                           then e\<lparr>qe_minute_counts := (qe_minute_counts e)(tenant \<mapsto> \<lparr>mc_used = 0, mc_window = key\<rparr>)\<rparr> else e
              | None \<Rightarrow> e\<lparr>qe_minute_counts := (qe_minute_counts e)(tenant \<mapsto> \<lparr>mc_used = 0, mc_window = key\<rparr>)\<rparr>);
         mc = the (qe_minute_counts e tenant)
     in (e, \<not> (sint (mc_used mc + est) > sint (qc_tokens_per_minute cfg))))"

text \<open>The clock and the outcomes of the statements of one call.\<close>

record check_env =
  cv_lookup :: time
  cv_stored :: time
  cv_minute :: time
  cv_day :: time
  cv_load_works :: bool
  cv_usage_works :: bool

definition check :: "calendar \<Rightarrow> enforcer \<Rightarrow> check_env \<Rightarrow> string \<Rightarrow> int64 \<Rightarrow> int32 \<Rightarrow> enforcer \<times> check_result" where
  "check cal e env tenant est ctx =
    (case load_config e (cv_load_works env) tenant (cv_lookup env) (cv_stored env) of (e, loaded) \<Rightarrow>
     let cfg = (case loaded of None \<Rightarrow> default_quota tenant | Some cfg \<Rightarrow> cfg)
     in if sint ctx > sint (qc_max_context_tokens cfg) then (e, denied_context)
        else (case check_minute cal e tenant est cfg (cv_minute env) of (e, within_minute) \<Rightarrow>
          if \<not> within_minute then (e, denied_token_minute)
          else let usage = day_usage cal e (cv_usage_works env) tenant (cv_day env)
               in if sint (us_used_today usage + est) > sint (qc_tokens_per_day cfg) then (e, denied_token_day)
                  else let estimated_cost = f64_mul (f64_div (f64_of_int (sint est)) (f64_of_int 1000)) (f64_const 1 10000)
                       in if f64_lt (qc_budget_usd_per_day cfg) (f64_add (us_spent_today usage) estimated_cost)
                          then (e, denied_budget_day)
                          else (e, quota_allowed)))"

subsection \<open>Recording\<close>

text \<open>The two upserts: \<open>INSERT ... ON CONFLICT DO UPDATE SET tokens_used = tokens_used + ...\<close>.\<close>

definition add_day_usage :: "string \<Rightarrow> string \<Rightarrow> int64 \<Rightarrow> f64 \<Rightarrow> quota_tables \<Rightarrow> quota_tables" where
  "add_day_usage tenant key tokens cost db =
    db\<lparr>qt_usage := (qt_usage db)((tenant, key, ''day'') \<mapsto>
      (case qt_usage db (tenant, key, ''day'') of
         None \<Rightarrow> (sint tokens, cost)
       | Some (t, c) \<Rightarrow> (t + sint tokens, f64_add c cost)))\<rparr>"

definition add_minute_usage :: "string \<Rightarrow> string \<Rightarrow> int64 \<Rightarrow> quota_tables \<Rightarrow> quota_tables" where
  "add_minute_usage tenant key tokens db =
    db\<lparr>qt_usage := (qt_usage db)((tenant, key, ''minute'') \<mapsto>
      (case qt_usage db (tenant, key, ''minute'') of
         None \<Rightarrow> (sint tokens, f64_zero)
       | Some (t, c) \<Rightarrow> (t + sint tokens, c)))\<rparr>"

definition record_usage :: "calendar \<Rightarrow> enforcer \<Rightarrow> bool \<Rightarrow> bool \<Rightarrow> string \<Rightarrow> int64 \<Rightarrow> f64 \<Rightarrow> time \<Rightarrow> enforcer" where
  "record_usage cal e works1 works2 tenant tokens cost now =
    (let dk = day_key cal now;
         mk = minute_key cal now;
         e = (if works1 then e\<lparr>qe_db := add_day_usage tenant dk tokens cost (qe_db e)\<rparr> else e);
         e = (if works2 then e\<lparr>qe_db := add_minute_usage tenant mk tokens (qe_db e)\<rparr> else e)
     in case qe_minute_counts e tenant of
          Some mc \<Rightarrow> if mc_window mc = mk
                     then e\<lparr>qe_minute_counts := (qe_minute_counts e)(tenant \<mapsto> mc\<lparr>mc_used := mc_used mc + tokens\<rparr>)\<rparr> else e
        | None \<Rightarrow> e)"

text \<open>One tick of \<open>flushMinuteLoop\<close>.\<close>

definition flush_minutes :: "calendar \<Rightarrow> enforcer \<Rightarrow> time \<Rightarrow> enforcer" where
  "flush_minutes cal e now =
    e\<lparr>qe_minute_counts := (\<lambda>tid. case qe_minute_counts e tid of
        Some mc \<Rightarrow> if mc_window mc \<noteq> minute_key cal now then None else Some mc | None \<Rightarrow> None)\<rparr>"

subsection \<open>The configuration cache is a cache\<close>

lemma time_sub_less: "d \<le> 2 ^ 63 - 1 \<Longrightarrow> - (2 ^ 63) < d \<Longrightarrow> time_sub now t < d \<longleftrightarrow> now - t < d"
  by (auto simp: time_sub_def)

interpretation configs: ttl_cache cached_config cache_config "new_enforcer db"
    "\<lambda>t now. now - t < 60 * second" "\<lambda>k cfg. True" for db
  by unfold_locales (simp_all add: cached_config_def cache_config_def new_enforcer_def time_sub_less)

lemma load_config_read_through:
  "load_config e works tenant now t = read_through cached_config cache_config e tenant now t (select_quota works (qe_db e) tenant)"
  by (simp add: load_config_def read_through_def split: option.split)

subsection \<open>What the operations leave alone\<close>

lemma load_config_db [frame]: "qe_db (fst (load_config e works tenant now t)) = qe_db e"
  by (simp add: load_config_def cache_config_def split: option.split)

lemma check_minute_frame [frame]:
  "qe_db (fst (check_minute cal e tenant est cfg now)) = qe_db e"
  "qe_cache (fst (check_minute cal e tenant est cfg now)) = qe_cache e"
  by (auto simp: check_minute_def Let_def split: option.split)

lemma check_frame [frame]:
  "qe_db (fst (check cal e env tenant est ctx)) = qe_db e"
  "qe_cache (fst (check cal e env tenant est ctx)) = qe_cache (fst (load_config e (cv_load_works env) tenant (cv_lookup env) (cv_stored env)))"
  by (simp_all add: check_def Let_def check_minute_frame load_config_db split: prod.split)
     (metis check_minute_frame(1) fst_conv load_config_db, metis check_minute_frame(2) fst_conv)

lemma record_usage_day:
  "qt_usage (qe_db (record_usage cal e True True tenant tokens cost now)) (tenant', key, ''day'') =
    (if tenant' = tenant \<and> key = day_key cal now
     then Some (case qt_usage (qe_db e) (tenant, key, ''day'') of
        None \<Rightarrow> (sint tokens, cost) | Some (t, c) \<Rightarrow> (t + sint tokens, f64_add c cost))
     else qt_usage (qe_db e) (tenant', key, ''day''))"
  by (cases "qe_minute_counts e tenant") (auto simp: record_usage_def Let_def add_day_usage_def add_minute_usage_def)

lemma record_usage_frame [frame]:
  "qt_quotas (qe_db (record_usage cal e works1 works2 tenant tokens cost now)) = qt_quotas (qe_db e)"
  "qe_cache (record_usage cal e works1 works2 tenant tokens cost now) = qe_cache e"
  by (simp_all add: record_usage_def Let_def add_day_usage_def add_minute_usage_def split: option.split)

subsection \<open>The daily quota\<close>

text \<open>The tokens that a tenant's row of a day holds, and a bound on every limit it may be given.\<close>

definition day_tokens :: "enforcer \<Rightarrow> string \<Rightarrow> string \<Rightarrow> int" where
  "day_tokens e tenant day = (case qt_usage (qe_db e) (tenant, day, ''day'') of None \<Rightarrow> 0 | Some (t, c) \<Rightarrow> t)"

definition limited :: "enforcer \<Rightarrow> string \<Rightarrow> int \<Rightarrow> bool" where
  "limited e tenant L \<longleftrightarrow> 5000000 \<le> L \<and> L < 2 ^ 63 \<and>
     (\<forall>cfg. qt_quotas (qe_db e) tenant = Some cfg \<longrightarrow> sint (qc_tokens_per_day cfg) \<le> L) \<and>
     (\<forall>entry. qe_cache e tenant = Some entry \<longrightarrow> sint (qc_tokens_per_day (ce_cfg entry)) \<le> L)"

text \<open>A request is checked, and what it used is recorded when it was allowed.\<close>

record quota_request =
  qr_tenant :: string
  qr_env :: check_env
  qr_est :: int64
  qr_ctx :: int32
  qr_used :: int64
  qr_cost :: f64
  qr_now :: time

definition serve :: "calendar \<Rightarrow> enforcer \<Rightarrow> quota_request \<Rightarrow> enforcer" where
  "serve cal e r =
    (case check cal e (qr_env r) (qr_tenant r) (qr_est r) (qr_ctx r) of (e, res) \<Rightarrow>
       if cr_allowed res then record_usage cal e True True (qr_tenant r) (qr_used r) (qr_cost r) (qr_now r) else e)"

lemma load_config_limited:
  assumes "limited e tenant L"
  shows "limited (fst (load_config e works tenant' now t)) tenant L"
    and "sint (qc_tokens_per_day (case snd (load_config e works tenant now t) of
        None \<Rightarrow> default_quota tenant | Some cfg \<Rightarrow> cfg)) \<le> L"
  using assms
  by (auto simp: limited_def load_config_def cached_config_def cache_config_def select_quota_def default_quota_def
      split: option.split)

lemma check_limited: "limited e tenant L \<Longrightarrow> limited (fst (check cal e env tenant' est ctx)) tenant L"
  using load_config_limited(1) [of e tenant L "cv_load_works env" tenant' "cv_lookup env" "cv_stored env"]
  by (simp add: limited_def check_frame load_config_db)

lemma serve_limited: "limited e tenant L \<Longrightarrow> limited (serve cal e r) tenant L"
  using check_limited [of e tenant L cal "qr_env r" "qr_tenant r" "qr_est r" "qr_ctx r"]
  by (simp add: serve_def limited_def record_usage_frame split: prod.split)

lemma check_allowed:
  assumes "limited e tenant L" "cr_allowed (snd (check cal e env tenant est ctx))"
  shows "sint (us_used_today (day_usage cal e (cv_usage_works env) tenant (cv_day env)) + est) \<le> L"
proof -
  obtain e1 loaded where l: "load_config e (cv_load_works env) tenant (cv_lookup env) (cv_stored env) = (e1, loaded)"
    by (cases "load_config e (cv_load_works env) tenant (cv_lookup env) (cv_stored env)")
  let ?cfg = "case loaded of None \<Rightarrow> default_quota tenant | Some cfg \<Rightarrow> cfg"
  obtain e2 ok where m: "check_minute cal e1 tenant est ?cfg (cv_minute env) = (e2, ok)"
    by (cases "check_minute cal e1 tenant est ?cfg (cv_minute env)")
  have db: "qe_db e2 = qe_db e"
    using check_minute_frame(1) [of cal e1 tenant est ?cfg "cv_minute env"]
      load_config_db [of e "cv_load_works env" tenant "cv_lookup env" "cv_stored env"] by (simp add: l m)
  then have u: "day_usage cal e2 = day_usage cal e" by (simp add: day_usage_def Let_def fun_eq_iff db)
  have "sint (qc_tokens_per_day ?cfg) \<le> L"
    using load_config_limited(2) [OF assms(1), of "cv_load_works env" "cv_lookup env" "cv_stored env"] by (simp add: l)
  moreover have "\<not> sint (us_used_today (day_usage cal e2 (cv_usage_works env) tenant (cv_day env)) + est)
      > sint (qc_tokens_per_day ?cfg)"
    using assms(2) by (auto simp: check_def l m Let_def check_results split: if_splits)
  ultimately show ?thesis by (simp add: u)
qed

lemma sint_plus_bounded:
  assumes "0 \<le> a" "0 \<le> sint b" "a + sint b < 2 ^ 63"
  shows "sint (word_of_int a + b :: int64) = a + sint b"
proof -
  have eq: "word_of_int a + b = (word_of_int (a + sint b) :: int64)" by (simp only: wi_hom_add [symmetric] word_of_sint)
  show ?thesis unfolding eq using assms by (intro sint_word_of_int) simp_all
qed

lemma serve_day_tokens:
  assumes "limited e tenant L" "0 \<le> day_tokens e tenant day" "day_tokens e tenant day \<le> L"
    and "qr_tenant r = tenant \<and> day_key cal (qr_now r) = day \<longrightarrow>
      cv_usage_works (qr_env r) \<and> day_key cal (cv_day (qr_env r)) = day \<and> 0 \<le> sint (qr_used r) \<and> sint (qr_used r) \<le> sint (qr_est r) \<and> sint (qr_est r) + L < 2 ^ 63"
  shows "0 \<le> day_tokens (serve cal e r) tenant day \<and> day_tokens (serve cal e r) tenant day \<le> L"
proof -
  obtain e' res where c: "check cal e (qr_env r) (qr_tenant r) (qr_est r) (qr_ctx r) = (e', res)"
    by (cases "check cal e (qr_env r) (qr_tenant r) (qr_est r) (qr_ctx r)")
  have db: "qe_db e' = qe_db e" using check_frame(1) [of cal e "qr_env r" "qr_tenant r" "qr_est r" "qr_ctx r"] by (simp add: c)
  show ?thesis
  proof (cases "cr_allowed res \<and> qr_tenant r = tenant \<and> day_key cal (qr_now r) = day")
    case False
    then have "day_tokens (serve cal e r) tenant day = day_tokens e tenant day"
      by (auto simp: serve_def c day_tokens_def record_usage_day db)
    then show ?thesis using assms(2,3) by simp
  next
    case True
    with assms(4) have a: "cv_usage_works (qr_env r)" "day_key cal (cv_day (qr_env r)) = day" "day_key cal (qr_now r) = day"
        "0 \<le> sint (qr_used r)" "sint (qr_used r) \<le> sint (qr_est r)" "sint (qr_est r) + L < 2 ^ 63"
      by simp_all
    have "fits_int64 (day_tokens e tenant day)" using assms(1-3) by (simp add: fits_int64_def limited_def)
    then have u: "us_used_today (day_usage cal e True tenant (cv_day (qr_env r))) = word_of_int (day_tokens e tenant day)"
      using a(2) by (auto simp: day_usage_def day_tokens_def Let_def fits_int64_def split: option.split)
    have "sint (word_of_int (day_tokens e tenant day) + qr_est r) \<le> L"
      using check_allowed [of e tenant L cal "qr_env r" "qr_est r" "qr_ctx r"] assms(1) True a(1) c u by simp
    then have "day_tokens e tenant day + sint (qr_est r) \<le> L"
      using sint_plus_bounded [of "day_tokens e tenant day" "qr_est r"] assms(2,3) a(4-6) by simp
    moreover have "day_tokens (serve cal e r) tenant day = day_tokens e tenant day + sint (qr_used r)"
      using True a(3) by (auto simp: serve_def c day_tokens_def record_usage_day db split: option.split)
    ultimately show ?thesis using a(4,5) assms(2) by simp
  qed
qed

text \<open>C32. The daily token quota holds, for every day and tenant: \<open>L\<close> is a bound on the tenant's
  limit wherever it is configured and on the default limit, and the day's row starts within
  it. Then the tenant's recorded tokens of the day never exceed \<open>L\<close>, whatever it does on other
  days and whatever other tenants do in between, as long as each of its requests is checked
  and recorded on the same day and before its next one is checked, and those of the day
  under consideration meet working reads, use something between nothing and what they
  announced, and announce less than \<open>2 ^ 63 - L\<close> (beyond that the sum in the
  check wraps around and this check refuses nothing).\<close>

theorem day_quota_respected:
  assumes "limited e tenant L" "0 \<le> day_tokens e tenant day" "day_tokens e tenant day \<le> L"
    and "\<forall>r \<in> set rs. qr_tenant r = tenant \<longrightarrow> day_key cal (cv_day (qr_env r)) = day_key cal (qr_now r)"
    and "\<forall>r \<in> set rs. qr_tenant r = tenant \<and> day_key cal (qr_now r) = day \<longrightarrow> cv_usage_works (qr_env r) \<and>
      0 \<le> sint (qr_used r) \<and> sint (qr_used r) \<le> sint (qr_est r) \<and> sint (qr_est r) + L < 2 ^ 63"
  shows "day_tokens (foldl (serve cal) e rs) tenant day \<le> L"
proof -
  have "limited (foldl (serve cal) e rs) tenant L \<and> 0 \<le> day_tokens (foldl (serve cal) e rs) tenant day \<and>
      day_tokens (foldl (serve cal) e rs) tenant day \<le> L"
    using assms(4,5)
  proof (induction rs rule: rev_induct)
    case Nil
    then show ?case using assms(1-3) by simp
  next
    case (snoc r rs)
    then show ?case using serve_limited serve_day_tokens [of "foldl (serve cal) e rs" tenant L day r cal] by simp
  qed
  then show ?thesis by simp
qed

text \<open>A calendar, and a tenant with a limit of ten tokens who asks for six of them twice.\<close>

definition demo_calendar :: calendar where
  "demo_calendar = \<lparr>day_key = (\<lambda>t. show_int (t div (86400 * second))), minute_key = (\<lambda>t. show_int (t div (60 * second)))\<rparr>"

definition demo_env :: check_env where
  "demo_env = \<lparr>cv_lookup = 0, cv_stored = 0, cv_minute = 0, cv_day = 0, cv_load_works = True, cv_usage_works = True\<rparr>"

definition demo_quota_request :: quota_request where
  "demo_quota_request = \<lparr>qr_tenant = ''t'', qr_env = demo_env, qr_est = 3000000, qr_ctx = 1, qr_used = 3000000,
     qr_cost = f64_zero, qr_now = 0\<rparr>"

theorem day_quota_respected_witness:
  "day_tokens (foldl (serve demo_calendar) (new_enforcer \<lparr>qt_quotas = Map.empty, qt_usage = Map.empty\<rparr>)
     [demo_quota_request, demo_quota_request,
      demo_quota_request\<lparr>qr_env := demo_env\<lparr>cv_day := 86400 * second\<rparr>, qr_now := 86400 * second\<rparr>]) ''t'' (day_key demo_calendar 0) \<le> 5000000"
  by (rule day_quota_respected)
    (simp_all add: limited_def day_tokens_def new_enforcer_def demo_quota_request_def demo_env_def)

text \<open>The cost that a check estimates is monotone; five million tokens are estimated at fifty cents.\<close>

definition cost_floor :: "int \<Rightarrow> f64" where
  "cost_floor est = f64_mul (f64_div (f64_of_int est) (f64_of_int 1000)) (f64_const 1 10000)"

lemma cost_floor_bounds:
  assumes "0 \<le> est" "est \<le> 5000000"
  shows "f64_finite (f64_add f64_zero (cost_floor est))"
    and "f64_key (f64_add f64_zero (cost_floor est)) \<le> f64_key (f64_add f64_zero (cost_floor 5000000))"
proof -
  have i: "f64_finite (f64_of_int i) \<and> f64_val (f64_of_int i) = of_int i \<and> 0 \<le> f64_key (f64_of_int i)"
    if "0 \<le> i" "i \<le> 5000000" for i
    using f64_of_int_exact [of i] f64_of_int_finite [of i] that by simp
  have u: "f64_unit (f64_const 1 10000)" by (rule f64_unit_constI) simp_all
  have d: "f64_finite (f64_div (f64_of_int i) (f64_of_int 1000))" "0 \<le> f64_key (f64_div (f64_of_int i) (f64_of_int 1000))"
    if "0 \<le> i" "i \<le> 5000000" for i
    using f64_div_bounds [of "f64_of_int i" "f64_of_int 1000" 0 5000000] i [OF that] i [of 1000] that by simp_all
  have c: "f64_finite (cost_floor i)" "0 \<le> f64_key (cost_floor i)" if "0 \<le> i" "i \<le> 5000000" for i
    unfolding cost_floor_def using f64_mul_unit [OF d [OF that] u] by simp_all
  have k: "f64_key (f64_div (f64_of_int est) (f64_of_int 1000)) \<le> f64_key (f64_div (f64_of_int 5000000) (f64_of_int 1000))"
    using i [OF assms] i [of 5000000] i [of 1000] assms f64_val_less_iff [of f64_zero "f64_of_int 1000"]
      f64_val_le_iff [of "f64_of_int est" "f64_of_int 5000000"]
    by (intro f64_div_mono) simp_all
  have m: "f64_key (cost_floor est) \<le> f64_key (cost_floor 5000000)"
    using u d [OF assms] d [of 5000000] k
    by (simp add: cost_floor_def f64_unit_val f64_mul_props(1) f64_val_le_iff [symmetric] rnd_key_mono mult_right_mono)
  have z: "f64_finite f64_zero" "0 \<le> f64_key f64_zero" by simp_all
  have b: "f64_finite (f64_add f64_zero (cost_floor 5000000))" by code_simp
  show "f64_finite (f64_add f64_zero (cost_floor est))"
    "f64_key (f64_add f64_zero (cost_floor est)) \<le> f64_key (f64_add f64_zero (cost_floor 5000000))"
    using f64_add_bounds [OF z(1) c(1) [OF assms] z(1) c(1) [of 5000000] b z(2) c(2) [OF assms] order_refl m] by simp_all
qed

text \<open>A failing database leaves the enforcer open: when neither table answers and nothing is
  cached, the outcome of a check depends only on the request and on the minute counter, so a tenant
  over its daily quota and budget is let through.\<close>

theorem check_fails_open:
  assumes "cached_config e tenant (cv_lookup env) = None" "\<not> cv_load_works env" "\<not> cv_usage_works env"
    and "sint ctx \<le> 8192" "snd (check_minute cal e tenant est (default_quota tenant) (cv_minute env))"
    and "0 \<le> sint est" "sint est \<le> 5000000"
  shows "snd (check cal e env tenant est ctx) = quota_allowed"
proof -
  obtain e' where m: "check_minute cal e tenant est (default_quota tenant) (cv_minute env) = (e', True)"
    using assms(5) by (cases "check_minute cal e tenant est (default_quota tenant) (cv_minute env)") auto
  have "f64_key (f64_add f64_zero (cost_floor 5000000)) \<le> f64_key (f64_of_int 50)" by code_simp
  then have "\<not> f64_lt (f64_of_int 50) (f64_add f64_zero (cost_floor (sint est)))"
    using cost_floor_bounds [OF assms(6,7)] by (simp add: f64_lt_def)
  then show ?thesis
    using assms m
    by (simp add: check_def load_config_def select_quota_def day_usage_def Let_def cost_floor_def default_quota_def)
qed

theorem check_fails_open_witness:
  "snd (check demo_calendar
     (new_enforcer \<lparr>qt_quotas = Map.empty, qt_usage = [(''t'', ''0'', ''day'') \<mapsto> (9000000, f64_of_int 90)]\<rparr>)
     (demo_env\<lparr>cv_load_works := False, cv_usage_works := False\<rparr>) ''t'' 1000 100) = quota_allowed"
  by (rule check_fails_open)
    (simp_all add: cached_config_def new_enforcer_def demo_env_def check_minute_def Let_def default_quota_def)

text \<open>A stored configuration is the one that counts: after a successful \<open>UpsertConfig\<close>, and any
  checks and records after it, a working database or a live cache entry gives that configuration for
  the tenant, at every later time.\<close>

theorem upserted_config_loaded:
  assumes "upsert_config e fails cfg t0 = (e0, None)"
    and "e' = foldl (serve cal) e0 rs"
  shows "snd (load_config e' True (qc_tenant_id cfg) now t) = Some cfg"
proof -
  have e0: "qt_quotas (qe_db e0) (qc_tenant_id cfg) = Some cfg \<and>
      (\<forall>entry. qe_cache e0 (qc_tenant_id cfg) = Some entry \<longrightarrow> ce_cfg entry = cfg)"
    using assms(1) by (auto simp: upsert_config_def Let_def cache_config_def split: option.splits)
  have "qt_quotas (qe_db (foldl (serve cal) e0 rs)) (qc_tenant_id cfg) = Some cfg \<and>
      (\<forall>entry. qe_cache (foldl (serve cal) e0 rs) (qc_tenant_id cfg) = Some entry \<longrightarrow> ce_cfg entry = cfg)"
  proof (induction rs rule: rev_induct)
    case Nil
    then show ?case using e0 by simp
  next
    case (snoc r rs)
    let ?e = "foldl (serve cal) e0 rs"
    have "qt_quotas (qe_db (serve cal ?e r)) = qt_quotas (qe_db ?e)"
      using check_frame(1) [of cal ?e "qr_env r" "qr_tenant r" "qr_est r" "qr_ctx r"]
      by (simp add: serve_def record_usage_frame case_prod_unfold)
    moreover have "qe_cache (serve cal ?e r) = qe_cache (fst (load_config ?e (cv_load_works (qr_env r)) (qr_tenant r)
        (cv_lookup (qr_env r)) (cv_stored (qr_env r))))"
      using check_frame(2) [of cal ?e "qr_env r" "qr_tenant r" "qr_est r" "qr_ctx r"]
      by (simp add: serve_def record_usage_frame case_prod_unfold)
    ultimately show ?case
      using snoc by (auto simp: load_config_def cache_config_def select_quota_def split: option.splits if_splits)
  qed
  then show ?thesis
    unfolding assms(2) by (auto simp: load_config_def cached_config_def select_quota_def split: option.split)
qed

theorem upserted_config_loaded_witness:
  "snd (load_config (foldl (serve demo_calendar)
      (fst (upsert_config (new_enforcer \<lparr>qt_quotas = Map.empty, qt_usage = Map.empty\<rparr>) None (default_quota ''t'') 0))
      [demo_quota_request]) True ''t'' 5 5) = Some (default_quota ''t'')"
  using upserted_config_loaded [of "new_enforcer \<lparr>qt_quotas = Map.empty, qt_usage = Map.empty\<rparr>" None "default_quota ''t''" 0
      "fst (upsert_config (new_enforcer \<lparr>qt_quotas = Map.empty, qt_usage = Map.empty\<rparr>) None (default_quota ''t'') 0)"
      _ demo_calendar "[demo_quota_request]" 5 5]
  by (simp add: upsert_config_def Let_def default_quota_def)

end
