(* ===== verification/ControlPlane.thy ===== *)
theory ControlPlane
  imports ModelRegistry Rollout Quota
begin

section \<open>The control plane\<close>

text \<open>
  \<open>services/control-plane/cmd/main.go\<close>: the HTTP server over the registry, the rollouts and the
  quotas, whose tables are in one database, and the opening and seeding of that database. The
  outcomes of the statements, the clock and the parsed bodies are arguments. A reply is a status
  and the value that is encoded; \<open>None\<close> is one that never comes.
\<close>

record cp_server =
  cp_registry :: registry_db
  cp_rollouts :: manager
  cp_quotas :: enforcer

definition new_cp_server :: "registry_db \<Rightarrow> rollout_row list \<Rightarrow> metrics_row list \<Rightarrow> quota_tables \<Rightarrow> cp_server" where
  "new_cp_server reg rollouts metrics quotas =
    \<lparr>cp_registry = reg, cp_rollouts = new_manager rollouts metrics, cp_quotas = new_enforcer quotas\<rparr>"

subsection \<open>Opening and seeding\<close>

text \<open>The pool of \<open>openDB\<close>, and the rows of \<open>seedDB\<close>; the columns it does not name get the defaults.\<close>

definition cp_pool :: nat where
  "cp_pool = 1"

definition cp_seed_row :: "string \<Rightarrow> time \<Rightarrow> string \<Rightarrow> string \<Rightarrow> string \<Rightarrow> f64 \<Rightarrow> int64 \<Rightarrow> int64 \<Rightarrow> model_row" where
  "cp_seed_row addr now mid name tier cost lat max_tokens =
    \<lparr>gr_model_id = mid, gr_version = ''v1'', gr_name = name, gr_tier = tier, gr_cost_per_1k = cost, gr_avg_latency_ms = lat,
     gr_max_tokens = max_tokens, gr_executor_addr = addr, gr_enabled = 1, gr_labels = ''{}'',
     gr_created_at = now, gr_updated_at = now\<rparr>"

definition cp_seed_rows :: "string \<Rightarrow> time \<Rightarrow> model_row list" where
  "cp_seed_rows addr now =
    [cp_seed_row addr now ''gpt-small'' ''GPT Small'' ''small'' (f64_const 2 10000) 200 4096,
     cp_seed_row addr now ''gpt-medium'' ''GPT Medium'' ''medium'' (f64_const 2 1000) 500 8192,
     cp_seed_row addr now ''gpt-large'' ''GPT Large'' ''large'' (f64_const 2 100) 1200 32768,
     cp_seed_row addr now ''embed-v2'' ''Embed v2'' ''small'' (f64_const 1 10000) 50 8192,
     cp_seed_row addr now ''rerank-v1'' ''Rerank v1'' ''small'' (f64_const 2 10000) 100 4096]"

definition insert_model_or_ignore :: "model_row \<Rightarrow> model_row list \<Rightarrow> model_row list" where
  "insert_model_or_ignore row rows = (if \<exists>r \<in> set rows. gr_model_id r = gr_model_id row then rows else rows @ [row])"

text \<open>A count that fails leaves \<open>n\<close> zero; a failing insert is ignored. \<open>order\<close> lists the
  capabilities in the order of the iteration over the map.\<close>

definition seed_db ::
  "bool \<Rightarrow> (string \<Rightarrow> bool) \<Rightarrow> (string \<times> string \<Rightarrow> bool) \<Rightarrow> (string \<times> string) list \<Rightarrow> string \<Rightarrow> time \<Rightarrow> registry_db \<Rightarrow> registry_db" where
  "seed_db count_works model_works cap_works order addr now db =
    (if count_works \<and> length (gd_models db) > 0 then db
     else \<lparr>gd_models = foldl (\<lambda>rows r. if model_works (gr_model_id r) then insert_model_or_ignore r rows else rows)
             (gd_models db) (cp_seed_rows addr now),
           gd_capabilities = foldl (\<lambda>caps (mid, t). if cap_works (mid, t) then insert_capability mid t caps else caps)
             (gd_capabilities db) order\<rparr>)"

text \<open>\<open>main\<close> up to the listener: the database is opened, the server made and its tables seeded; an \<open>Inl\<close>
  is an exit. \<open>opens\<close> gives the tables of the file.\<close>

definition cp_getenv :: "(string \<rightharpoonup> string) \<Rightarrow> string \<Rightarrow> string \<Rightarrow> string" where
  "cp_getenv os k fb = (case os k of None \<Rightarrow> fb | Some v \<Rightarrow> if v \<noteq> [] then v else fb)"

definition start_cp ::
  "(string \<rightharpoonup> string) \<Rightarrow> (string \<Rightarrow> (registry_db \<times> rollout_row list \<times> metrics_row list \<times> quota_tables) result) \<Rightarrow>
   (string \<Rightarrow> registry_db \<Rightarrow> registry_db) \<Rightarrow> (string \<times> cp_server) result" where
  "start_cp os opens seeder =
    (case opens (cp_getenv os ''DB_PATH'' ''/data/control-plane.db'') of
       Inl e \<Rightarrow> Inl e
     | Inr (reg, rollouts, metrics, quotas) \<Rightarrow>
         let srv = new_cp_server reg rollouts metrics quotas;
             srv = srv\<lparr>cp_registry := seeder (cp_getenv os ''EXECUTOR_ADDR'' ''model-executor:50051'') (cp_registry srv)\<rparr>
         in Inr ('':'' @ cp_getenv os ''HTTP_PORT'' ''8083'', srv))"

subsection \<open>Requests and replies\<close>

record cp_in =
  ci_method :: string
  ci_path :: string
  ci_model :: "model result"
  ci_enabled :: "bool option result"
  ci_config :: "rollout_config result"
  ci_reason :: string
  ci_quota :: "quota_config result"
  ci_check :: "(int64 \<times> int32) result"

datatype cp_body =
    CpError string
  | CpText string
  | CpStatus string
  | CpModels "model list"
  | CpRegistered string bool
  | CpModel model
  | CpRollouts "rollout_config list"
  | CpConfigured string
  | CpWeights "string \<rightharpoonup> f64"
  | CpUsage usage
  | CpAllowed
  | CpDenied string
  | CpMetrics nat nat nat

type_synonym cp_reply = "nat \<times> cp_body"

text \<open>The outcomes of the statements of one request and its clock.\<close>

record cp_env =
  cn_json :: json_labels
  cn_conns :: nat
  cn_list_fails :: "err option"
  cn_caps_work :: "string \<Rightarrow> bool"
  cn_write_fails :: "err option"
  cn_delete_works :: bool
  cn_insert_works :: "string \<Rightarrow> bool"
  cn_now :: time
  cn_rollouts_fail :: "err option"
  cn_order :: "rollout_config list"
  cn_calendar :: calendar
  cn_check :: check_env

definition cp_ok :: "cp_body \<Rightarrow> cp_reply" where
  "cp_ok v = (200, v)"

definition cp_fail :: "nat \<Rightarrow> string \<Rightarrow> cp_reply" where
  "cp_fail c msg = (c, CpError msg)"

definition not_allowed :: cp_reply where
  "not_allowed = (405, CpText ''method not allowed'')"

subsection \<open>Handlers\<close>

definition models_handler :: "cp_env \<Rightarrow> cp_in \<Rightarrow> cp_server \<Rightarrow> cp_server \<times> cp_reply option" where
  "models_handler env r s =
    (if ci_method r = ''GET'' then
       (s, map_option (\<lambda>x. case x of Inl e \<Rightarrow> cp_fail 500 (err_text e) | Inr models \<Rightarrow> cp_ok (CpModels models))
         (list_models (cn_json env) (cn_conns env) (cp_registry s) (cn_list_fails env) (cn_caps_work env) False))
     else if ci_method r = ''POST'' then
       (case ci_model r of
          Inl e \<Rightarrow> (s, Some (cp_fail 400 (err_text e)))
        | Inr m \<Rightarrow>
            (case register (cn_json env) (cp_registry s) (cn_write_fails env) (cn_delete_works env) (cn_insert_works env) (cn_now env) m of
               (db, Inl e) \<Rightarrow> (s\<lparr>cp_registry := db\<rparr>, Some (cp_fail 400 (err_text e)))
             | (db, Inr created) \<Rightarrow> (s\<lparr>cp_registry := db\<rparr>, Some (cp_ok (CpRegistered (gm_model_id m) created)))))
     else (s, Some not_allowed))"

definition model_handler :: "cp_env \<Rightarrow> cp_in \<Rightarrow> cp_server \<Rightarrow> cp_server \<times> cp_reply option" where
  "model_handler env r s =
    (let mid = drop (length ''/v1/models/'') (ci_path r)
     in if ci_method r = ''GET'' then
          (s, map_option (\<lambda>x. case x of Inl e \<Rightarrow> cp_fail 500 (err_text e)
                | Inr None \<Rightarrow> cp_fail 404 ''model not found'' | Inr (Some m) \<Rightarrow> cp_ok (CpModel m))
            (get_model (cn_json env) (cn_conns env) (cp_registry s) (cn_list_fails env) (cn_caps_work env mid) mid))
        else if ci_method r = ''PATCH'' then
          (case ci_enabled r of
             Inl e \<Rightarrow> (s, Some (cp_fail 400 (err_text e)))
           | Inr None \<Rightarrow> (s, Some (cp_fail 400 ''enabled field required''))
           | Inr (Some b) \<Rightarrow>
               (case set_enabled (cp_registry s) (cn_write_fails env) (cn_now env) mid b of
                  (db, Some e) \<Rightarrow> (s\<lparr>cp_registry := db\<rparr>, Some (cp_fail 400 (err_text e)))
                | (db, None) \<Rightarrow> (s\<lparr>cp_registry := db\<rparr>, Some (cp_ok (CpStatus ''updated'')))))
        else (s, Some not_allowed))"

definition rollouts_handler :: "cp_env \<Rightarrow> cp_in \<Rightarrow> cp_server \<Rightarrow> cp_server \<times> cp_reply option" where
  "rollouts_handler env r s =
    (if ci_method r = ''GET'' then
       (s, Some (case list_rollouts (cp_rollouts s) (cn_rollouts_fail env) of
            Inl e \<Rightarrow> cp_fail 500 (err_text e) | Inr cfgs \<Rightarrow> cp_ok (CpRollouts cfgs)))
     else if ci_method r = ''POST'' then
       (case ci_config r of
          Inl e \<Rightarrow> (s, Some (cp_fail 400 (err_text e)))
        | Inr cfg \<Rightarrow> (case upsert (cp_rollouts s) (cn_write_fails env) cfg of
            (m, Some e) \<Rightarrow> (s\<lparr>cp_rollouts := m\<rparr>, Some (cp_fail 400 (err_text e)))
          | (m, None) \<Rightarrow> (s\<lparr>cp_rollouts := m\<rparr>, Some (cp_ok (CpConfigured (ro_id cfg))))))
     else (s, Some not_allowed))"

text \<open>The error of parsing the body is ignored: \<open>ci_reason\<close> is what it left in the field.\<close>

definition rollout_handler :: "cp_env \<Rightarrow> cp_in \<Rightarrow> cp_server \<Rightarrow> cp_server \<times> cp_reply option" where
  "rollout_handler env r s =
    (if ci_method r \<noteq> ''DELETE'' then (s, Some not_allowed)
     else
       let rid = drop (length ''/v1/rollouts/'') (ci_path r);
           reason = (if ci_reason r = [] then ''manual rollback'' else ci_reason r)
       in (case rollback (cp_rollouts s) (cn_write_fails env) (cn_now env) rid reason of
            (m, Some e) \<Rightarrow> (s\<lparr>cp_rollouts := m\<rparr>, Some (cp_fail 400 (err_text e)))
          | (m, None) \<Rightarrow> (s\<lparr>cp_rollouts := m\<rparr>, Some (cp_ok (CpStatus ''rolled_back'')))))"

definition weights_handler :: "cp_env \<Rightarrow> cp_in \<Rightarrow> cp_server \<Rightarrow> cp_server \<times> cp_reply option" where
  "weights_handler env r s =
    (if ci_method r \<noteq> ''GET'' then (s, Some not_allowed)
     else (s, Some (cp_ok (CpWeights (rollout_weights (cn_order env))))))"

definition quotas_handler :: "cp_env \<Rightarrow> cp_in \<Rightarrow> cp_server \<Rightarrow> cp_server \<times> cp_reply option" where
  "quotas_handler env r s =
    (if ci_method r \<noteq> ''POST'' then (s, Some not_allowed)
     else (case ci_quota r of
        Inl e \<Rightarrow> (s, Some (cp_fail 400 (err_text e)))
      | Inr cfg \<Rightarrow> (case upsert_config (cp_quotas s) (cn_write_fails env) cfg (cn_now env) of
          (e', Some err) \<Rightarrow> (s\<lparr>cp_quotas := e'\<rparr>, Some (cp_fail 500 (err_text err)))
        | (e', None) \<Rightarrow> (s\<lparr>cp_quotas := e'\<rparr>, Some (cp_ok (CpStatus ''configured''))))))"

definition quota_handler :: "cp_env \<Rightarrow> cp_in \<Rightarrow> cp_server \<Rightarrow> cp_server \<times> cp_reply option" where
  "quota_handler env r s =
    (let tenant = drop (length ''/v1/quotas/'') (ci_path r); c = cn_check env
     in if ci_method r = ''GET'' then
          (case get_usage (cn_calendar env) (cp_quotas s) (cv_load_works c) (cv_usage_works c) tenant (cv_lookup c) (cv_stored c) (cv_day c) of
             (e', u) \<Rightarrow> (s\<lparr>cp_quotas := e'\<rparr>, Some (cp_ok (CpUsage u))))
        else if ci_method r = ''POST'' then
          (case ci_check r of
             Inl e \<Rightarrow> (s, Some (cp_fail 400 (err_text e)))
           | Inr (est, ctx) \<Rightarrow> (case check (cn_calendar env) (cp_quotas s) c tenant est ctx of
               (e', result) \<Rightarrow> (s\<lparr>cp_quotas := e'\<rparr>,
                 Some (if cr_allowed result then cp_ok CpAllowed else cp_ok (CpDenied (cr_reason result))))))
        else (s, Some not_allowed))"

text \<open>\<open>/metrics\<close>: the numbers that are printed; an error of a listing counts as an empty list.\<close>

definition cp_metrics_handler :: "cp_env \<Rightarrow> cp_server \<Rightarrow> cp_server \<times> cp_reply option" where
  "cp_metrics_handler env s =
    (s, map_option (\<lambda>x.
        let models = (case x of Inl e \<Rightarrow> [] | Inr models \<Rightarrow> models);
            cfgs = (case list_rollouts (cp_rollouts s) (cn_rollouts_fail env) of Inl e \<Rightarrow> [] | Inr cfgs \<Rightarrow> cfgs)
        in (200, CpMetrics (length models) (length (filter gm_enabled models)) (length (filter ro_enabled cfgs))))
      (list_models (cn_json env) (cn_conns env) (cp_registry s) (cn_list_fails env) (cn_caps_work env) False))"

text \<open>The routes: an exact path, or the longest prefix that ends in a slash; 404 otherwise.
  \<open>cn_conns\<close> is the number of free connections the request finds.\<close>

definition cp_routes :: "cp_env \<Rightarrow> cp_in \<Rightarrow> cp_server \<Rightarrow> cp_server \<times> cp_reply option" where
  "cp_routes env r s =
    (if ci_path r = ''/healthz/live'' then (s, Some (cp_ok (CpStatus ''alive'')))
     else if ci_path r = ''/healthz/ready'' then (s, Some (cp_ok (CpStatus ''ready'')))
     else if ci_path r = ''/v1/models'' then models_handler env r s
     else if has_prefix (ci_path r) ''/v1/models/'' then model_handler env r s
     else if ci_path r = ''/v1/rollouts'' then rollouts_handler env r s
     else if has_prefix (ci_path r) ''/v1/rollouts/'' then rollout_handler env r s
     else if ci_path r = ''/v1/rollout-weights'' then weights_handler env r s
     else if ci_path r = ''/v1/quotas'' then quotas_handler env r s
     else if has_prefix (ci_path r) ''/v1/quotas/'' then quota_handler env r s
     else if ci_path r = ''/metrics'' then cp_metrics_handler env s
     else (s, Some (404, CpText ''404 page not found'')))"

subsection \<open>The pool between requests\<close>

text \<open>The server together with the number of free connections of its pool.\<close>

record cp_world =
  cw_server :: cp_server
  cw_free :: nat

text \<open>Does a check of a quota get as far as a query? With a configuration in the cache it is
  refused before its first query when the context is too long or the minute's tokens are used up.\<close>

definition check_queries :: "cp_env \<Rightarrow> enforcer \<Rightarrow> string \<Rightarrow> int64 \<Rightarrow> int32 \<Rightarrow> bool" where
  "check_queries env e tenant est ctx =
    (case cached_config e tenant (cv_lookup (cn_check env)) of
       None \<Rightarrow> True
     | Some cfg \<Rightarrow> \<not> sint ctx > sint (qc_max_context_tokens cfg)
         \<and> snd (check_minute (cn_calendar env) e tenant est cfg (cv_minute (cn_check env))))"

text \<open>Does a request reach a statement, and so the pool?\<close>

definition cp_queries :: "cp_env \<Rightarrow> cp_in \<Rightarrow> cp_server \<Rightarrow> bool" where
  "cp_queries env r s =
    (if ci_path r = ''/healthz/live'' \<or> ci_path r = ''/healthz/ready'' then False
     else if ci_path r = ''/v1/models'' then
       ci_method r = ''GET'' \<or> ci_method r = ''POST'' \<and>
         (case ci_model r of Inl e \<Rightarrow> False | Inr m \<Rightarrow> \<not> (gm_model_id m = [] \<or> gm_name m = [] \<or> gm_tier m = []))
     else if has_prefix (ci_path r) ''/v1/models/'' then
       ci_method r = ''GET'' \<or> ci_method r = ''PATCH'' \<and> (case ci_enabled r of Inr (Some b) \<Rightarrow> True | _ \<Rightarrow> False)
     else if ci_path r = ''/v1/rollouts'' then
       ci_method r = ''GET'' \<or> ci_method r = ''POST'' \<and>
         (case ci_config r of Inl e \<Rightarrow> False | Inr cfg \<Rightarrow> upsert_check cfg = None)
     else if has_prefix (ci_path r) ''/v1/rollouts/'' then ci_method r = ''DELETE''
     else if ci_path r = ''/v1/rollout-weights'' then False
     else if ci_path r = ''/v1/quotas'' then
       ci_method r = ''POST'' \<and> (case ci_quota r of Inl e \<Rightarrow> False | Inr cfg \<Rightarrow> True)
     else if has_prefix (ci_path r) ''/v1/quotas/'' then
       ci_method r = ''GET'' \<or> ci_method r = ''POST'' \<and>
         (case ci_check r of Inl e \<Rightarrow> False
          | Inr (est, ctx) \<Rightarrow> check_queries env (cp_quotas s) (drop (length ''/v1/quotas/'') (ci_path r)) est ctx)
     else ci_path r = ''/metrics'')"

text \<open>The two requests that list the models.\<close>

definition cp_lists :: "cp_in \<Rightarrow> bool" where
  "cp_lists r \<longleftrightarrow> ci_path r = ''/metrics'' \<or> ci_path r = ''/v1/models'' \<and> ci_method r = ''GET''"

text \<open>
  What a request that waits for a connection has already done: a quota check with a cached
  configuration may have started the tenant's minute.
\<close>

definition cp_waiting :: "cp_env \<Rightarrow> cp_in \<Rightarrow> cp_server \<Rightarrow> cp_server" where
  "cp_waiting env r s =
    (if has_prefix (ci_path r) ''/v1/quotas/'' \<and> ci_method r = ''POST'' then
       (let tenant = drop (length ''/v1/quotas/'') (ci_path r); c = cn_check env
        in case (ci_check r, cached_config (cp_quotas s) tenant (cv_lookup c)) of
             (Inr (est, ctx), Some cfg) \<Rightarrow>
               s\<lparr>cp_quotas := fst (check_minute (cn_calendar env) (cp_quotas s) tenant est cfg (cv_minute c))\<rparr>
           | _ \<Rightarrow> s)
     else s)"

text \<open>
  A request in a world: without a free connection it waits at its first statement, for ever,
  since only a listing that never ends takes connections for good. A listing of at least one
  model whose query worked and that finds just one connection is such a listing.
\<close>

definition cp_serve :: "cp_env \<Rightarrow> cp_in \<Rightarrow> cp_world \<Rightarrow> cp_world \<times> cp_reply option" where
  "cp_serve env r w =
    (if cw_free w = 0 \<and> cp_queries env r (cw_server w) then (w\<lparr>cw_server := cp_waiting env r (cw_server w)\<rparr>, None)
     else case cp_routes (env\<lparr>cn_conns := cw_free w\<rparr>) r (cw_server w) of
       (s, reply) \<Rightarrow>
         (\<lparr>cw_server = s,
           cw_free = (if cw_free w = 1 \<and> cp_lists r \<and> cn_list_fails env = None \<and> gd_models (cp_registry (cw_server w)) \<noteq> []
                      then 0 else cw_free w)\<rparr>, reply))"

subsection \<open>What a request leaves alone\<close>

text \<open>The tables: everything but the caches of the quotas.\<close>

definition cp_tables :: "cp_server \<Rightarrow> registry_db \<times> rollout_row list \<times> metrics_row list \<times> quota_tables" where
  "cp_tables s = (cp_registry s, mg_rollouts (cp_rollouts s), mg_metrics (cp_rollouts s), qe_db (cp_quotas s))"

lemma get_usage_db [frame]: "qe_db (fst (get_usage cal e w1 w2 tenant now t now')) = qe_db e"
  by (simp add: get_usage_def split_def Let_def frame)

lemma rollback_keeps: "mg_metrics (fst (rollback m fails now rid reason)) = mg_metrics m"
  by (simp add: rollback_def rollout_parts split: option.split)

lemma upsert_keeps: "mg_metrics (fst (upsert m fails cfg)) = mg_metrics m"
  by (simp add: upsert_def upsert_statement_def upsert_entry_def split: option.split)

lemma upsert_config_usage: "qt_usage (qe_db (fst (upsert_config e fails cfg t))) = qt_usage (qe_db e)"
  by (simp add: upsert_config_def cache_config_def Let_def split: option.split)

lemma write_errors:
  "register json db fails dw iw now m = (db', Inl e) \<Longrightarrow> db' = db"
  "set_enabled db fails now mid b = (db', Some e) \<Longrightarrow> db' = db"
  "upsert mg fails cfg = (mg', Some e) \<Longrightarrow> mg' = mg"
  "rollback mg fails now rid reason = (mg', Some e) \<Longrightarrow> mg' = mg"
  "upsert_config q fails qcfg t = (q', Some e) \<Longrightarrow> q' = q"
proof -
  show "set_enabled db fails now mid b = (db', Some e) \<Longrightarrow> db' = db"
    by (cases db) (auto simp: set_enabled_def Let_def map_idI filter_empty_conv split: option.splits if_splits)
qed (auto simp: register_def upsert_def rollback_def upsert_config_def Let_def split: if_splits option.splits prod.splits)

text \<open>No handler writes usage or metrics, and one that fails, or answers a \<open>GET\<close>, writes nothing.\<close>

definition same_records :: "cp_server \<Rightarrow> cp_server \<Rightarrow> bool" where
  "same_records s s' \<longleftrightarrow> qt_usage (qe_db (cp_quotas s')) = qt_usage (qe_db (cp_quotas s))
     \<and> mg_metrics (cp_rollouts s') = mg_metrics (cp_rollouts s)"

lemma same_records_refl [simp]: "same_records s s"
  by (simp add: same_records_def)

lemma handlers_keep:
  "same_records s (fst (models_handler env r s))" "same_records s (fst (model_handler env r s))"
  "same_records s (fst (rollouts_handler env r s))" "same_records s (fst (rollout_handler env r s))"
  "same_records s (fst (weights_handler env r s))" "same_records s (fst (quotas_handler env r s))"
  "same_records s (fst (quota_handler env r s))" "same_records s (fst (cp_metrics_handler env s))"
proof -
  show "same_records s (fst (models_handler env r s))"
    unfolding models_handler_def by (auto simp: same_records_def split_def split: sum.split)
  show "same_records s (fst (model_handler env r s))"
    unfolding model_handler_def Let_def by (auto simp: same_records_def split_def split: sum.split option.split)
  show "same_records s (fst (rollouts_handler env r s))"
    unfolding rollouts_handler_def by (auto simp: same_records_def split_def upsert_keeps split: sum.split option.split)
  show "same_records s (fst (rollout_handler env r s))"
    unfolding rollout_handler_def Let_def by (auto simp: same_records_def split_def rollback_keeps split: option.split)
  show "same_records s (fst (quotas_handler env r s))"
    unfolding quotas_handler_def by (auto simp: same_records_def split_def upsert_config_usage split: sum.split option.split)
  show "same_records s (fst (quota_handler env r s))"
    unfolding quota_handler_def Let_def by (auto simp: same_records_def split_def frame split: sum.split)
qed (simp_all add: weights_handler_def cp_metrics_handler_def)

lemma if_same: "P (if c then x else y) \<longleftrightarrow> (if c then P x else P y)"
  by simp

lemma request_keeps: "same_records s (fst (cp_routes env r s))"
  unfolding cp_routes_def by (simp only: if_same [of "\<lambda>x. same_records s (fst x)"] handlers_keep fst_conv same_records_refl if_cancel)

lemma evaluate_keeps: "mg_metrics (evaluate_all avg fmt0 cal env m) = mg_metrics m"
proof -
  have "mg_metrics (foldl (evaluate_one avg fmt0 cal env) m cfgs) = mg_metrics m" for cfgs
    by (induction cfgs arbitrary: m) (simp_all add: evaluate_one_def rollback_keeps)
  then show ?thesis by (simp add: evaluate_all_def split: sum.split)
qed

subsection \<open>Properties\<close>

text \<open>What happens while the control plane runs: requests, and the ticks of the two background loops.\<close>

datatype cp_event = Request cp_env cp_in | EvaluateTick eval_env | FlushTick time

fun cp_step :: "(f64 list \<Rightarrow> f64) \<Rightarrow> (f64 \<Rightarrow> string) \<Rightarrow> calendar \<Rightarrow> cp_server \<Rightarrow> cp_event \<Rightarrow> cp_server" where
  "cp_step avg fmt0 cal s (Request env r) = fst (cp_routes env r s)"
| "cp_step avg fmt0 cal s (EvaluateTick env) = s\<lparr>cp_rollouts := evaluate_all avg fmt0 cal env (cp_rollouts s)\<rparr>"
| "cp_step avg fmt0 cal s (FlushTick now) = s\<lparr>cp_quotas := flush_minutes cal (cp_quotas s) now\<rparr>"

definition cp_run :: "(f64 list \<Rightarrow> f64) \<Rightarrow> (f64 \<Rightarrow> string) \<Rightarrow> calendar \<Rightarrow> cp_server \<Rightarrow> cp_event list \<Rightarrow> cp_server" where
  "cp_run avg fmt0 cal s evs = foldl (cp_step avg fmt0 cal) s evs"

lemma run_keeps:
  "qt_usage (qe_db (cp_quotas (cp_run avg fmt0 cal s evs))) = qt_usage (qe_db (cp_quotas s))"
  "mg_metrics (cp_rollouts (cp_run avg fmt0 cal s evs)) = mg_metrics (cp_rollouts s)"
proof -
  have step: "same_records s (cp_step avg fmt0 cal s e)" for s e
    by (cases e) (simp_all add: request_keeps same_records_def [of _ "s\<lparr>cp_rollouts := m\<rparr>" for m] same_records_def [of _ "s\<lparr>cp_quotas := m\<rparr>" for m]
        evaluate_keeps flush_minutes_def)
  have "same_records s (cp_run avg fmt0 cal s evs)"
  proof (induction evs arbitrary: s)
    case (Cons e evs)
    then show ?case using step [of s e] by (simp add: cp_run_def same_records_def)
  qed (simp add: cp_run_def)
  then show "qt_usage (qe_db (cp_quotas (cp_run avg fmt0 cal s evs))) = qt_usage (qe_db (cp_quotas s))"
    "mg_metrics (cp_rollouts (cp_run avg fmt0 cal s evs)) = mg_metrics (cp_rollouts s)" by (simp_all add: same_records_def)
qed

lemma evaluate_no_metrics:
  assumes "mg_metrics m = []" "\<forall>r \<in> set (mg_rollouts m). \<not> f64_lt (rr_max_error_rate r) f64_zero"
  shows "evaluate_all avg fmt0 cal env m = m"
proof -
  have z: "\<not> f64_lt f64_zero f64_zero" by (simp add: f64_lt_def)
  have "model_stats avg [] model window = (f64_zero, f64_zero)" for model window
    by (simp add: model_stats_def window_rows_def)
  then have "evaluate_one avg fmt0 cal env m cfg = m" if "\<not> f64_lt (ro_max_error_rate cfg) f64_zero" for cfg
    using that z assms(1) by (simp add: evaluate_one_def should_rollback_def Let_def split_def)
  then have "foldl (evaluate_one avg fmt0 cal env) m cfgs = m"
    if "\<forall>cfg \<in> set cfgs. \<not> f64_lt (ro_max_error_rate cfg) f64_zero" for cfgs
    using that by (induction cfgs) simp_all
  then show ?thesis
    using assms(2) by (simp add: evaluate_all_def list_rollouts_def config_of_def split: option.split)
qed

text \<open>C15. Nothing feeds the quotas or the rollbacks. Whatever requests the control plane serves and however its
  background loops tick, the table of usage and the table of canary metrics stay as they were, because
  \<open>Record\<close> and \<open>RecordMetrics\<close> have no caller; so, from an empty table of usage, every tenant's usage reads
  as zero for ever, and from an empty table of metrics an evaluation changes nothing as long as no rollout
  in the table has a negative threshold for its error rate (a negative one is below the zero that stands
  for no metrics).\<close>

theorem nothing_recorded:
  assumes "s' = cp_run avg fmt0 cal s evs"
  shows "qt_usage (qe_db (cp_quotas s')) = qt_usage (qe_db (cp_quotas s)) \<and> mg_metrics (cp_rollouts s') = mg_metrics (cp_rollouts s)
    \<and> (qt_usage (qe_db (cp_quotas s)) = Map.empty \<longrightarrow>
         us_used_today (day_usage cal (cp_quotas s') works tenant now) = 0
         \<and> us_spent_today (day_usage cal (cp_quotas s') works tenant now) = f64_zero)
    \<and> (mg_metrics (cp_rollouts s) = [] \<and> (\<forall>r \<in> set (mg_rollouts (cp_rollouts s')). \<not> f64_lt (rr_max_error_rate r) f64_zero) \<longrightarrow>
         cp_step avg fmt0 cal s' (EvaluateTick env) = s')"
proof -
  note k = run_keeps [of avg fmt0 cal s evs, folded assms]
  have "us_used_today (day_usage cal (cp_quotas s') works tenant now) = 0
      \<and> us_spent_today (day_usage cal (cp_quotas s') works tenant now) = f64_zero"
    if "qt_usage (qe_db (cp_quotas s)) = Map.empty"
    using that k(1) by (simp add: day_usage_def Let_def)
  moreover have "cp_step avg fmt0 cal s' (EvaluateTick env) = s'"
    if "mg_metrics (cp_rollouts s) = []" "\<forall>r \<in> set (mg_rollouts (cp_rollouts s')). \<not> f64_lt (rr_max_error_rate r) f64_zero"
    using evaluate_no_metrics [of "cp_rollouts s'"] that k(2) by simp
  ultimately show ?thesis using k by blast
qed

definition empty_cp :: cp_server where
  "empty_cp = new_cp_server empty_db [] [] \<lparr>qt_quotas = Map.empty, qt_usage = Map.empty\<rparr>"

definition demo_cp_env :: cp_env where
  "demo_cp_env = \<lparr>cn_json = demo_json, cn_conns = cp_pool, cn_list_fails = None, cn_caps_work = (\<lambda>_. True), cn_write_fails = None,
     cn_delete_works = True, cn_insert_works = (\<lambda>_. True), cn_now = 0, cn_rollouts_fail = None, cn_order = [],
     cn_calendar = \<lparr>day_key = (\<lambda>t. ''0''), minute_key = (\<lambda>t. ''0'')\<rparr>,
     cn_check = \<lparr>cv_lookup = 0, cv_stored = 0, cv_minute = 0, cv_day = 0, cv_load_works = True, cv_usage_works = True\<rparr>\<rparr>"

definition demo_cp_in :: "string \<Rightarrow> string \<Rightarrow> cp_in" where
  "demo_cp_in method path = \<lparr>ci_method = method, ci_path = path, ci_model = Inr demo_registered, ci_enabled = Inr (Some True),
     ci_config = Inl (Plain ''EOF''), ci_reason = [], ci_quota = Inl (Plain ''EOF''), ci_check = Inl (Plain ''EOF'')\<rparr>"

text \<open>A rollout is posted and a quota checked, with the loops ticking in between.\<close>

definition demo_events :: "cp_event list" where
  "demo_events = [Request demo_cp_env ((demo_cp_in ''POST'' ''/v1/rollouts'')\<lparr>ci_config := Inr demo_rollout\<rparr>),
     EvaluateTick demo_eval, FlushTick 0,
     Request demo_cp_env ((demo_cp_in ''POST'' ''/v1/quotas/t'')\<lparr>ci_check := Inr (1000, 10)\<rparr>)]"

lemma demo_events_rollouts:
  "mg_rollouts (cp_rollouts (cp_run avg fmt0 cal empty_cp demo_events)) = [row_of demo_rollout]"
proof -
  let ?s1 = "empty_cp\<lparr>cp_rollouts := (cp_rollouts empty_cp)\<lparr>mg_rollouts := [row_of demo_rollout],
    mg_configs := [''r'' \<mapsto> demo_rollout]\<rparr>\<rparr>"
  have id: "ro_id demo_rollout = ''r''" by (simp add: demo_rollout_def)
  have m: "mg_rollouts (cp_rollouts empty_cp) = []" "mg_configs (cp_rollouts empty_cp) = Map.empty"
      "mg_metrics (cp_rollouts empty_cp) = []"
    by (simp_all add: empty_cp_def new_cp_server_def new_manager_def)
  have "cp_step avg fmt0 cal empty_cp (Request demo_cp_env ((demo_cp_in ''POST'' ''/v1/rollouts'')\<lparr>ci_config := Inr demo_rollout\<rparr>)) = ?s1"
    by (simp add: cp_routes_def has_prefix_def demo_cp_in_def rollouts_handler_def upsert_def demo_check
        upsert_statement_def upsert_entry_def insert_or_replace_def m id demo_cp_env_def)
  moreover have "\<not> f64_lt (rr_max_error_rate (row_of demo_rollout)) f64_zero"
    unfolding row_of_def demo_rollout_def by code_simp
  then have "cp_step avg fmt0 cal ?s1 (EvaluateTick demo_eval) = ?s1"
    using evaluate_no_metrics [of "cp_rollouts ?s1" avg fmt0 cal demo_eval] m by simp
  moreover have "cp_rollouts (fst (quota_handler env r s)) = cp_rollouts s" for env r s
    by (simp add: quota_handler_def Let_def split_def split: sum.split)
  ultimately show ?thesis
    by (simp add: cp_run_def demo_events_def) (simp add: cp_routes_def has_prefix_def demo_cp_in_def)
qed

theorem nothing_recorded_witness:
  "us_used_today (day_usage demo_calendar (cp_quotas (cp_run (\<lambda>_. f64_one) (\<lambda>_. []) demo_calendar empty_cp demo_events)) True ''t'' 0) = 0
   \<and> cp_step (\<lambda>_. f64_one) (\<lambda>_. []) demo_calendar (cp_run (\<lambda>_. f64_one) (\<lambda>_. []) demo_calendar empty_cp demo_events) (EvaluateTick demo_eval)
       = cp_run (\<lambda>_. f64_one) (\<lambda>_. []) demo_calendar empty_cp demo_events"
proof -
  have "\<not> f64_lt (rr_max_error_rate (row_of demo_rollout)) f64_zero"
    unfolding row_of_def demo_rollout_def by code_simp
  then show ?thesis
    using nothing_recorded [OF refl, of "\<lambda>_. f64_one" "\<lambda>_. []" demo_calendar empty_cp demo_events True "''t''" 0 demo_eval]
      demo_events_rollouts [of "\<lambda>_. f64_one" "\<lambda>_. []" demo_calendar]
    by (simp add: empty_cp_def new_cp_server_def new_enforcer_def new_manager_def del: cp_step.simps)
qed

definition failed_reply :: "cp_reply option \<Rightarrow> bool" where
  "failed_reply reply = (case reply of None \<Rightarrow> False | Some rep \<Rightarrow> 400 \<le> fst rep)"

definition harmless :: "cp_in \<Rightarrow> cp_server \<Rightarrow> cp_server \<times> cp_reply option \<Rightarrow> bool" where
  "harmless r s x \<longleftrightarrow> (failed_reply (snd x) \<or> ci_method r = ''GET'' \<longrightarrow> cp_tables (fst x) = cp_tables s)"

lemma harmless_same [simp]: "harmless r s (s, reply)"
  by (simp add: harmless_def)

lemma reply_codes [simp]: "fst (cp_ok v) = 200" "fst (cp_fail c msg) = c"
  by (simp_all add: cp_ok_def cp_fail_def)

lemma get_is_not: "ci_method r = ''POST'' \<Longrightarrow> ci_method r \<noteq> ''GET''" "ci_method r = ''PATCH'' \<Longrightarrow> ci_method r \<noteq> ''GET''"
  "ci_method r = ''DELETE'' \<Longrightarrow> ci_method r \<noteq> ''GET''"
  by simp_all

lemma harmless_write:
  "ci_method r \<noteq> ''GET'' \<Longrightarrow> harmless r s (t, Some (cp_ok v))"
  "cp_tables t = cp_tables s \<Longrightarrow> harmless r s (t, reply)"
  by (simp_all add: harmless_def failed_reply_def)

lemma handlers_harmless:
  "harmless r s (models_handler env r s)" "harmless r s (model_handler env r s)" "harmless r s (rollouts_handler env r s)"
  "harmless r s (rollout_handler env r s)" "harmless r s (weights_handler env r s)" "harmless r s (quotas_handler env r s)"
  "harmless r s (quota_handler env r s)" "harmless r s (cp_metrics_handler env s)"
proof -
  note w = get_is_not harmless_write write_errors
  show "harmless r s (models_handler env r s)"
    unfolding models_handler_def
    by (auto split: sum.split prod.split intro: harmless_write(1) dest!: write_errors(1) simp: get_is_not)
  show "harmless r s (model_handler env r s)"
    unfolding model_handler_def Let_def
    by (auto split: sum.split prod.split option.split intro: harmless_write(1) dest!: write_errors(2) simp: get_is_not)
  show "harmless r s (rollouts_handler env r s)"
    unfolding rollouts_handler_def
    by (auto split: sum.split prod.split option.split intro: harmless_write(1) dest!: write_errors(3) simp: get_is_not)
  show "harmless r s (rollout_handler env r s)"
    unfolding rollout_handler_def Let_def
    by (auto split: prod.split option.split intro: harmless_write(1) dest!: write_errors(4) simp: get_is_not)
  show "harmless r s (quotas_handler env r s)"
    unfolding quotas_handler_def
    by (auto split: sum.split prod.split option.split intro: harmless_write(1) dest!: write_errors(5) simp: get_is_not)
  show "harmless r s (quota_handler env r s)"
    unfolding quota_handler_def Let_def split_def
    by (auto split: sum.split intro!: harmless_write(2) simp: cp_tables_def frame)
qed (simp_all add: weights_handler_def cp_metrics_handler_def)

text \<open>C14. A request that is answered with an error changes no table: whichever handler refuses it, at whatever
  point, the models, the rollouts, the metrics and the quotas are as before. Neither does a \<open>GET\<close>.\<close>

theorem errors_change_nothing:
  assumes "failed_reply (snd (cp_routes env r s)) \<or> ci_method r = ''GET''"
  shows "cp_tables (fst (cp_routes env r s)) = cp_tables s"
proof -
  have "harmless r s (cp_routes env r s)"
    unfolding cp_routes_def by (simp only: if_same [of "harmless r s"] handlers_harmless harmless_same if_cancel)
  then show ?thesis using assms by (simp add: harmless_def)
qed

lemma demo_patch:
  "cp_routes demo_cp_env (demo_cp_in ''PATCH'' ''/v1/models/x'') empty_cp
     = (empty_cp, Some (cp_fail 400 ''model x not found''))"
  by (simp add: cp_routes_def has_prefix_def demo_cp_in_def model_handler_def set_enabled_def demo_cp_env_def empty_cp_def
      new_cp_server_def empty_db_def)

theorem errors_change_nothing_witness:
  "cp_tables (fst (cp_routes demo_cp_env (demo_cp_in ''PATCH'' ''/v1/models/x'') empty_cp)) = cp_tables empty_cp"
  using errors_change_nothing [of demo_cp_env "demo_cp_in ''PATCH'' ''/v1/models/x''" empty_cp] demo_patch
  by (simp add: failed_reply_def)

lemma seed_db_models: "gd_models (seed_db True (\<lambda>_. True) cap_works order addr now db) \<noteq> []"
  by (cases "gd_models db") (simp_all add: seed_db_def cp_seed_rows_def cp_seed_row_def insert_model_or_ignore_def)

lemma listing_blocks:
  assumes "gd_models db \<noteq> []"
  shows "list_models json cp_pool db None works False = None"
proof -
  have "sort_key gr_model_id (gd_models db) \<noteq> []" using assms by (metis set_empty set_sort)
  then show ?thesis by (simp add: list_models_def cp_pool_def list_loop_eq Let_def)
qed

lemma lookup_answers: "works \<Longrightarrow> get_model json cp_pool db None works mid \<noteq> None"
  by (simp add: get_model_def cp_pool_def load_caps_def split: option.split)

definition has_reply :: "cp_server \<times> cp_reply option \<Rightarrow> bool" where
  "has_reply x \<longleftrightarrow> snd x \<noteq> None"

lemma has_reply_Some [simp]: "has_reply (s, Some rep)"
  by (simp add: has_reply_def)

lemma handlers_answer:
  assumes "cn_conns env = cp_pool" "cn_list_fails env = None" "\<forall>mid. cn_caps_work env mid" "gd_models (cp_registry s) \<noteq> []"
  shows "has_reply (models_handler env r s) \<longleftrightarrow> ci_method r \<noteq> ''GET''" "has_reply (model_handler env r s)"
    "has_reply (rollouts_handler env r s)" "has_reply (rollout_handler env r s)" "has_reply (weights_handler env r s)"
    "has_reply (quotas_handler env r s)" "has_reply (quota_handler env r s)" "\<not> has_reply (cp_metrics_handler env s)"
proof -
  show "has_reply (models_handler env r s) \<longleftrightarrow> ci_method r \<noteq> ''GET''"
    unfolding models_handler_def assms(1,2) listing_blocks [OF assms(4)]
    by (auto simp: has_reply_def split: sum.split prod.split)
  show "has_reply (model_handler env r s)"
  proof -
    obtain x where "get_model (cn_json env) cp_pool (cp_registry s) None (cn_caps_work env (drop (length ''/v1/models/'') (ci_path r)))
        (drop (length ''/v1/models/'') (ci_path r)) = Some x"
      using lookup_answers assms(3) by (meson option.exhaust_sel)
    then show ?thesis
      unfolding model_handler_def Let_def assms(1,2)
      by (simp only: if_same [of has_reply] option.map has_reply_Some) (simp add: has_reply_def split: sum.split prod.split option.split)
  qed
  show "\<not> has_reply (cp_metrics_handler env s)"
    unfolding cp_metrics_handler_def assms(1,2) listing_blocks [OF assms(4)] by (simp add: has_reply_def)
qed (auto simp: rollouts_handler_def rollout_handler_def weights_handler_def quotas_handler_def quota_handler_def Let_def
    split: sum.split prod.split option.split)

lemma answers_one_connection:
  assumes "cn_conns env = cp_pool" "cn_list_fails env = None" "\<forall>mid. cn_caps_work env mid" "gd_models (cp_registry s) \<noteq> []"
  shows "has_reply (cp_routes env r s) \<longleftrightarrow> \<not> cp_lists r"
proof -
  note h = handlers_answer [OF assms]
  have prefix: "\<not> has_prefix ''/metrics'' ''/v1/models/''" "\<not> has_prefix ''/metrics'' ''/v1/rollouts/''"
    "\<not> has_prefix ''/metrics'' ''/v1/quotas/''" by (simp_all add: has_prefix_def)
  show ?thesis
  proof (cases "ci_path r = ''/metrics''")
    case True
    then show ?thesis unfolding cp_routes_def cp_lists_def True by (simp add: prefix h(8))
  next
    case False
    then show ?thesis
      unfolding cp_routes_def cp_lists_def by (simp only: if_same [of has_reply] h has_reply_Some if_cancel) auto
  qed
qed

text \<open>A request that reaches no statement is answered, whatever the pool.\<close>

lemma answers_without_queries:
  assumes "\<not> cp_queries env r s"
  shows "has_reply (cp_routes env' r s)"
proof -
  have m: "has_reply (models_handler env' r s)" if "ci_method r \<noteq> ''GET''"
    using that by (auto simp: models_handler_def split: sum.split prod.split)
  have g: "has_reply (model_handler env' r s)" if "ci_method r \<noteq> ''GET''"
    using that by (auto simp: model_handler_def Let_def split: sum.split prod.split option.split)
  have o: "has_reply (rollouts_handler env' r s)" "has_reply (rollout_handler env' r s)" "has_reply (weights_handler env' r s)"
    "has_reply (quotas_handler env' r s)" "has_reply (quota_handler env' r s)"
    by (auto simp: rollouts_handler_def rollout_handler_def weights_handler_def quotas_handler_def quota_handler_def Let_def
      split: sum.split prod.split option.split)
  show ?thesis
    using assms unfolding cp_queries_def cp_routes_def
    by (simp only: if_same [of has_reply] has_reply_Some o if_cancel) (auto simp: m g)
qed

lemma lists_queries: "cp_lists r \<Longrightarrow> cp_queries env r s"
  by (auto simp: cp_lists_def cp_queries_def has_prefix_def)

text \<open>No request removes a model.\<close>

lemma upsert_model_nonempty: "fst (upsert_model row rows) \<noteq> []"
  by (auto simp: upsert_model_def)

lemma register_models:
  "gd_models db \<noteq> [] \<Longrightarrow> gd_models (fst (register json db fails dw iw now m)) \<noteq> []"
  by (simp add: register_def Let_def case_prod_unfold upsert_model_nonempty split: option.split)

lemma models_stay:
  assumes "gd_models (cp_registry s) \<noteq> []"
  shows "gd_models (cp_registry (fst (cp_routes env r s))) \<noteq> []"
proof -
  have m: "gd_models (cp_registry (fst (models_handler env r s))) \<noteq> []"
    unfolding models_handler_def case_prod_unfold
    using assms by (auto simp: register_models split: sum.split)
  have g: "gd_models (cp_registry (fst (model_handler env r s))) \<noteq> []"
    unfolding model_handler_def set_enabled_def Let_def
    using assms by (auto split: sum.split prod.split option.split)
  have o: "cp_registry (fst (rollouts_handler env r s)) = cp_registry s" "cp_registry (fst (rollout_handler env r s)) = cp_registry s"
    "cp_registry (fst (weights_handler env r s)) = cp_registry s" "cp_registry (fst (quotas_handler env r s)) = cp_registry s"
    "cp_registry (fst (quota_handler env r s)) = cp_registry s" "cp_registry (fst (cp_metrics_handler env s)) = cp_registry s"
    by (auto simp: rollouts_handler_def rollout_handler_def weights_handler_def quotas_handler_def quota_handler_def
        cp_metrics_handler_def Let_def split: sum.split prod.split option.split)
  show ?thesis
    unfolding cp_routes_def
    by (simp only: if_same [of "\<lambda>x. gd_models (cp_registry (fst x)) \<noteq> []"] m g o fst_conv assms if_cancel)
      (simp add: assms)
qed

text \<open>The world in a run: requests, and the ticks of the loops; the evaluation needs a connection.\<close>

fun cp_advance :: "(f64 list \<Rightarrow> f64) \<Rightarrow> (f64 \<Rightarrow> string) \<Rightarrow> calendar \<Rightarrow> cp_world \<Rightarrow> cp_event \<Rightarrow> cp_world" where
  "cp_advance avg fmt0 cal w (Request env r) = fst (cp_serve env r w)"
| "cp_advance avg fmt0 cal w (EvaluateTick env) =
     (if cw_free w = 0 then w else w\<lparr>cw_server := cp_step avg fmt0 cal (cw_server w) (EvaluateTick env)\<rparr>)"
| "cp_advance avg fmt0 cal w (FlushTick now) = w\<lparr>cw_server := cp_step avg fmt0 cal (cw_server w) (FlushTick now)\<rparr>"

lemma cp_waiting_registry: "cp_registry (cp_waiting env r s) = cp_registry s"
  by (simp add: cp_waiting_def Let_def split: option.split sum.split prod.split)

lemma serve_inv:
  assumes "gd_models (cp_registry (cw_server w)) \<noteq> []" "cn_list_fails env = None" "cw_free w = 0 \<or> cw_free w = 1"
  shows "gd_models (cp_registry (cw_server (fst (cp_serve env r w)))) \<noteq> []"
    and "cw_free (fst (cp_serve env r w)) = (if cp_lists r then 0 else cw_free w)"
proof -
  obtain s reply where e: "cp_routes (env\<lparr>cn_conns := cw_free w\<rparr>) r (cw_server w) = (s, reply)" by fastforce
  have m: "gd_models (cp_registry s) \<noteq> []" using models_stay [OF assms(1), of "env\<lparr>cn_conns := cw_free w\<rparr>" r] by (simp add: e)
  show "gd_models (cp_registry (cw_server (fst (cp_serve env r w)))) \<noteq> []"
    using m assms(1) by (simp add: cp_serve_def e cp_waiting_registry)
  show "cw_free (fst (cp_serve env r w)) = (if cp_lists r then 0 else cw_free w)"
    using assms by (auto simp: cp_serve_def e)
qed

lemma world_inv:
  assumes "gd_models (cp_registry s) \<noteq> []" "\<forall>env r. Request env r \<in> set evs \<longrightarrow> cn_list_fails env = None"
    and w_def: "w = foldl (cp_advance avg fmt0 cal) \<lparr>cw_server = s, cw_free = cp_pool\<rparr> evs"
  shows "gd_models (cp_registry (cw_server w)) \<noteq> []
    \<and> cw_free w = (if \<exists>env r. Request env r \<in> set evs \<and> cp_lists r then 0 else 1)"
  using assms(2) unfolding w_def
proof (induction evs rule: rev_induct)
  case Nil
  then show ?case using assms(1) by (simp add: cp_pool_def)
next
  case (snoc ev evs)
  let ?w = "foldl (cp_advance avg fmt0 cal) \<lparr>cw_server = s, cw_free = cp_pool\<rparr> evs"
  have "\<forall>env r. Request env r \<in> set evs \<longrightarrow> cn_list_fails env = None" using snoc.prems by simp
  note IH' = snoc.IH [OF this]
  then have IH: "gd_models (cp_registry (cw_server ?w)) \<noteq> []"
      "cw_free ?w = (if \<exists>env r. Request env r \<in> set evs \<and> cp_lists r then 0 else 1)" by blast+
  show ?case
  proof (cases ev)
    case (Request env r)
    have "Request env r \<in> set (evs @ [ev])" by (simp add: Request)
    then have l: "cn_list_fails env = None" using snoc.prems by blast
    have "cw_free ?w = 0 \<or> cw_free ?w = 1" unfolding IH(2) by (simp split: if_split)
    note s = serve_inv [OF IH(1) l this, of r]
    have "(\<exists>env r. Request env r \<in> set (evs @ [ev]) \<and> cp_lists r) \<longleftrightarrow>
        cp_lists r \<or> (\<exists>env r. Request env r \<in> set evs \<and> cp_lists r)"
      by (auto simp: Request)
    then show ?thesis using s IH(2) by (simp add: Request)
  next
    case (EvaluateTick env)
    then show ?thesis using IH by simp
  next
    case (FlushTick now)
    then show ?thesis using IH by simp
  qed
qed

text \<open>C16. The one connection of the pool is lost to the first listing. In a control plane that has a
  model, as it does after \<open>seedDB\<close>, and whose queries for models and their capabilities work, \<open>GET /v1/models\<close> and
  \<open>/metrics\<close> never answer; and once one of them has been asked, no request that reaches a
  statement answers any more, whatever it is, while the others (health, rollout weights,
  refused methods and bodies, quota checks the cache refuses) still do. Before that, every
  other request is answered.\<close>

theorem cp_answers_iff:
  assumes "gd_models (cp_registry s) \<noteq> []"
    and "\<forall>env r. Request env r \<in> set evs \<longrightarrow> cn_list_fails env = None"
    and "cn_list_fails env = None" "\<forall>mid. cn_caps_work env mid"
    and w: "w = foldl (cp_advance avg fmt0 cal) \<lparr>cw_server = s, cw_free = cp_pool\<rparr> evs"
  shows "snd (cp_serve env r w) = None \<longleftrightarrow>
    cp_lists r \<or> (\<exists>env' r'. Request env' r' \<in> set evs \<and> cp_lists r') \<and> cp_queries env r (cw_server w)"
proof -
  note inv = world_inv [OF assms(1,2) w]
  have r: "snd (cp_serve env r w) = None \<longleftrightarrow>
      cw_free w = 0 \<and> cp_queries env r (cw_server w) \<or>
      \<not> (cw_free w = 0 \<and> cp_queries env r (cw_server w)) \<and> \<not> has_reply (cp_routes (env\<lparr>cn_conns := cw_free w\<rparr>) r (cw_server w))"
  proof -
    obtain s' reply where e: "cp_routes (env\<lparr>cn_conns := cw_free w\<rparr>) r (cw_server w) = (s', reply)" by fastforce
    show ?thesis by (cases reply) (simp_all add: cp_serve_def e has_reply_def)
  qed
  show ?thesis
  proof (cases "\<exists>env' r'. Request env' r' \<in> set evs \<and> cp_lists r'")
    case True
    then have "cw_free w = 0" using inv by simp
    then show ?thesis
      using r True answers_without_queries lists_queries by auto
  next
    case False
    then have f: "cw_free w = cp_pool" using inv by (simp add: cp_pool_def)
    have "has_reply (cp_routes (env\<lparr>cn_conns := cw_free w\<rparr>) r (cw_server w)) \<longleftrightarrow> \<not> cp_lists r"
      using inv assms(3,4) by (intro answers_one_connection) (simp_all add: f)
    then show ?thesis using r False f by (auto simp: cp_pool_def)
  qed
qed

definition seeded_cp :: cp_server where
  "seeded_cp = empty_cp\<lparr>cp_registry := seed_db True (\<lambda>_. True) (\<lambda>_. True) [] ''a'' 0 empty_db\<rparr>"

theorem cp_answers_iff_witness:
  "snd (cp_serve demo_cp_env (demo_cp_in ''GET'' ''/v1/rollouts'') \<lparr>cw_server = seeded_cp, cw_free = cp_pool\<rparr>) \<noteq> None
   \<and> snd (cp_serve demo_cp_env (demo_cp_in ''GET'' ''/v1/rollouts'')
        (foldl (cp_advance (\<lambda>_. f64_one) (\<lambda>_. []) demo_calendar) \<lparr>cw_server = seeded_cp, cw_free = cp_pool\<rparr>
          [Request demo_cp_env (demo_cp_in ''GET'' ''/metrics''), FlushTick 0])) = None
   \<and> snd (cp_serve demo_cp_env (demo_cp_in ''GET'' ''/healthz/ready'')
        (foldl (cp_advance (\<lambda>_. f64_one) (\<lambda>_. []) demo_calendar) \<lparr>cw_server = seeded_cp, cw_free = cp_pool\<rparr>
          [Request demo_cp_env (demo_cp_in ''GET'' ''/metrics''), FlushTick 0])) \<noteq> None"
proof -
  have h: "gd_models (cp_registry seeded_cp) \<noteq> []" by (simp add: seeded_cp_def seed_db_models)
  have e: "cn_list_fails demo_cp_env = None" "\<forall>mid. cn_caps_work demo_cp_env mid" by (simp_all add: demo_cp_env_def)
  let ?evs = "[Request demo_cp_env (demo_cp_in ''GET'' ''/metrics''), FlushTick 0]"
  have q: "cp_queries demo_cp_env (demo_cp_in ''GET'' ''/v1/rollouts'') s" "\<not> cp_queries demo_cp_env (demo_cp_in ''GET'' ''/healthz/ready'') s"
    "\<not> cp_lists (demo_cp_in ''GET'' ''/v1/rollouts'')" "\<not> cp_lists (demo_cp_in ''GET'' ''/healthz/ready'')"
    "cp_lists (demo_cp_in ''GET'' ''/metrics'')" for s
    by (simp_all add: cp_queries_def cp_lists_def demo_cp_in_def has_prefix_def)
  have l: "\<forall>env r. Request env r \<in> set ?evs \<longrightarrow> cn_list_fails env = None" by (simp add: e)
  have x: "\<exists>env' r'. Request env' r' \<in> set ?evs \<and> cp_lists r'" using q(5) by auto
  show ?thesis
    using cp_answers_iff [OF h, of "[]", OF _ e refl, of "demo_cp_in ''GET'' ''/v1/rollouts''" "\<lambda>_. f64_one" "\<lambda>_. []" demo_calendar]
      cp_answers_iff [OF h l e refl, of "demo_cp_in ''GET'' ''/v1/rollouts''" "\<lambda>_. f64_one" "\<lambda>_. []" demo_calendar]
      cp_answers_iff [OF h l e refl, of "demo_cp_in ''GET'' ''/healthz/ready''" "\<lambda>_. f64_one" "\<lambda>_. []" demo_calendar] q x
    by simp
qed

end
