(* ===== verification/Spec2Isabelle.thy ===== *)
theory Spec2Isabelle
  imports Mains RouterConcurrent Platform ControlPlane
begin

text \<open>
  A verification development for the Go services of the LLM serving platform.

  \<^bold>\<open>The program.\<close> A client sends JSON to the API gateway, which authenticates it by its key, checks
  the request and calls the router over gRPC. The router limits the tenant's rate, ranks the models
  that can serve the task, calls the executor of the best one, keeps circuit breakers and health
  records of the models and an audit log. The scheduler queues requests per model in three lanes of
  priority and batches them. The control plane keeps the registry of models, the rollouts of
  canaries, which it is to roll back when they fail, and the quotas of tenants. The messages between
  the services are encoded by hand-written code in the format of protocol buffers. The executors
  are not written in Go and are not modelled.

  \<^bold>\<open>Theories and sources\<close> (paths under \<open>src/\<close>; \<open>services/\<close> is left out of them).

  \<^item> Shared: \<open>Prelude\<close> (machine integers, time, errors as values, collections of facts, the contract of
    get-or-create registries), \<open>Float64\<close> (IEEE binary64 on its bits) and \<open>UnitInterval\<close> (what
    stays between 0 and 1 in rounded arithmetic), \<open>InsertionSort\<close> (the sorting loop that three
    components have, with the contract of its comparison), \<open>Ring\<close> (arrays written round and round),
    \<open>TtlCache\<close> (the contract of the three caches with a lifetime), \<open>Shares\<close> (the contract of the
    two functions from rollouts to weights).
  \<^item> \<open>gen/go\<close>: \<open>Messages\<close> (enums and messages of \<open>inference.go\<close> and \<open>execution.go\<close>), \<open>Wire\<close> (what
    the code uses of protowire, the locale \<open>wire_format\<close> of what its documentation promises, and
    the loop that all decoders share), \<open>InferenceWire\<close> and \<open>ExecutionWire\<close> (the encoders and
    decoders), \<open>Protobuf\<close> (the published encoding, on which \<open>wire_format\<close> is interpreted),
    \<open>Codec\<close> (\<open>codec.go\<close>), \<open>Grpc\<close> (handlers, descriptors, client stubs, streams).
  \<^item> Scheduler: \<open>ModelQueue\<close> (\<open>internal/queue/queue.go\<close>), \<open>Batcher\<close> (\<open>internal/batcher/batcher.go\<close>),
    \<open>Scheduler\<close> (the service of \<open>cmd/main.go\<close>, as a step relation over all interleavings of callers
    and loops: a drain, each answer and the end of a batch are steps of their own, and a batch in between is a \<open>flight\<close>), \<open>SchedulerServer\<close> (its gRPC method and admin endpoints).
  \<^item> Router: \<open>Scoring\<close> (\<open>internal/scoring/scorer.go\<close>), \<open>Policy\<close> (\<open>internal/policy/policy.go\<close>), \<open>Middleware\<close>
    (\<open>internal/middleware/middleware.go\<close>), \<open>Repo\<close> (\<open>internal/repo/store.go\<close>), \<open>Router\<close> and
    \<open>RouterAdmin\<close> (\<open>cmd/main.go\<close>), \<open>Routing\<close> (what \<open>Route\<close> guarantees), \<open>RouterSteps\<close> (\<open>Route\<close> as its locked
    sections), \<open>RouterConcurrent\<close> (many calls at once, with the goroutines of the audit log, the reload loop and the
    handler of rollouts, as a step relation).
  \<^item> Gateway: \<open>Admission\<close> and \<open>Auth\<close> (\<open>internal/\<close>), \<open>Gateway\<close> (\<open>cmd/main.go\<close>), \<open>GatewayFlow\<close> (what its
    handlers guarantee).
  \<^item> Control plane: \<open>Quota\<close>, \<open>Rollout\<close> and \<open>ModelRegistry\<close> (\<open>internal/\<close>), \<open>ControlPlane\<close> (\<open>cmd/main.go\<close>).
  \<^item> \<open>Platform\<close>: the gateway, the codec, the interceptors and the router together. \<open>Mains\<close>: \<open>main\<close> of the
    router and of the scheduler, up to the registration with gRPC.

  \<^bold>\<open>How the code is modelled.\<close> A struct is a record with the fields of the struct, an operation a function
  that takes the state and returns it changed, under the mutex that the code holds. What an
  operation gets from outside (the clock at each reading, random bytes, the outcome of a statement
  or a call, the parsed body) is an argument, usually a field of a record that ends in \<open>_env\<close>. An error
  is \<open>Inl\<close>, a panic a value of its own (\<open>None\<close>, or \<open>Panicked\<close> behind the interceptors), and a call that
  waits for ever \<open>None\<close>. Integers have the width of the code and wrap; a \<open>float64\<close> is its 64 bits and
  arithmetic rounds to even. A table is the list of its rows, or a map when only its key is used;
  each statement is translated. Strings are lists of bytes. Loops are recursions that Isabelle
  proves to end; there is no fuel (\<open>route_run\<close> runs a number of steps that is shown to be enough), but a decoder returns \<open>None\<close> where the code would slice out of
  bounds, and \<open>codec_unmarshal_returns\<close> shows that this does not happen.

  \<^bold>\<open>What is shown.\<close> The locales state what a component relies on, and each is interpreted on the code's
  own operations: \<open>lazy_registry\<close> (queues, batchers, breakers, health records), \<open>ttl_cache\<close> (principals,
  policies, quota configurations), \<open>strict_weak\<close> (the two orders that are sorted by), \<open>batch_source\<close>
  (the queue, for the batcher), \<open>depth_reporter\<close> (the queues, for the scorer), \<open>shares\<close> (the manager
  and the router), \<open>wire_format\<close>, \<open>machine\<close> (a step relation with an invariant: two of the interleaved router). On them rest, per component:

  \<^item> The queue is a list per lane and loses and duplicates nothing; the batcher answers each item
    once; in every reachable state of the scheduler each waiting caller has its item in a queue, in a batch in flight or
    its result, a batch in flight can always be brought to its end, and the counters add up.
  \<^item> The codec gives back what was sent, and decoding returns on every input.
  \<^item> The ranking is sorted, stable, complete and between 0 and 1; a breaker implements a three-state
    specification; a bucket stays within its bounds and grants exactly its burst.
  \<^item> \<open>Route\<close> serves from the best admissible model, accounts for every request and isolates a
    failing model; the interceptors refuse, log, count and recover as stated.
  \<^item> Under every interleaving of the router the counters, the health records and the audit log account for each call, a call is sent only
    to a model that may serve it and whose breaker let it through, its answer is what the executor returned, and a tripped breaker
    keeps new calls away. (Run alone, the locked sections of \<open>Route\<close> are \<open>Route\<close>: \<open>route_alone\<close>.)
  \<^item> The gateway forwards only what is authenticated and admitted, counts every answer by its kind,
    and a stream carries the words of the answer.
  \<^item> Keys, quotas, rollouts and models are kept as their operations promise; a request that fails
    changes no table; which requests of the control plane are never answered, and that none after them that needs its one
    connection is; what overlapping changes of rollouts can leave behind.
  \<^item> Together: an answer of the gateway comes from a model that the tenant of the key may use, given
    the client's prompt; and after any history the counters of gateway, interceptors and router
    agree with the logs.

  Several theorems state what the code does where a comment or a document says something else, or
  where it is a defect: models and capabilities are read over a single connection, so that the
  router does not start and two pages of the control plane never load; the types with which the router and the scheduler
  register are ones that gRPC refuses, so that neither serves; a failed dial is final for
  a batcher; nothing records usage; two changes of a rollout that overlap can leave memory and table apart; a stopped canary is
  scored with full weight.

  \<^bold>\<open>Bounds.\<close> The rate-limit and health properties assume counts below \<open>2 ^ 53\<close> where they are converted to
  floats, and \<open>2 ^ 63\<close> events of a model; quotas assume no overflow in \<open>int64\<close>; encodings are
  shorter than \<open>2 ^ 63\<close> bytes, which every slice is. The counters of the gateway and of the
  interceptors are compared modulo \<open>2 ^ 64\<close>, without such a bound.

  \<^bold>\<open>Steps and waits.\<close> Requests interleave within the scheduler (\<open>Scheduler\<close>) and within the router (\<open>RouterConcurrent\<close>); the
  changes of rollouts interleave in \<open>Rollout\<close>, where the statement and the write of the map are separate steps. In \<open>Platform\<close>, in the
  gateway and in the control plane a request is one step. A store has one connection. That a query waits for it is modelled
  where the code holds it for ever: \<open>load_models\<close> takes the number of connections and is \<open>None\<close> when it waits for the connection
  that it holds itself, \<open>cp_serve\<close> keeps track of a connection that a hung request of the control plane holds, and no
  later request that uses the database is answered. The other operations of the router's store, each one statement, are described as they are
  once they have the connection; a goroutine that waits for it takes no step, so what holds in every state of every run holds of those
  runs too, and nothing is claimed about when a call of \<open>Route\<close> returns. The runs of \<open>RouterConcurrent\<close> start from any
  router that \<open>NewRouterServer\<close> returns: with one connection one without enabled models, and with a larger pool any.

  \<^bold>\<open>Not modelled.\<close> The HTTP listeners and the shutdown of the services; \<open>Start\<close> and \<open>Stop\<close> of a batcher and
  \<open>Close\<close>, which start and end goroutines and connections; the output
  of slog; \<open>Registry.String\<close> and \<open>Ping\<close>. The two readings of the clock in \<open>RateLimiter.Allow\<close> are one. The path of an HTTP request is taken as
  the multiplexer hands it on, cleaned; net/http redirects the others before a handler runs. The rows of a query without \<open>ORDER BY\<close> come in an
  order that is a parameter. Code of others is a parameter: protowire, gRPC's registration, connections
  and streams, encoding/json, SQLite's aggregates \<open>AVG\<close> and \<open>SUM\<close>, \<open>Time.Format\<close>.
\<close>

end
